(* ===== verification/Prelude.thy ===== *)
theory Prelude
  imports Main "HOL-Library.Word"
begin

unbundle bit_operations_syntax

section \<open>Shared vocabulary of the development\<close>

text \<open>
  Names of the machine types of the firmware, the buffer primitives that the byte-level
  components share, and the generic facts on lists and words that their proofs use.

  \<^item> \<open>u8\<close>, \<open>u16\<close>, \<open>u32\<close>, \<open>u64\<close> are the \<^verbatim>\<open>std::uint8_t\<close> ... \<^verbatim>\<open>std::uint64_t\<close> of the source:
    addition and subtraction wrap. \<^verbatim>\<open>std::size_t\<close> values are \<open>nat\<close>; every place where the source
    compares or adds them works on lengths of objects in memory, so they never wrap.
  \<^item> \<open>store\<close> and \<open>load\<close> are array accesses that return \<open>None\<close> outside the array. A component that
    uses them makes a stray memory access a value of the model, and its theorems show that the
    value never occurs.
  \<^item> \<open>ascii\<close> turns a string literal of the source into its bytes.
  \<^item> \<open>overwrite\<close> is \<^verbatim>\<open>memcpy\<close> into an array at an offset.
\<close>

type_synonym u8 = "8 word"
type_synonym u16 = "16 word"
type_synonym u32 = "32 word"
type_synonym u64 = "64 word"
type_synonym bytes = "8 word list"

named_theorems buffer_simps \<open>facts on array accesses\<close>
named_theorems word_bits \<open>bit-level facts on machine words\<close>

definition store :: "'a list \<Rightarrow> nat \<Rightarrow> 'a \<Rightarrow> 'a list option" where
  "store buf i v = (if i < length buf then Some (buf[i := v]) else None)"

definition load :: "'a list \<Rightarrow> nat \<Rightarrow> 'a option" where
  "load buf i = (if i < length buf then Some (buf ! i) else None)"

definition overwrite :: "'a list \<Rightarrow> nat \<Rightarrow> 'a list \<Rightarrow> 'a list" where
  "overwrite buf off xs = take off buf @ xs @ drop (off + length xs) buf"

lemma store_in_range [buffer_simps]: "i < length buf \<Longrightarrow> store buf i v = Some (buf[i := v])"
  by (simp add: store_def)

lemma load_in_range [buffer_simps]: "i < length buf \<Longrightarrow> load buf i = Some (buf ! i)"
  by (simp add: load_def)

lemma length_overwrite [buffer_simps]:
  "off + length xs \<le> length buf \<Longrightarrow> length (overwrite buf off xs) = length buf"
  by (simp add: overwrite_def)

lemma nth_overwrite:
  "off + length xs \<le> length buf \<Longrightarrow> i < length buf \<Longrightarrow>
   overwrite buf off xs ! i = (if off \<le> i \<and> i < off + length xs then xs ! (i - off) else buf ! i)"
  by (auto simp: overwrite_def nth_append)

lemma take_overwrite:
  "off + length xs \<le> length buf \<Longrightarrow> n \<le> off \<Longrightarrow> take n (overwrite buf off xs) = take n buf"
  by (simp add: overwrite_def min_def)

lemma slice_overwrite:
  "off + length xs \<le> length buf \<Longrightarrow> take (length xs) (drop off (overwrite buf off xs)) = xs"
  by (simp add: overwrite_def)

lemma overwrite_Nil [simp]: "overwrite buf off [] = buf"
  by (simp add: overwrite_def)

lemma overwrite_append:
  "off + length xs \<le> length buf \<Longrightarrow>
   overwrite (overwrite buf off xs) (off + length xs) ys = overwrite buf off (xs @ ys)"
  by (simp add: overwrite_def ac_simps)

lemma overwrite_single: "off < length buf \<Longrightarrow> overwrite buf off [x] = buf[off := x]"
  by (simp add: overwrite_def upd_conv_take_nth_drop)

lemma take_update_snoc:
  "i < length buf \<Longrightarrow> take (Suc i) (buf[i := v]) = take i buf @ [v]"
  by (simp add: take_Suc_conv_app_nth)

lemma take_update_beyond: "n \<le> i \<Longrightarrow> take n (buf[i := v]) = take n buf"
  by simp

lemma list_split_at:
  "i < length xs \<Longrightarrow> xs = take i xs @ xs ! i # drop (Suc i) xs"
  by (simp add: id_take_nth_drop)

subsection \<open>Bounded quantities as words\<close>

lemma unat_of_nat_u8: "n < 256 \<Longrightarrow> unat (word_of_nat n :: u8) = n"
  by (simp add: unat_of_nat)

lemma unat_of_nat_u16: "n < 65536 \<Longrightarrow> unat (word_of_nat n :: u16) = n"
  by (simp add: unat_of_nat)

lemma unat_of_nat_u32: "n < 4294967296 \<Longrightarrow> unat (word_of_nat n :: u32) = n"
  by (simp add: unat_of_nat)

lemma unat_add_no_wrap:
  fixes a b :: "'a::len word"
  assumes "unat a + unat b < 2 ^ LENGTH('a)"
  shows "unat (a + b) = unat a + unat b"
  using assms by (simp add: unat_word_ariths)

lemma unat_sub_le:
  fixes a b :: "'a::len word"
  assumes "b \<le> a"
  shows "unat (a - b) = unat a - unat b"
  using assms by (rule unat_sub)

lemma add_within:
  fixes a b c :: "'a::len word"
  assumes "b \<le> a" "c \<le> a - b"
  shows "b + c \<le> a" "unat (b + c) = unat b + unat c"
proof -
  have le: "unat b + unat c \<le> unat a"
    using assms by (simp add: word_le_nat_alt unat_sub_le [OF assms(1)])
  then show "unat (b + c) = unat b + unat c"
    using unsigned_less [of a] by (intro unat_add_no_wrap) (simp add: le_less_trans)
  with le show "b + c \<le> a" by (simp add: word_le_nat_alt)
qed

lemma unat_of_nat_bounded:
  "n \<le> unat (x :: 'a::len word) \<Longrightarrow> unat (word_of_nat n :: 'a word) = n"
  using unsigned_less [of x, where 'a = nat] by (simp add: unat_of_nat le_less_trans)

lemma ucast_u16_u64: "unat (ucast (x :: u16) :: u64) = unat x"
proof -
  have "unat x < 2 ^ LENGTH(16)" by (rule unsigned_less)
  then show ?thesis by (simp add: unsigned_ucast_eq take_bit_nat_eq_self)
qed

lemma ucast_u32_u64: "unat (ucast (x :: u32) :: u64) = unat x"
proof -
  have "unat x < 2 ^ LENGTH(32)" by (rule unsigned_less)
  then show ?thesis by (simp add: unsigned_ucast_eq take_bit_nat_eq_self)
qed

lemma map_option_append_Nil [simp]: "map_option ((@) []) x = x"
  by (cases x) simp_all

lemma map_option_append:
  "map_option ((@) (a @ b)) x = map_option ((@) a) (map_option ((@) b) x)"
  by (cases x) simp_all

lemma xor_cancel_left [simp, word_bits]:
  fixes a b c :: "'a::len word"
  shows "a XOR b = a XOR c \<longleftrightarrow> b = c"
  by (auto simp: bit_eq_iff bit_xor_iff)

lemma xor_cancel_right [simp, word_bits]:
  fixes a b c :: "'a::len word"
  shows "b XOR a = c XOR a \<longleftrightarrow> b = c"
  by (auto simp: bit_eq_iff bit_xor_iff)

lemma if_rule: "(c \<Longrightarrow> P a) \<Longrightarrow> (\<not> c \<Longrightarrow> P b) \<Longrightarrow> P (if c then a else b)"
  by simp

subsection \<open>Characters as bytes\<close>

definition byte_of_char :: "char \<Rightarrow> u8" where
  "byte_of_char c = word_of_nat (of_char c)"

definition ascii :: "string \<Rightarrow> bytes" where
  "ascii s = map byte_of_char s"

subsection \<open>First index with a property\<close>

primrec first_index :: "('a \<Rightarrow> bool) \<Rightarrow> 'a list \<Rightarrow> nat option" where
  "first_index P [] = None"
| "first_index P (x # xs) = (if P x then Some 0 else map_option Suc (first_index P xs))"

lemma first_index_Some:
  "first_index P xs = Some i \<Longrightarrow> i < length xs \<and> P (xs ! i) \<and> (\<forall>k<i. \<not> P (xs ! k))"
proof (induction xs arbitrary: i)
  case (Cons x xs)
  then show ?case by (auto split: if_splits simp: less_Suc_eq_0_disj)
qed simp

lemma first_index_None: "first_index P xs = None \<longleftrightarrow> (\<forall>x\<in>set xs. \<not> P x)"
  by (induction xs) auto

lemma first_index_None_nth: "first_index P xs = None \<longleftrightarrow> (\<forall>i<length xs. \<not> P (xs ! i))"
  by (simp add: first_index_None all_set_conv_all_nth)

lemma first_index_unique:
  assumes "i < length xs" "P (xs ! i)" "\<And>k. k < length xs \<Longrightarrow> P (xs ! k) \<Longrightarrow> k = i"
  shows "first_index P xs = Some i"
proof (cases "first_index P xs")
  case None
  with assms(1,2) show ?thesis by (auto simp: first_index_None)
next
  case (Some k)
  with first_index_Some [OF this] assms(3) show ?thesis by auto
qed

end
