(* ===== verification/Control_Framing.thy ===== *)
theory Control_Framing
  imports Prelude
begin

section \<open>Line framing of the control plane (control_framing.cpp, control_plane.cpp)\<close>

text \<open>
  The text side of the serial link: request lines end with LF, at most 512 bytes of a line are kept,
  and a flag records whether the line began like a protocol request. The record \<open>ControlPlane\<close> holds the
  fields of the C++ struct that framing reads and writes (output, metadata and context are constant
  after \<^verbatim>\<open>init\<close> and belong to the frame callback). The callback is an argument: a function of the frame
  on the state \<open>'s\<close> of the rest of the system.
\<close>

definition kMaxFrameBytes :: nat where "kMaxFrameBytes = 512"
definition kFrameStorageBytes :: nat where "kFrameStorageBytes = kMaxFrameBytes + 1"
definition kFramePrefix :: bytes where
  "kFramePrefix = [0x40, 0x45, 0x53, 0x50, 0x2d, 0x4e, 0x50, 0x32, 0x20]"

record Frame =
  fr_bytes :: bytes
  fr_protocol_candidate :: bool
  fr_too_long :: bool

record ControlPlane =
  cp_frame :: bytes
  cp_frame_length :: nat
  cp_discarding :: bool
  cp_prefix_candidate :: bool

definition default_control :: ControlPlane where
  "default_control = \<lparr>cp_frame = replicate kFrameStorageBytes 0, cp_frame_length = 0,
     cp_discarding = False, cp_prefix_candidate = True\<rparr>"

definition framing_reset :: "ControlPlane \<Rightarrow> ControlPlane" where
  "framing_reset c = c\<lparr>cp_frame_length := 0, cp_discarding := False, cp_prefix_candidate := True\<rparr>"

definition emit_line :: "ControlPlane \<Rightarrow> (Frame \<Rightarrow> 's \<Rightarrow> 's) \<Rightarrow> 's \<Rightarrow> ControlPlane \<times> 's" where
  "emit_line c callback s =
     (if cp_discarding c then
        let s = callback \<lparr>fr_bytes = [], fr_protocol_candidate = cp_prefix_candidate c,
                          fr_too_long = True\<rparr> s
        in (framing_reset c, s)
      else
        let c = c\<lparr>cp_frame := (cp_frame c)[cp_frame_length c := 0]\<rparr>;
            s = callback \<lparr>fr_bytes = take (cp_frame_length c) (cp_frame c),
                          fr_protocol_candidate = cp_prefix_candidate c, fr_too_long = False\<rparr> s
        in (framing_reset c, s))"

definition consume_byte ::
  "ControlPlane \<Rightarrow> u8 \<Rightarrow> (Frame \<Rightarrow> 's \<Rightarrow> 's) \<Rightarrow> 's \<Rightarrow> ControlPlane \<times> 's" where
  "consume_byte c byte callback s =
     (if byte = 0x0a then emit_line c callback s
      else if cp_discarding c then (c, s)
      else if cp_frame_length c < kMaxFrameBytes then
        let c = c\<lparr>cp_frame := (cp_frame c)[cp_frame_length c := byte],
                  cp_frame_length := cp_frame_length c + 1\<rparr>;
            index = cp_frame_length c - 1
        in (if index < length kFramePrefix \<and> cp_frame c ! index \<noteq> kFramePrefix ! index
            then c\<lparr>cp_prefix_candidate := False\<rparr> else c, s)
      else (c\<lparr>cp_discarding := True\<rparr>, s))"

fun framing_consume ::
  "ControlPlane \<Rightarrow> bytes \<Rightarrow> (Frame \<Rightarrow> 's \<Rightarrow> 's) \<Rightarrow> 's \<Rightarrow> ControlPlane \<times> 's" where
  "framing_consume c [] callback s = (c, s)"
| "framing_consume c (byte # data) callback s =
     (let (c, s) = consume_byte c byte callback s in framing_consume c data callback s)"

definition reset_input :: "ControlPlane \<Rightarrow> ControlPlane" where
  "reset_input c = c\<lparr>cp_frame_length := 0, cp_discarding := False, cp_prefix_candidate := True,
     cp_frame := (cp_frame c)[0 := 0]\<rparr>"

definition control_init :: "ControlPlane \<Rightarrow> ControlPlane" where
  "control_init c = reset_input c"

definition control_feed ::
  "ControlPlane \<Rightarrow> bytes \<Rightarrow> (Frame \<Rightarrow> 's \<Rightarrow> 's) \<Rightarrow> 's \<Rightarrow> ControlPlane \<times> 's" where
  "control_feed c data handle_frame s = framing_consume c data handle_frame s"

subsection \<open>What a line is\<close>

definition control_ok :: "ControlPlane \<Rightarrow> bool" where
  "control_ok c \<longleftrightarrow>
     length (cp_frame c) = kFrameStorageBytes \<and> cp_frame_length c \<le> kMaxFrameBytes"

text \<open>\<open>holds c l\<close>: the framing state after the bytes \<open>l\<close> of a line that has not ended yet.\<close>

definition prefix_consistent :: "bytes \<Rightarrow> bool" where
  "prefix_consistent l \<longleftrightarrow>
     take (length kFramePrefix) l = take (length l) kFramePrefix"

definition holds :: "ControlPlane \<Rightarrow> bytes \<Rightarrow> bool" where
  "holds c l \<longleftrightarrow>
     length (cp_frame c) = kFrameStorageBytes \<and>
     cp_frame_length c = min (length l) kMaxFrameBytes \<and>
     take (cp_frame_length c) (cp_frame c) = take kMaxFrameBytes l \<and>
     (cp_discarding c \<longleftrightarrow> length l > kMaxFrameBytes) \<and>
     (cp_prefix_candidate c \<longleftrightarrow> prefix_consistent l)"

definition line_frame :: "bytes \<Rightarrow> Frame" where
  "line_frame l =
     \<lparr>fr_bytes = (if length l \<le> kMaxFrameBytes then l else []),
      fr_protocol_candidate = prefix_consistent l, fr_too_long = (length l > kMaxFrameBytes)\<rparr>"

lemma length_kFramePrefix [simp]: "length kFramePrefix = 9"
  by (simp add: kFramePrefix_def)

lemma prefix_consistent_Nil [simp]: "prefix_consistent []"
  by (simp add: prefix_consistent_def)

lemma prefix_consistent_snoc:
  "prefix_consistent (l @ [b]) \<longleftrightarrow>
   prefix_consistent l \<and> (length l < 9 \<longrightarrow> b = kFramePrefix ! length l)"
proof (cases "length l < 9")
  case True
  then have "take (Suc (length l)) kFramePrefix = take (length l) kFramePrefix @ [kFramePrefix ! length l]"
    by (simp add: take_Suc_conv_app_nth)
  with True show ?thesis by (auto simp: prefix_consistent_def)
next
  case False
  then show ?thesis by (simp add: prefix_consistent_def)
qed

lemma holds_reset: "length (cp_frame c) = kFrameStorageBytes \<Longrightarrow> holds (framing_reset c) []"
  by (simp add: holds_def framing_reset_def)

lemma emit_line_holds:
  assumes "holds c l" "emit_line c callback s = (c', s')"
  shows "holds c' [] \<and> s' = callback (line_frame l) s"
proof (cases "length l \<le> kMaxFrameBytes")
  case True
  then have "cp_frame_length c = length l" "\<not> cp_discarding c" "take (length l) (cp_frame c) = l"
    using assms(1) by (auto simp: holds_def)
  with True assms show ?thesis
    by (auto simp: emit_line_def holds_def line_frame_def framing_reset_def)
next
  case False
  with assms show ?thesis
    by (auto simp: emit_line_def holds_def line_frame_def framing_reset_def)
qed

lemma consume_byte_holds:
  assumes "holds c l" "byte \<noteq> 0x0a" "consume_byte c byte callback s = (c', s')"
  shows "holds c' (l @ [byte]) \<and> s' = s"
proof -
  consider "length l < kMaxFrameBytes" | "length l = kMaxFrameBytes" | "length l > kMaxFrameBytes"
    by linarith
  then show ?thesis
  proof cases
    case 1
    then have c: "cp_frame_length c = length l" "\<not> cp_discarding c" "take (length l) (cp_frame c) = l"
      "length l < length (cp_frame c)"
      using assms(1) by (auto simp: holds_def kFrameStorageBytes_def)
    then have "take (Suc (length l)) ((cp_frame c)[length l := byte]) = l @ [byte]"
      by (simp add: take_update_snoc)
    moreover have "cp_prefix_candidate c' \<longleftrightarrow> prefix_consistent (l @ [byte])"
      using assms c 1
      by (auto simp: consume_byte_def holds_def Let_def prefix_consistent_snoc split: if_splits)
    ultimately show ?thesis
      using assms c 1 by (auto simp: consume_byte_def holds_def Let_def split: if_splits)
  next
    case 2
    then have "\<not> length l < 9" by (simp add: kMaxFrameBytes_def)
    with 2 assms show ?thesis
      by (auto simp: consume_byte_def holds_def prefix_consistent_snoc)
  next
    case 3
    then have "\<not> length l < 9" by (simp add: kMaxFrameBytes_def)
    with 3 assms show ?thesis
      by (auto simp: consume_byte_def holds_def prefix_consistent_snoc)
  qed
qed

text \<open>The lines of a byte string, given what is pending of the first: complete ones and the rest.\<close>

fun split_lines :: "bytes \<Rightarrow> bytes \<Rightarrow> bytes list \<times> bytes" where
  "split_lines pending [] = ([], pending)"
| "split_lines pending (b # data) =
     (if b = 0x0a then let (lines, rest) = split_lines [] data in (pending # lines, rest)
      else split_lines (pending @ [b]) data)"

lemma framing_consume_lines:
  "holds c l \<Longrightarrow> framing_consume c data callback s = (c', s') \<Longrightarrow>
   s' = fold (\<lambda>l. callback (line_frame l)) (fst (split_lines l data)) s \<and>
   holds c' (snd (split_lines l data))"
proof (induction data arbitrary: c l s)
  case (Cons b data)
  obtain c1 s1 where step: "consume_byte c b callback s = (c1, s1)" by force
  then have rest: "framing_consume c1 data callback s1 = (c', s')" using Cons.prems(2) by simp
  show ?case
  proof (cases "b = 0x0a")
    case True
    then have "emit_line c callback s = (c1, s1)" using step by (simp add: consume_byte_def)
    from emit_line_holds [OF Cons.prems(1) this] Cons.IH [OF _ rest, of "[]"] True
    show ?thesis by (auto split: prod.split)
  next
    case False
    from consume_byte_holds [OF Cons.prems(1) False step] Cons.IH [OF _ rest, of "l @ [b]"] False
    show ?thesis by auto
  qed
qed auto

lemma framing_consume_append:
  "framing_consume c (xs @ ys) callback s =
   (let (c, s) = framing_consume c xs callback s in framing_consume c ys callback s)"
  by (induction xs arbitrary: c s) (auto split: prod.split)

lemma holds_ok: "holds c l \<Longrightarrow> control_ok c"
  by (simp add: holds_def control_ok_def)

lemma holds_reset_input: "control_ok c \<Longrightarrow> holds (reset_input c) []"
  by (simp add: holds_def control_ok_def reset_input_def)

text \<open>
  (C26) Line framing: starting from a reset framer, feeding any byte string, in one call or in any
  number of pieces, calls the frame callback exactly once per LF-terminated line and in order: with the
  bytes of the line when it has at most 512 of them, with the too-long flag otherwise, and with the
  candidate flag that says whether the line is consistent with the request prefix. What follows the
  last LF stays pending, and the buffer indices stay in bounds throughout.
\<close>

theorem framing_lines:
  assumes "control_ok c"
    and "framing_consume (reset_input c) xs callback s = (c1, s1)"
    and "framing_consume c1 ys callback s1 = (c2, s2)"
  shows "s2 = fold (\<lambda>l. callback (line_frame l)) (fst (split_lines [] (xs @ ys))) s \<and>
    holds c2 (snd (split_lines [] (xs @ ys))) \<and> control_ok c1 \<and> control_ok c2"
proof -
  have h: "holds (reset_input c) []" using assms(1) by (rule holds_reset_input)
  have "framing_consume (reset_input c) (xs @ ys) callback s = (c2, s2)"
    using assms(2,3) by (simp add: framing_consume_append)
  from framing_consume_lines [OF h this] framing_consume_lines [OF h assms(2)] holds_ok
  show ?thesis by blast
qed

theorem framing_lines_witness:
  "\<exists>c1 c2. control_ok default_control \<and>
     framing_consume (reset_input default_control) [0x61, 0x0a] (\<lambda>f log. log @ [f]) [] =
       (c1, [\<lparr>fr_bytes = [0x61], fr_protocol_candidate = False, fr_too_long = False\<rparr>]) \<and>
     framing_consume c1 [0x40, 0x0a, 0x62] (\<lambda>f log. log @ [f])
       [\<lparr>fr_bytes = [0x61], fr_protocol_candidate = False, fr_too_long = False\<rparr>] =
       (c2, [\<lparr>fr_bytes = [0x61], fr_protocol_candidate = False, fr_too_long = False\<rparr>,
             \<lparr>fr_bytes = [0x40], fr_protocol_candidate = True, fr_too_long = False\<rparr>]) \<and>
     holds c2 [0x62]"
proof -
  let ?f = "\<lambda>f log. log @ [f]"
  obtain c1 s1 where 1: "framing_consume (reset_input default_control) [0x61, 0x0a] ?f [] = (c1, s1)"
    by force
  obtain c2 s2 where 2: "framing_consume c1 [0x40, 0x0a, 0x62] ?f s1 = (c2, s2)" by force
  have ok: "control_ok default_control"
    by (simp add: control_ok_def default_control_def)
  have lines: "line_frame [0x61] = \<lparr>fr_bytes = [0x61], fr_protocol_candidate = False, fr_too_long = False\<rparr>"
    "line_frame [0x40] = \<lparr>fr_bytes = [0x40], fr_protocol_candidate = True, fr_too_long = False\<rparr>"
    by (simp_all add: line_frame_def prefix_consistent_def kFramePrefix_def kMaxFrameBytes_def)
  have "s1 = [line_frame [0x61]]"
    using framing_consume_lines [OF holds_reset_input [OF ok] 1] by simp
  with framing_lines [OF ok 1 2] ok 1 2 lines show ?thesis by simp
qed

end
