(* ===== verification/Crc32.thy ===== *)
theory Crc32
  imports Prelude
begin

section \<open>CRC-32 (binary_data_plane/crc32.cpp)\<close>

text \<open>
  The bitwise reflected CRC-32 that protects every frame of the binary data plane and every
  completed transfer. The definitions follow \<^verbatim>\<open>crc32.cpp\<close> line by line; the lemmas give the
  algebra of the update (linear, injective, incremental) and, through the locale
  \<open>burst_checksum\<close>, the detection of every error burst of at most four bytes.
\<close>

definition kReflectedPolynomial :: u32 where
  "kReflectedPolynomial = 0xedb88320"

definition crc32_init :: u32 where
  "crc32_init = 0xffffffff"

definition crc32_bit :: "u32 \<Rightarrow> u32" where
  "crc32_bit running =
     (if running AND 1 \<noteq> 0 then drop_bit 1 running XOR kReflectedPolynomial
      else drop_bit 1 running)"

definition crc32_byte :: "u32 \<Rightarrow> u8 \<Rightarrow> u32" where
  "crc32_byte running byte = (crc32_bit ^^ 8) (running XOR ucast byte)"

fun crc32_update :: "u32 \<Rightarrow> bytes \<Rightarrow> u32" where
  "crc32_update running [] = running"
| "crc32_update running (byte # data) = crc32_update (crc32_byte running byte) data"

definition crc32_finish :: "u32 \<Rightarrow> u32" where
  "crc32_finish running = running XOR 0xffffffff"

definition crc32_calculate :: "bytes \<Rightarrow> u32" where
  "crc32_calculate data = crc32_finish (crc32_update crc32_init data)"

subsection \<open>Algebra of one step\<close>

lemma and_one_bit0: "(x AND 1 \<noteq> 0) = bit (x :: 'a::len word) 0"
  by (simp add: bit_0 and_one_eq odd_iff_mod_2_eq_one)

lemma crc32_bit_alt:
  "crc32_bit x = drop_bit 1 x XOR (if bit x 0 then kReflectedPolynomial else 0)"
  by (simp add: crc32_bit_def and_one_bit0)

lemma crc32_bit_xor: "crc32_bit (x XOR y) = crc32_bit x XOR crc32_bit y"
  by (simp add: crc32_bit_alt bit_xor_iff drop_bit_xor xor.assoc xor.left_commute)

lemma crc32_bits_xor: "(crc32_bit ^^ n) (x XOR y) = (crc32_bit ^^ n) x XOR (crc32_bit ^^ n) y"
  by (induction n) (simp_all add: crc32_bit_xor)

lemma crc32_bit_zero: "crc32_bit x = 0 \<Longrightarrow> x = 0"
proof -
  assume zero: "crc32_bit x = 0"
  have "bit (crc32_bit x) 31 = bit x 0"
    using bit_imp_le_length [of x 32]
    by (auto simp: crc32_bit_alt bit_xor_iff bit_drop_bit_eq kReflectedPolynomial_def)
  with zero have low: "\<not> bit x 0" by simp
  with zero have "drop_bit 1 x = 0" by (simp add: crc32_bit_alt)
  then have "\<not> bit (drop_bit 1 x) i" for i by simp
  then have high: "\<not> bit x (Suc i)" for i by (simp add: bit_drop_bit_eq)
  show "x = 0"
    using low high by (intro bit_eqI) (case_tac n; simp)
qed

lemma crc32_bit_inj: "crc32_bit x = crc32_bit y \<Longrightarrow> x = y"
proof -
  assume "crc32_bit x = crc32_bit y"
  then have "crc32_bit (x XOR y) = 0" by (simp add: crc32_bit_xor)
  then have "x XOR y = y XOR y" by (simp add: crc32_bit_zero)
  then show "x = y" by (simp only: xor_cancel_right)
qed

lemma crc32_bits_inj: "(crc32_bit ^^ n) x = (crc32_bit ^^ n) y \<Longrightarrow> x = y"
  by (induction n) (auto dest: crc32_bit_inj)

lemma crc32_bits_push:
  assumes "\<forall>i. bit c i \<longrightarrow> i + n < 32"
  shows "(crc32_bit ^^ n) (push_bit n c) = (c :: u32)"
  using assms
proof (induction n)
  case 0
  then show ?case by simp
next
  case (Suc n)
  have low: "\<not> bit (push_bit (Suc n) c) 0"
    by (simp add: bit_push_bit_iff del: push_bit_Suc)
  have "drop_bit 1 (push_bit (Suc n) c) = push_bit n c"
    using Suc.prems
    by (intro bit_eqI) (force simp: bit_push_bit_iff bit_drop_bit_eq simp del: push_bit_Suc)
  with low have "crc32_bit (push_bit (Suc n) c) = push_bit n c"
    by (simp add: crc32_bit_alt del: push_bit_Suc)
  then have "(crc32_bit ^^ Suc n) (push_bit (Suc n) c) = (crc32_bit ^^ n) (push_bit n c)"
    by (simp add: funpow_Suc_right del: funpow.simps push_bit_Suc)
  also have "\<dots> = c" using Suc.prems by (intro Suc.IH) (auto dest: Suc_lessD)
  finally show ?case .
qed

subsection \<open>A run of up to four bytes\<close>

text \<open>
  Folding a byte into the register after eight shifts is the same as folding it in eight positions
  higher before them, so a run of at most four bytes acts as one 32-bit word.
\<close>

fun crc32_pack :: "bytes \<Rightarrow> u32" where
  "crc32_pack [] = 0"
| "crc32_pack (b # bs) = ucast b XOR push_bit 8 (crc32_pack bs)"

lemma crc32_pack_bits: "bit (crc32_pack bs) i \<Longrightarrow> i < 8 * length bs"
proof (induction bs arbitrary: i)
  case Nil
  then show ?case by simp
next
  case (Cons b bs)
  then consider "bit b i" | "8 \<le> i" "bit (crc32_pack bs) (i - 8)"
    by (auto simp: bit_xor_iff bit_push_bit_iff bit_ucast_iff)
  then show ?case
  proof cases
    case 1
    then show ?thesis using bit_imp_le_length [of b i] by simp
  next
    case 2
    then show ?thesis using Cons.IH [of "i - 8"] by simp
  qed
qed

lemma crc32_update_pack:
  "length bs \<le> 4 \<Longrightarrow>
   crc32_update running bs = (crc32_bit ^^ (8 * length bs)) (running XOR crc32_pack bs)"
proof (induction bs arbitrary: running)
  case Nil
  then show ?case by simp
next
  case (Cons b bs)
  have "(crc32_bit ^^ 8) (push_bit 8 (crc32_pack bs)) = crc32_pack bs"
    using Cons.prems by (intro crc32_bits_push) (auto dest: crc32_pack_bits)
  then have "crc32_byte running b XOR crc32_pack bs =
      (crc32_bit ^^ 8) (running XOR crc32_pack (b # bs))"
    by (simp add: crc32_byte_def crc32_bits_xor xor.assoc del: funpow.simps)
  moreover have "8 * length (b # bs) = 8 * length bs + 8" by simp
  ultimately show ?case
    using Cons by (simp only: funpow_add comp_apply crc32_update.simps)
qed

lemma crc32_pack_inj:
  "length bs = length cs \<Longrightarrow> length bs \<le> 4 \<Longrightarrow> crc32_pack bs = crc32_pack cs \<Longrightarrow> bs = cs"
proof (induction bs cs rule: list_induct2)
  case Nil
  then show ?case by simp
next
  case (Cons b bs c cs)
  have bit_eq: "bit (crc32_pack (b # bs)) i = bit (crc32_pack (c # cs)) i" for i
    using Cons.prems by simp
  have "b = c"
  proof (rule bit_eqI)
    fix i assume "possible_bit TYPE(u8) i"
    then have "i < 8" by simp
    then show "bit b i = bit c i"
      using bit_eq [of i] by (simp add: bit_xor_iff bit_push_bit_iff bit_ucast_iff)
  qed
  moreover have "crc32_pack bs = crc32_pack cs"
  proof (rule bit_eqI)
    fix i
    show "bit (crc32_pack bs) i = bit (crc32_pack cs) i"
    proof (cases "i < 24")
      case True
      then show ?thesis using bit_eq [of "i + 8"]
        by (auto simp: bit_xor_iff bit_push_bit_iff bit_ucast_iff dest: bit_imp_le_length)
    next
      case False
      then show ?thesis using Cons.prems Cons.hyps crc32_pack_bits [of bs i] crc32_pack_bits [of cs i]
        by fastforce
    qed
  qed
  ultimately show ?case using Cons by simp
qed

lemma crc32_byte_inj_state: "crc32_byte r b = crc32_byte r' b \<Longrightarrow> r = r'"
  unfolding crc32_byte_def
  by (drule crc32_bits_inj) simp

lemma crc32_update_window_inj:
  assumes "length bs = 4" "length cs = 4" "crc32_update r bs = crc32_update r cs"
  shows "bs = cs"
proof -
  have "r XOR crc32_pack bs = r XOR crc32_pack cs"
    by (rule crc32_bits_inj [of 32]) (use assms in \<open>simp add: crc32_update_pack\<close>)
  then have "crc32_pack bs = crc32_pack cs"
    by simp
  then show ?thesis using assms by (intro crc32_pack_inj) simp_all
qed

lemma crc32_update_foldl: "crc32_update r data = foldl crc32_byte r data"
  by (induction data arbitrary: r) simp_all

lemma crc32_update_append:
  "crc32_update r (xs @ ys) = crc32_update (crc32_update r xs) ys"
  by (simp add: crc32_update_foldl)

subsection \<open>What a checksum must satisfy to detect bursts\<close>

text \<open>
  The contract: a byte update that never merges two register values, and that separates any two
  runs of \<open>window\<close> bytes started from the same register. Its client lemma: two messages that
  differ only inside one burst of at most \<open>window\<close> bytes have different checksums.
\<close>

locale burst_checksum =
  fixes step :: "'s \<Rightarrow> 'b \<Rightarrow> 's"
    and window :: nat
    and pad :: 'b
  assumes state_inj: "step s b = step s' b \<Longrightarrow> s = s'"
    and window_inj: "length xs = window \<Longrightarrow> length ys = window \<Longrightarrow>
      foldl step s xs = foldl step s ys \<Longrightarrow> xs = ys"
begin

lemma run_inj: "foldl step s xs = foldl step s' xs \<Longrightarrow> s = s'"
  by (induction xs arbitrary: s s') (auto dest: state_inj)

lemma burst_detected:
  assumes len: "length bad = length good" "length good \<le> window"
    and diff: "bad \<noteq> good"
  shows "foldl step s (pre @ bad @ post) \<noteq> foldl step s (pre @ good @ post)"
proof
  let ?s = "foldl step s pre"
  let ?fill = "replicate (window - length good) pad"
  assume "foldl step s (pre @ bad @ post) = foldl step s (pre @ good @ post)"
  then have "foldl step ?s bad = foldl step ?s good"
    by (auto dest: run_inj)
  then have "foldl step ?s (bad @ ?fill) = foldl step ?s (good @ ?fill)"
    by simp
  then have "bad @ ?fill = good @ ?fill"
    using len by (intro window_inj) simp_all
  with diff show False by simp
qed

end

interpretation crc: burst_checksum crc32_byte 4 0
proof (unfold_locales, goal_cases)
  case (1 s b s')
  then show ?case by (rule crc32_byte_inj_state)
next
  case (2 xs ys s)
  then show ?case
    by (intro crc32_update_window_inj) (simp_all add: crc32_update_foldl)
qed

lemma crc32_burst_detected:
  assumes "length bad = length good" "length good \<le> 4" "bad \<noteq> good"
  shows "crc32_update r (pre @ bad @ post) \<noteq> crc32_update r (pre @ good @ post)"
  unfolding crc32_update_foldl using assms by (rule crc.burst_detected)

lemma crc32_finish_inj: "crc32_finish x = crc32_finish y \<longleftrightarrow> x = y"
  by (simp add: crc32_finish_def)

end
