(* ===== verification/Cobs.thy ===== *)
theory Cobs
  imports Prelude "HOL-Library.Monad_Syntax"
begin

section \<open>Consistent overhead byte stuffing (binary_data_plane/cobs.cpp)\<close>

text \<open>
  \<open>cobs_encode\<close> and \<open>cobs_decode\<close> follow the two loops of \<^verbatim>\<open>cobs.cpp\<close> with their read, write and
  code indices and an output array of a given capacity. Their result type has two layers:
  the outer \<open>None\<close> is an array access out of range (undefined behaviour of the C++ program), the
  inner \<open>None\<close> is the return value \<^verbatim>\<open>false\<close>. The null pointer guards have no counterpart: arrays
  are values here.

  \<open>cobs_stuff\<close> and \<open>cobs_unstuff\<close> are the reference encoding and decoding on lists. The lemmas show
  that the loops never leave their arrays, compute the reference functions, and refuse exactly when
  the result does not fit; that stuffing removes every zero byte; its exact overhead bound; and that
  unstuffing inverts it.
\<close>

fun cobs_encode_loop ::
  "bytes \<Rightarrow> bytes \<Rightarrow> nat \<Rightarrow> nat \<Rightarrow> u8 \<Rightarrow> (bytes \<times> nat) option option" where
  "cobs_encode_loop [] output write_index code_index code =
     (if code_index \<ge> length output then Some None
      else do {
        output \<leftarrow> store output code_index code;
        Some (Some (output, write_index))
      })"
| "cobs_encode_loop (byte # rest) output write_index code_index code =
     (if byte = 0 then
        (if code_index \<ge> length output then Some None
         else do {
           output \<leftarrow> store output code_index code;
           if write_index \<ge> length output \<and> rest \<noteq> [] then Some None
           else cobs_encode_loop rest output (write_index + 1) write_index 1
         })
      else if write_index \<ge> length output then Some None
      else do {
        output \<leftarrow> store output write_index byte;
        if code + 1 = 0xff then do {
          output \<leftarrow> store output code_index (code + 1);
          if write_index + 1 > length output then Some None
          else cobs_encode_loop rest output (write_index + 2) (write_index + 1) 1
        }
        else cobs_encode_loop rest output (write_index + 1) code_index (code + 1)
      })"

definition cobs_encode :: "bytes \<Rightarrow> bytes \<Rightarrow> (bytes \<times> nat) option option" where
  "cobs_encode input output =
     (if length output = 0 then Some None else cobs_encode_loop input output 1 0 1)"

primrec cobs_copy :: "nat \<Rightarrow> bytes \<Rightarrow> nat \<Rightarrow> bytes \<Rightarrow> nat \<Rightarrow> bytes option" where
  "cobs_copy 0 input read_index output write_index = Some output"
| "cobs_copy (Suc n) input read_index output write_index =
     do {
       byte \<leftarrow> load input read_index;
       output \<leftarrow> store output write_index byte;
       cobs_copy n input (read_index + 1) output (write_index + 1)
     }"

function cobs_decode_loop ::
  "bytes \<Rightarrow> nat \<Rightarrow> bytes \<Rightarrow> nat \<Rightarrow> (bytes \<times> nat) option option" where
  "cobs_decode_loop input read_index output write_index =
     (if read_index < length input then
        do {
          code \<leftarrow> load input read_index;
          if code = 0 \<or> read_index + 1 + (unat code - 1) > length input then Some None
          else if write_index + (unat code - 1) > length output then Some None
          else do {
            output \<leftarrow> cobs_copy (unat code - 1) input (read_index + 1) output write_index;
            if code \<noteq> 0xff \<and> read_index + 1 + (unat code - 1) < length input then
              (if write_index + (unat code - 1) \<ge> length output then Some None
               else do {
                 output \<leftarrow> store output (write_index + (unat code - 1)) 0;
                 cobs_decode_loop input (read_index + 1 + (unat code - 1)) output
                   (write_index + (unat code - 1) + 1)
               })
            else cobs_decode_loop input (read_index + 1 + (unat code - 1)) output
                   (write_index + (unat code - 1))
          }
        }
      else Some (Some (output, write_index)))"
  by pat_completeness auto
termination
  by (relation "measure (\<lambda>(input, r, output, w). length input - r)") auto

declare cobs_decode_loop.simps [simp del]

definition cobs_decode :: "bytes \<Rightarrow> bytes \<Rightarrow> (bytes \<times> nat) option option" where
  "cobs_decode input output =
     (if length input = 0 then Some None else cobs_decode_loop input 0 output 0)"

subsection \<open>Reference functions\<close>

fun cobs_stuff :: "bytes \<Rightarrow> bytes \<Rightarrow> bytes" where
  "cobs_stuff pending [] = word_of_nat (length pending + 1) # pending"
| "cobs_stuff pending (x # xs) =
     (if x = 0 then (word_of_nat (length pending + 1) # pending) @ cobs_stuff [] xs
      else if length pending = 253 then (0xff # pending @ [x]) @ cobs_stuff [] xs
      else cobs_stuff (pending @ [x]) xs)"

function cobs_unstuff :: "bytes \<Rightarrow> bytes option" where
  "cobs_unstuff [] = Some []"
| "cobs_unstuff (code # xs) =
     (if code = 0 \<or> unat code - 1 > length xs then None
      else let rest = drop (unat code - 1) xs in
        map_option (\<lambda>t. take (unat code - 1) xs @ (if code \<noteq> 0xff \<and> rest \<noteq> [] then 0 # t else t))
          (cobs_unstuff rest))"
  by pat_completeness auto
termination
  by (relation "measure length") auto

subsection \<open>The encoding loop computes the reference encoding\<close>

lemma length_cobs_stuff_ge: "length pending + 1 \<le> length (cobs_stuff pending xs)"
proof (induction pending xs rule: cobs_stuff.induct)
  case (2 pending x xs)
  then show ?case by (cases "x = 0"; cases "length pending = 253") auto
qed simp

lemma cobs_stuff_not_Nil: "cobs_stuff pending xs \<noteq> []"
  using length_cobs_stuff_ge [of pending xs] by auto

text \<open>The loop state: what is already final, the open block and its code position.\<close>

definition encode_state :: "bytes \<Rightarrow> bytes \<Rightarrow> nat \<Rightarrow> nat \<Rightarrow> u8 \<Rightarrow> bool" where
  "encode_state pending output write_index code_index code \<longleftrightarrow>
     length pending \<le> 253 \<and> code = word_of_nat (length pending + 1) \<and>
     write_index = code_index + 1 + length pending \<and> code_index \<le> length output \<and>
     (write_index \<le> length output \<or> pending = []) \<and>
     take (length pending) (drop (Suc code_index) output) = pending"

definition encode_result :: "bytes \<Rightarrow> bytes \<Rightarrow> (bytes \<times> nat) option" where
  "encode_result final output =
     (if length final \<le> length output
      then Some (final @ drop (length final) output, length final) else None)"

lemma encode_close:
  assumes "encode_state pending output w ci code" "ci < length output"
  shows "w \<le> length output"
    and "output[ci := c] = take ci output @ c # pending @ drop w output"
proof -
  show w: "w \<le> length output"
    using assms by (auto simp: encode_state_def)
  have "drop (Suc ci) output = pending @ drop w output"
    using assms by (auto simp: encode_state_def add.commute
        intro: append_take_drop_id [of "length pending" "drop (Suc ci) output", symmetric, THEN trans])
  with assms(2) show "output[ci := c] = take ci output @ c # pending @ drop w output"
    by (simp add: upd_conv_take_nth_drop)
qed

lemma encode_state_fresh: "w \<le> length output \<Longrightarrow> encode_state [] output (w + 1) w 1"
  by (simp add: encode_state_def)

lemma encode_state_push:
  assumes st: "encode_state pending output w ci code" and room: "w < length output"
    and small: "length pending < 253"
  shows "encode_state (pending @ [x]) (output[w := x]) (w + 1) ci (code + 1)"
proof -
  have "drop (Suc ci) (output[w := x]) = (drop (Suc ci) output)[length pending := x]"
    using st by (simp add: encode_state_def drop_update_swap)
  moreover have "take (Suc (length pending)) ((drop (Suc ci) output)[length pending := x]) =
      pending @ [x]"
    using st room by (subst take_update_snoc) (auto simp: encode_state_def)
  ultimately show ?thesis
    using st room small by (simp add: encode_state_def)
qed

lemma unat_code_255: "length pending \<le> 253 \<Longrightarrow>
    ((word_of_nat (length pending + 1) :: u8) + 1 = 0xff) = (length pending = 253)"
proof -
  assume le: "length pending \<le> 253"
  have "(word_of_nat (length pending + 1) :: u8) + 1 = word_of_nat (length pending + 2)"
    by simp
  then have "((word_of_nat (length pending + 1) :: u8) + 1 = 0xff) =
      (unat (word_of_nat (length pending + 2) :: u8) = unat (0xff :: u8))"
    by (simp only: word_unat_eq_iff)
  also have "\<dots> = (length pending = 253)"
    using le by (subst unat_of_nat_u8) auto
  finally show ?thesis .
qed

lemma encode_result_cong:
  assumes "length out' = length output" "\<And>n. length final \<le> n \<Longrightarrow> drop n out' = drop n output"
  shows "encode_result final out' = encode_result final output"
  using assms by (simp add: encode_result_def)

lemma encode_result_too_long: "length output < length final \<Longrightarrow> encode_result final output = None"
  by (simp add: encode_result_def)

lemma encode_step_length:
  assumes "encode_state pending output w ci code"
  shows "w < length (take ci output @ cobs_stuff pending (x # xs))"
    and "ci < length (take ci output @ cobs_stuff pending xs)"
  using assms length_cobs_stuff_ge [of "[]" xs] length_cobs_stuff_ge [of "pending @ [x]" xs]
    length_cobs_stuff_ge [of pending xs]
  by (auto simp: encode_state_def)

text \<open>Each way a byte is taken leaves the final text of the run unchanged.\<close>

lemma encode_zero_result:
  assumes st: "encode_state pending output w ci code" and room: "ci < length output"
  defines "out' \<equiv> output[ci := code]"
  shows "encode_result (take w out' @ cobs_stuff [] xs) out' =
    encode_result (take ci output @ cobs_stuff pending (0 # xs)) output"
proof -
  note c = encode_close(1) [OF st room] encode_close(2) [OF st room, of code]
  have "take w out' @ cobs_stuff [] xs = take ci output @ cobs_stuff pending (0 # xs)"
    using c st room by (simp add: out'_def encode_state_def)
  then show ?thesis
    using room by (auto simp: out'_def intro: encode_result_cong)
qed

lemma encode_close_result:
  assumes st: "encode_state pending output w ci code" and room: "w < length output"
    and x: "x \<noteq> 0" and full: "length pending = 253"
  defines "out' \<equiv> (output[w := x])[ci := code + 1]"
  shows "encode_result (take (w + 1) out' @ cobs_stuff [] xs) out' =
    encode_result (take ci output @ cobs_stuff pending (x # xs)) output"
proof -
  have st': "encode_state pending (output[w := x]) w ci code"
    using st room by (simp add: encode_state_def drop_update_swap)
  have ci: "ci < length (output[w := x])" "w = ci + 1 + length pending"
    using st room by (simp_all add: encode_state_def)
  have "drop w (output[w := x]) = x # drop (Suc w) output"
    using room by (simp add: upd_conv_take_nth_drop)
  with encode_close(2) [OF st' ci(1), of "code + 1"] ci room
  have "take (w + 1) out' = take ci output @ (code + 1) # pending @ [x]"
    by (simp add: out'_def)
  moreover have "code + 1 = 0xff"
    using st full unat_code_255 [of pending] by (simp add: encode_state_def)
  ultimately have eq: "take (w + 1) out' @ cobs_stuff [] xs =
      take ci output @ cobs_stuff pending (x # xs)"
    using x full by simp
  show ?thesis
    unfolding eq using encode_step_length(1) [OF st, of x xs] ci
    by (intro encode_result_cong) (simp_all add: out'_def del: cobs_stuff.simps)
qed

lemma encode_push_result:
  assumes st: "encode_state pending output w ci code"
    and x: "x \<noteq> 0" "length pending < 253"
  shows "encode_result (take ci (output[w := x]) @ cobs_stuff (pending @ [x]) xs) (output[w := x]) =
    encode_result (take ci output @ cobs_stuff pending (x # xs)) output"
proof -
  have "w < length (take ci output @ cobs_stuff pending (x # xs))"
    using st x length_cobs_stuff_ge [of "pending @ [x]" xs] by (simp add: encode_state_def)
  then show ?thesis
    using st x by (auto simp: encode_state_def intro!: encode_result_cong)
qed

lemma cobs_encode_loop_correct:
  "encode_state pending output w ci code \<Longrightarrow>
   cobs_encode_loop xs output w ci code =
     Some (encode_result (take ci output @ cobs_stuff pending xs) output)"
proof (induction xs arbitrary: pending "output" w ci code)
  case Nil
  show ?case
  proof (cases "ci < length output")
    case True
    with Nil encode_close [OF Nil True] show ?thesis
      by (simp add: encode_result_def buffer_simps encode_state_def)
  next
    case False
    with Nil encode_step_length(2) [OF Nil, of "[]"] show ?thesis
      by (simp add: encode_result_too_long)
  qed
next
  case (Cons x xs)
  note st = Cons.prems
  note long = encode_step_length(1) [OF st, of x xs] encode_step_length(2) [OF st, of "x # xs"]
  consider (refuse) "x = 0 \<and> (ci \<ge> length output \<or> w \<ge> length output \<and> xs \<noteq> [])
        \<or> x \<noteq> 0 \<and> w \<ge> length output"
    | (zero) "x = 0" "ci < length output" "w < length output \<or> xs = []"
    | (close) "x \<noteq> 0" "w < length output" "length pending = 253"
    | (push) "x \<noteq> 0" "w < length output" "length pending < 253"
  proof -
    have "length pending = 253 \<or> length pending < 253" using st by (auto simp: encode_state_def)
    then show thesis using that by (metis leI)
  qed
  then show ?case
  proof cases
    case refuse
    then have "length output < length (take ci output @ cobs_stuff pending (x # xs))"
      using long by (auto simp del: cobs_stuff.simps)
    moreover have "cobs_encode_loop (x # xs) output w ci code = Some None"
      using refuse by (auto simp: buffer_simps)
    ultimately show ?thesis
      by (simp only: encode_result_too_long)
  next
    case zero
    have "cobs_encode_loop xs (output[ci := code]) (w + 1) w 1 =
        Some (encode_result (take w (output[ci := code]) @ cobs_stuff [] xs) (output[ci := code]))"
      using encode_close(1) [OF st zero(2)] by (intro Cons.IH encode_state_fresh) simp
    with zero encode_zero_result [OF st zero(2), of xs] show ?thesis
      by (auto simp: buffer_simps simp del: cobs_stuff.simps)
  next
    case close
    let ?out = "(output[w := x])[ci := code + 1]"
    have "cobs_encode_loop xs ?out (w + 2) (w + 1) 1 =
        Some (encode_result (take (w + 1) ?out @ cobs_stuff [] xs) ?out)"
      using close Cons.IH [OF encode_state_fresh [of "w + 1" ?out]] by simp
    with close st unat_code_255 [of pending] encode_close_result [OF st close(2,1,3), of xs]
    show ?thesis
      by (auto simp: buffer_simps encode_state_def simp del: cobs_stuff.simps)
  next
    case push
    have "cobs_encode_loop xs (output[w := x]) (w + 1) ci (code + 1) =
        Some (encode_result (take ci (output[w := x]) @ cobs_stuff (pending @ [x]) xs) (output[w := x]))"
      using push by (intro Cons.IH encode_state_push [OF st]) simp_all
    with push st unat_code_255 [of pending] encode_push_result [OF st push(1,3), of xs]
    show ?thesis
      by (auto simp: buffer_simps encode_state_def simp del: cobs_stuff.simps)
  qed
qed

theorem cobs_encode_correct:
  "cobs_encode input output = Some (encode_result (cobs_stuff [] input) output)"
proof (cases "length output = 0")
  case True
  then show ?thesis
    by (simp add: cobs_encode_def encode_result_def cobs_stuff_not_Nil)
next
  case False
  then have "encode_state [] output 1 0 1"
    using encode_state_fresh [of 0 "output"] by simp
  from cobs_encode_loop_correct [OF this, of input] False show ?thesis
    by (simp add: cobs_encode_def)
qed

subsection \<open>Properties of the reference encoding\<close>

lemma word_of_nat_u8_nonzero: "n < 255 \<Longrightarrow> (word_of_nat (n + 1) :: u8) \<noteq> 0"
proof -
  assume "n < 255"
  then have "unat (word_of_nat (n + 1) :: u8) = n + 1" by (simp only: unat_of_nat_u8)
  then show ?thesis by (metis add_is_0 one_neq_zero unat_0)
qed

lemma cobs_stuff_no_zero:
  "length pending \<le> 253 \<Longrightarrow> 0 \<notin> set pending \<Longrightarrow> 0 \<notin> set (cobs_stuff pending xs)"
proof (induction pending xs rule: cobs_stuff.induct)
  case (1 pending)
  then show ?case using word_of_nat_u8_nonzero [of "length pending"] by auto
next
  case (2 pending x xs)
  then show ?case
    using word_of_nat_u8_nonzero [of "length pending"]
    by (cases "x = 0"; cases "length pending = 253") auto
qed

lemma length_cobs_stuff:
  "length pending \<le> 253 \<Longrightarrow>
   length (cobs_stuff pending xs) \<le>
     length pending + length xs + 1 + (length pending + length xs) div 254"
proof (induction pending xs rule: cobs_stuff.induct)
  case (1 pending)
  then show ?case by simp
next
  case (2 pending x xs)
  then show ?case by (cases "x = 0"; cases "length pending = 253") auto
qed

lemma cobs_unstuff_block:
  assumes "length blk \<le> 254" "code = word_of_nat (length blk + 1)"
    and "cobs_unstuff rest = Some t"
  shows "cobs_unstuff (code # blk @ rest) =
    Some (blk @ (if length blk < 254 \<and> rest \<noteq> [] then 0 # t else t))"
proof -
  have code: "unat code = length blk + 1"
    using assms by (simp only: unat_of_nat_u8)
  moreover have "code \<noteq> 0"
    using code by auto
  moreover have "code = 0xff \<longleftrightarrow> length blk = 254"
  proof -
    have "code = 0xff \<longleftrightarrow> unat code = unat (0xff :: u8)" by (rule word_unat_eq_iff)
    with code show ?thesis by simp
  qed
  ultimately show ?thesis
    using assms by simp
qed

theorem cobs_unstuff_stuff:
  "length pending \<le> 253 \<Longrightarrow> cobs_unstuff (cobs_stuff pending xs) = Some (pending @ xs)"
proof (induction pending xs rule: cobs_stuff.induct)
  case (1 pending)
  then show ?case using cobs_unstuff_block [of pending _ "[]" "[]"] by simp
next
  case (2 pending x xs)
  consider "x = 0" | "x \<noteq> 0" "length pending = 253" | "x \<noteq> 0" "length pending < 253"
    using "2.prems" by linarith
  then show ?case
  proof cases
    case 1
    with 2 have "cobs_unstuff (cobs_stuff [] xs) = Some xs" by simp
    with 1 "2.prems" cobs_unstuff_block [of pending _ "cobs_stuff [] xs"] show ?thesis
      by (simp add: cobs_stuff_not_Nil)
  next
    case 2
    with "2.IH" have "cobs_unstuff (cobs_stuff [] xs) = Some xs" by simp
    with 2 cobs_unstuff_block [of "pending @ [x]" "0xff" "cobs_stuff [] xs"] show ?thesis
      by simp
  next
    case 3
    with "2.IH" show ?thesis by simp
  qed
qed

subsection \<open>The decoding loop computes the reference decoding\<close>

lemma cobs_copy_correct:
  "read_index + n \<le> length input \<Longrightarrow> write_index + n \<le> length output \<Longrightarrow>
   cobs_copy n input read_index output write_index =
     Some (overwrite output write_index (take n (drop read_index input)))"
proof (induction n arbitrary: read_index "output" write_index)
  case 0
  then show ?case by simp
next
  case (Suc n)
  have "take (Suc n) (drop read_index input) =
      [input ! read_index] @ take n (drop (Suc read_index) input)"
    using Suc.prems by (simp add: Cons_nth_drop_Suc [symmetric])
  moreover have "overwrite output write_index [input ! read_index] = output[write_index := input ! read_index]"
    using Suc.prems by (simp add: overwrite_single)
  ultimately show ?case
    using Suc overwrite_append [of write_index "[input ! read_index]" "output"
        "take n (drop (Suc read_index) input)"]
    by (simp add: buffer_simps)
qed

definition decode_result :: "bytes option \<Rightarrow> bytes \<Rightarrow> nat \<Rightarrow> (bytes \<times> nat) option" where
  "decode_result d output write_index =
     (case d of None \<Rightarrow> None
      | Some t \<Rightarrow> if write_index + length t \<le> length output
          then Some (overwrite output write_index t, write_index + length t) else None)"

lemma decode_result_None [simp]: "decode_result None output write_index = None"
  by (simp add: decode_result_def)

lemma decode_result_append:
  assumes "write_index + length blk \<le> length output"
  shows "decode_result d (overwrite output write_index blk) (write_index + length blk) =
    decode_result (map_option ((@) blk) d) output write_index"
  using assms by (auto simp: decode_result_def overwrite_append buffer_simps split: option.splits)

lemma decode_result_overrun:
  "write_index + length blk > length output \<Longrightarrow>
   decode_result (map_option ((@) blk) d) output write_index = None"
  by (auto simp: decode_result_def split: option.splits)

text \<open>One turn of the loop: refuse, or copy one block (with its separator) and continue.\<close>

definition cobs_separator :: "bytes \<Rightarrow> nat \<Rightarrow> u8 \<Rightarrow> bytes" where
  "cobs_separator input next code = (if code \<noteq> 0xff \<and> next < length input then [0] else [])"

lemma cobs_unstuff_step:
  assumes "r < length input"
  defines "code \<equiv> input ! r"
  defines "next \<equiv> r + 1 + (unat code - 1)"
  shows "cobs_unstuff (drop r input) =
    (if code = 0 \<or> next > length input then None
     else map_option ((@) (take (unat code - 1) (drop (r + 1) input) @ cobs_separator input next code))
       (cobs_unstuff (drop next input)))"
proof -
  have "drop r input = code # drop (r + 1) input"
    using assms(1) by (simp add: Cons_nth_drop_Suc code_def)
  then show ?thesis
    using assms(1)
    by (auto simp: next_def Let_def add.commute cobs_separator_def intro!: option.map_cong)
qed

lemma cobs_decode_step_refuse:
  assumes "r < length input" "write_index \<le> length output"
  defines "code \<equiv> input ! r"
  defines "next \<equiv> r + 1 + (unat code - 1)"
  assumes "code = 0 \<or> next > length input \<or>
    write_index + (unat code - 1) + length (cobs_separator input next code) > length output"
  shows "cobs_decode_loop input r output write_index = Some None"
  using assms
  by (auto simp: cobs_decode_loop.simps [of input r] load_in_range cobs_separator_def
      cobs_copy_correct length_overwrite split: if_splits)

lemma cobs_decode_step_copy:
  assumes r: "r < length input"
  defines "code \<equiv> input ! r"
  defines "n \<equiv> unat code - 1"
  defines "next \<equiv> r + 1 + n"
  defines "chunk \<equiv> take n (drop (r + 1) input) @ cobs_separator input next code"
  assumes ok: "code \<noteq> 0" "next \<le> length input" "write_index + length chunk \<le> length output"
  shows "cobs_decode_loop input r output write_index =
    cobs_decode_loop input next (overwrite output write_index chunk) (write_index + length chunk)"
proof -
  let ?blk = "take n (drop (r + 1) input)"
  let ?out = "overwrite output write_index ?blk"
  have len: "length ?blk = n" using ok by (simp add: next_def)
  have copy: "cobs_copy n input (r + 1) output write_index = Some ?out" "length ?out = length output"
    using ok len by (auto simp: cobs_copy_correct buffer_simps chunk_def next_def)
  have "code \<noteq> 0xff \<and> next < length input \<Longrightarrow>
      store ?out (write_index + n) 0 = Some (overwrite output write_index chunk)"
    using ok len copy(2) overwrite_append [of write_index ?blk "output" "[0]"]
    by (simp add: buffer_simps overwrite_single chunk_def cobs_separator_def)
  with copy len ok r show ?thesis
    by (auto simp: cobs_decode_loop.simps [of input r] load_in_range cobs_separator_def chunk_def
        code_def n_def next_def)
qed

lemma cobs_decode_loop_correct:
  "r \<le> length input \<Longrightarrow> write_index \<le> length output \<Longrightarrow>
   cobs_decode_loop input r output write_index =
     Some (decode_result (cobs_unstuff (drop r input)) output write_index)"
proof (induction "length input - r" arbitrary: r "output" write_index rule: less_induct)
  case less
  show ?case
  proof (cases "r < length input")
    case False
    with less.prems show ?thesis
      by (simp add: cobs_decode_loop.simps [of input "length input"] decode_result_def)
  next
    case True
    define code where "code = input ! r"
    define n where "n = r + 1 + (unat code - 1)"
    define chunk where "chunk = take (unat code - 1) (drop (r + 1) input) @ cobs_separator input n code"
    note unstuff = cobs_unstuff_step [OF True, folded code_def, folded n_def, folded chunk_def]
    show ?thesis
    proof (cases "code = 0 \<or> n > length input \<or> write_index + length chunk > length output")
      case True
      then have "code = 0 \<or> n > length input \<or>
          write_index + (unat code - 1) + length (cobs_separator input n code) > length output"
        by (auto simp: chunk_def n_def)
      from cobs_decode_step_refuse [OF \<open>r < length input\<close> less.prems(2), folded code_def, folded n_def,
          OF this] True
      show ?thesis by (auto simp: unstuff decode_result_overrun)
    next
      case False
      then have "cobs_decode_loop input r output write_index =
          cobs_decode_loop input n (overwrite output write_index chunk) (write_index + length chunk)"
        using cobs_decode_step_copy [OF \<open>r < length input\<close>, folded code_def, folded n_def,
            folded chunk_def] by simp
      also have "\<dots> = Some (decode_result (cobs_unstuff (drop n input))
          (overwrite output write_index chunk) (write_index + length chunk))"
        using False True by (intro less.hyps) (auto simp: n_def buffer_simps)
      also have "\<dots> = Some (decode_result (cobs_unstuff (drop r input)) output write_index)"
        using False by (simp add: unstuff decode_result_append)
      finally show ?thesis .
    qed
  qed
qed

theorem cobs_decode_correct:
  assumes "input \<noteq> []"
  shows "cobs_decode input output = Some (decode_result (cobs_unstuff input) output 0)"
  using assms cobs_decode_loop_correct [of 0 input 0 "output"] by (simp add: cobs_decode_def)

lemma cobs_unstuff_length: "cobs_unstuff xs = Some d \<Longrightarrow> length d \<le> length xs"
proof (induction xs arbitrary: d rule: cobs_unstuff.induct)
  case (2 code xs)
  then obtain t where "cobs_unstuff (drop (unat code - 1) xs) = Some t"
    by (auto split: if_splits simp: Let_def)
  with 2 show ?case by (fastforce split: if_splits simp: Let_def)
qed simp

subsection \<open>Properties of the COBS routines\<close>

lemma encode_result_SomeD:
  "encode_result final output = Some (enc, k) \<Longrightarrow>
   k = length final \<and> take k enc = final \<and> length enc = length output \<and> k \<le> length output"
  by (auto simp: encode_result_def split: if_splits)

lemma decode_result_SomeD:
  "decode_result d output 0 = Some (dec, k) \<Longrightarrow>
   d = Some (take k dec) \<and> length dec = length output \<and> k \<le> length output"
  by (auto simp: decode_result_def overwrite_def split: option.splits if_splits)

lemma cobs_decode_stuff:
  "length xs \<le> length buf \<Longrightarrow>
   cobs_decode (cobs_stuff [] xs) buf = Some (Some (overwrite buf 0 xs, length xs))"
  using cobs_unstuff_stuff [of "[]" xs]
  by (simp add: cobs_decode_correct cobs_stuff_not_Nil decode_result_def)

text \<open>
  (C8) COBS round trip: whenever the output array has the classical worst-case size
  \<open>n + 1 + n div 254\<close>, the encoder succeeds, writes no zero byte into the part it reports as used and
  stays within that size; decoding exactly that part into any array that can hold the input gives
  back the input, byte for byte.
\<close>

theorem cobs_round_trip:
  assumes "length input + 1 + length input div 254 \<le> length output"
    and "length input \<le> length buf"
  shows "\<exists>enc k dec. cobs_encode input output = Some (Some (enc, k)) \<and>
    0 \<notin> set (take k enc) \<and> k \<le> length input + 1 + length input div 254 \<and>
    cobs_decode (take k enc) buf = Some (Some (dec, length input)) \<and>
    take (length input) dec = input"
proof -
  let ?s = "cobs_stuff [] input"
  have k: "length ?s \<le> length input + 1 + length input div 254"
    using length_cobs_stuff [of "[]" input] by simp
  moreover from k assms(1) have "cobs_encode input output =
      Some (Some (?s @ drop (length ?s) output, length ?s))"
    by (simp add: cobs_encode_correct encode_result_def)
  moreover have "0 \<notin> set ?s" by (rule cobs_stuff_no_zero) simp_all
  moreover have "take (length input) (overwrite buf 0 input) = input" by (simp add: overwrite_def)
  ultimately show ?thesis using cobs_decode_stuff [OF assms(2)] by auto
qed

theorem cobs_round_trip_witness:
  "\<exists>enc k dec. cobs_encode [7, 0, 0, 9] (replicate 5 0) = Some (Some (enc, k)) \<and>
    0 \<notin> set (take k enc) \<and> k \<le> 5 \<and>
    cobs_decode (take k enc) (replicate 4 0) = Some (Some (dec, 4)) \<and> take 4 dec = [7, 0, 0, 9]"
proof -
  have len: "length [7, 0, 0, 9 :: u8] = 4" by simp
  show ?thesis
    using cobs_round_trip [of "[7, 0, 0, 9]" "replicate 5 0" "replicate 4 0", unfolded len] by simp
qed

lemma cobs_decode_safe:
  "\<exists>r. cobs_decode input output = Some r \<and>
      (case r of None \<Rightarrow> True | Some (dec, k) \<Rightarrow> k \<le> length output \<and> length dec = length output)"
proof (cases "input = []")
  case True
  then show ?thesis by (simp add: cobs_decode_def)
next
  case False
  then show ?thesis
    using decode_result_SomeD [of "cobs_unstuff input" "output"]
    by (auto simp: cobs_decode_correct split: option.splits)
qed

text \<open>
  (C18) Memory safety of the COBS routines: on every input and every output array, including hostile
  wire data, neither routine ever reads or writes outside its arrays (the outer \<open>None\<close>); when they
  report success the reported length fits the array, whose size is unchanged.
\<close>

theorem cobs_memory_safe:
  "(\<exists>r. cobs_encode input output = Some r \<and>
      (case r of None \<Rightarrow> True | Some (enc, k) \<Rightarrow> k \<le> length output \<and> length enc = length output)) \<and>
   (\<exists>r. cobs_decode input output = Some r \<and>
      (case r of None \<Rightarrow> True | Some (dec, k) \<Rightarrow> k \<le> length output \<and> length dec = length output))"
  using cobs_decode_safe [of input "output"] encode_result_SomeD [of "cobs_stuff [] input" "output"]
  by (auto simp: cobs_encode_correct split: option.splits)

end
