(* ===== verification/Binary_Codec.thy ===== *)
theory Binary_Codec
  imports Crc32 Cobs
begin

section \<open>Frame codec of the binary data plane (binary_codec.cpp)\<close>

text \<open>
  Constants and enumerations of \<^verbatim>\<open>binary_data_plane.hpp\<close>, the little-endian field accessors, and the
  two codec functions. \<open>encode_frame\<close> fills the caller's three scratch arrays (decoded image, stuffed
  body, wire image) as the source does; its result is the wire array and the number of bytes used,
  with the outer \<open>None\<close> for a stray access and the inner \<open>None\<close> for the return value \<^verbatim>\<open>false\<close>.
  \<open>parse_decoded\<close> returns \<open>None\<close> for \<^verbatim>\<open>false\<close>; a parsed frame carries its payload bytes instead of a
  pointer into the decoded array.

  A \<^verbatim>\<open>FrameType\<close> read from the wire can hold any byte, so the datatype has a constructor for the
  values outside the enumeration.
\<close>

definition kMagic0 :: u8 where "kMagic0 = 0x4e"
definition kMagic1 :: u8 where "kMagic1 = 0x42"
definition kDataPlaneVersion :: u8 where "kDataPlaneVersion = 1"
definition kHeaderBytes :: nat where "kHeaderBytes = 28"
definition kCrcBytes :: nat where "kCrcBytes = 4"
definition kMaxPayloadBytes :: nat where "kMaxPayloadBytes = 1024"
definition kMaxDecodedFrameBytes :: nat where
  "kMaxDecodedFrameBytes = kHeaderBytes + kMaxPayloadBytes + kCrcBytes"
definition kMaxEncodedBodyBytes :: nat where "kMaxEncodedBodyBytes = 1061"
definition kMaxWireFrameBytes :: nat where "kMaxWireFrameBytes = 1064"

lemmas codec_constants = kMagic0_def kMagic1_def kDataPlaneVersion_def kHeaderBytes_def
  kCrcBytes_def kMaxPayloadBytes_def kMaxDecodedFrameBytes_def kMaxEncodedBodyBytes_def
  kMaxWireFrameBytes_def

datatype FrameType = Data | Ack | Nack | OtherType u8

definition frame_type_of_byte :: "u8 \<Rightarrow> FrameType" where
  "frame_type_of_byte b =
     (if b = 1 then Data else if b = 2 then Ack else if b = 3 then Nack else OtherType b)"

fun byte_of_frame_type :: "FrameType \<Rightarrow> u8" where
  "byte_of_frame_type Data = 1"
| "byte_of_frame_type Ack = 2"
| "byte_of_frame_type Nack = 3"
| "byte_of_frame_type (OtherType b) = b"

record ParsedFrame =
  pf_structural_valid :: bool
  pf_crc_valid :: bool
  pf_type :: FrameType
  pf_flags :: u16
  pf_header_length :: u16
  pf_transfer_id :: u32
  pf_sequence :: u32
  pf_offset :: u64
  pf_payload_length :: u16
  pf_status :: u16
  pf_wire_crc :: u32
  pf_payload :: bytes

subsection \<open>Little-endian fields\<close>

definition put_u16 :: "bytes \<Rightarrow> nat \<Rightarrow> u16 \<Rightarrow> bytes" where
  "put_u16 data offset value =
     (data[offset := ucast (value AND 0xff)])[offset + 1 := ucast (drop_bit 8 value)]"

definition put_u32 :: "bytes \<Rightarrow> nat \<Rightarrow> u32 \<Rightarrow> bytes" where
  "put_u32 data offset value =
     fold (\<lambda>index d. d[offset + index := ucast (drop_bit (index * 8) value)]) [0..<4] data"

definition put_u64 :: "bytes \<Rightarrow> nat \<Rightarrow> u64 \<Rightarrow> bytes" where
  "put_u64 data offset value =
     fold (\<lambda>index d. d[offset + index := ucast (drop_bit (index * 8) value)]) [0..<8] data"

definition get_u16 :: "bytes \<Rightarrow> nat \<Rightarrow> u16" where
  "get_u16 data offset = ucast (data ! offset) OR push_bit 8 (ucast (data ! (offset + 1)))"

definition get_u32 :: "bytes \<Rightarrow> nat \<Rightarrow> u32" where
  "get_u32 data offset =
     fold (\<lambda>index value. value OR push_bit (index * 8) (ucast (data ! (offset + index)))) [0..<4] 0"

definition get_u64 :: "bytes \<Rightarrow> nat \<Rightarrow> u64" where
  "get_u64 data offset =
     fold (\<lambda>index value. value OR push_bit (index * 8) (ucast (data ! (offset + index)))) [0..<8] 0"

subsection \<open>Field checks, parsing and building\<close>

definition is_known_type :: "FrameType \<Rightarrow> bool" where
  "is_known_type type \<longleftrightarrow> type = Data \<or> type = Ack \<or> type = Nack"

fun has_valid_type_fields :: "FrameType \<Rightarrow> u16 \<Rightarrow> u16 \<Rightarrow> bool" where
  "has_valid_type_fields Data status payload_length = (payload_length \<noteq> 0 \<and> status = 0)"
| "has_valid_type_fields Ack status payload_length = (payload_length = 0 \<and> status = 0)"
| "has_valid_type_fields Nack status payload_length = (payload_length = 0 \<and> status \<noteq> 0)"
| "has_valid_type_fields (OtherType _) status payload_length = False"

definition has_valid_received_type_fields :: "FrameType \<Rightarrow> u16 \<Rightarrow> u16 \<Rightarrow> bool" where
  "has_valid_received_type_fields type status payload_length =
     (if type = Data then has_valid_type_fields type status payload_length
      else type = Ack \<or> type = Nack)"

definition parse_decoded :: "bytes \<Rightarrow> ParsedFrame option" where
  "parse_decoded decoded =
     (let len = length decoded in
      if len < kHeaderBytes + kCrcBytes then None
      else
        let type = frame_type_of_byte (decoded ! 3);
            flags = get_u16 decoded 4;
            header_length = get_u16 decoded 6;
            transfer_id = get_u32 decoded 8;
            sequence = get_u32 decoded 12;
            offset = get_u64 decoded 16;
            payload_length = get_u16 decoded 24;
            status = get_u16 decoded 26;
            wire_crc = get_u32 decoded (len - kCrcBytes)
        in
        if decoded ! 0 \<noteq> kMagic0 \<or> decoded ! 1 \<noteq> kMagic1 \<or>
           decoded ! 2 \<noteq> kDataPlaneVersion \<or> flags \<noteq> 0 \<or>
           unat header_length \<noteq> kHeaderBytes \<or>
           \<not> is_known_type type \<or>
           unat payload_length > kMaxPayloadBytes \<or>
           \<not> has_valid_received_type_fields type status payload_length \<or>
           transfer_id = 0 \<or>
           len \<noteq> kHeaderBytes + unat payload_length + kCrcBytes
        then None
        else Some \<lparr>pf_structural_valid = True,
               pf_crc_valid =
                 (crc32_calculate (take (kHeaderBytes + unat payload_length) decoded) = wire_crc),
               pf_type = type, pf_flags = flags, pf_header_length = header_length,
               pf_transfer_id = transfer_id, pf_sequence = sequence, pf_offset = offset,
               pf_payload_length = payload_length, pf_status = status, pf_wire_crc = wire_crc,
               pf_payload = take (unat payload_length) (drop kHeaderBytes decoded)\<rparr>)"

definition encode_frame ::
  "FrameType \<Rightarrow> u16 \<Rightarrow> u32 \<Rightarrow> u32 \<Rightarrow> u64 \<Rightarrow> u16 \<Rightarrow> bytes \<Rightarrow> bytes \<Rightarrow> bytes \<Rightarrow> bytes \<Rightarrow>
   (bytes \<times> nat) option option" where
  "encode_frame type flags transfer_id sequence offset status payload decoded encoded wire =
     (let payload_length = length payload in
      if flags \<noteq> 0 \<or> \<not> is_known_type type \<or> transfer_id = 0 \<or>
         payload_length > kMaxPayloadBytes \<or>
         \<not> has_valid_type_fields type status (word_of_nat payload_length) \<or>
         length decoded < kHeaderBytes + payload_length + kCrcBytes \<or>
         length wire < 3
      then Some None
      else
        let decoded = decoded[0 := kMagic0];
            decoded = decoded[1 := kMagic1];
            decoded = decoded[2 := kDataPlaneVersion];
            decoded = decoded[3 := byte_of_frame_type type];
            decoded = put_u16 decoded 4 flags;
            decoded = put_u16 decoded 6 (word_of_nat kHeaderBytes);
            decoded = put_u32 decoded 8 transfer_id;
            decoded = put_u32 decoded 12 sequence;
            decoded = put_u64 decoded 16 offset;
            decoded = put_u16 decoded 24 (word_of_nat payload_length);
            decoded = put_u16 decoded 26 status;
            decoded = overwrite decoded kHeaderBytes payload;
            crc_offset = kHeaderBytes + payload_length;
            decoded = put_u32 decoded crc_offset (crc32_calculate (take crc_offset decoded))
        in do {
          result \<leftarrow> cobs_encode (take (crc_offset + kCrcBytes) decoded) encoded;
          case result of None \<Rightarrow> Some None
          | Some (encoded, encoded_length) \<Rightarrow>
              if length wire < encoded_length + 3 then Some None
              else
                let wire = wire[0 := 0];
                    wire = wire[1 := 0];
                    wire = overwrite wire 2 (take encoded_length encoded);
                    wire = wire[encoded_length + 2 := 0]
                in Some (Some (wire, encoded_length + 3))
        })"

subsection \<open>Facts on little-endian fields\<close>

definition le_bytes :: "nat \<Rightarrow> 'a::len word \<Rightarrow> bytes" where
  "le_bytes n v = map (\<lambda>i. ucast (drop_bit (i * 8) v)) [0..<n]"

definition put_le :: "nat \<Rightarrow> bytes \<Rightarrow> nat \<Rightarrow> 'a::len word \<Rightarrow> bytes" where
  "put_le n data offset v =
     fold (\<lambda>i d. d[offset + i := ucast (drop_bit (i * 8) v)]) [0..<n] data"

definition get_le :: "nat \<Rightarrow> bytes \<Rightarrow> nat \<Rightarrow> 'a::len word" where
  "get_le n data offset =
     fold (\<lambda>i v. v OR push_bit (i * 8) (ucast (data ! (offset + i)))) [0..<n] 0"

lemma length_le_bytes [simp]: "length (le_bytes n v) = n"
  by (simp add: le_bytes_def)

lemma nth_le_bytes: "i < n \<Longrightarrow> le_bytes n v ! i = ucast (drop_bit (i * 8) v)"
  by (simp add: le_bytes_def)

lemma put_le_overwrite:
  "offset + n \<le> length data \<Longrightarrow> put_le n data offset v = overwrite data offset (le_bytes n v)"
proof (induction n)
  case 0
  then show ?case by (simp add: put_le_def le_bytes_def)
next
  case (Suc n)
  let ?b = "ucast (drop_bit (n * 8) v) :: u8"
  have "put_le (Suc n) data offset v = (overwrite data offset (le_bytes n v))[offset + n := ?b]"
    using Suc by (simp add: put_le_def)
  also have "\<dots> = overwrite (overwrite data offset (le_bytes n v)) (offset + length (le_bytes n v)) [?b]"
    using Suc.prems by (simp add: overwrite_single length_overwrite)
  also have "\<dots> = overwrite data offset (le_bytes n v @ [?b])"
    using Suc.prems by (subst overwrite_append) simp_all
  also have "le_bytes n v @ [?b] = le_bytes (Suc n) v"
    by (simp add: le_bytes_def)
  finally show ?case .
qed

lemma bit_get_le:
  "bit (get_le n data offset :: 'a::len word) i \<longleftrightarrow>
   i < 8 * n \<and> i < LENGTH('a) \<and> bit (data ! (offset + i div 8)) (i mod 8)"
proof (induction n)
  case 0
  then show ?case by (simp add: get_le_def)
next
  case (Suc n)
  let ?b = "data ! (offset + n)"
  have "bit (push_bit (n * 8) (ucast ?b) :: 'a word) i \<longleftrightarrow>
      i div 8 = n \<and> i < LENGTH('a) \<and> bit ?b (i mod 8)"
  proof (cases "i div 8 = n")
    case True
    then have "n * 8 \<le> i" using div_times_less_eq_dividend [of i 8] by simp
    moreover from True have "i - n * 8 = i mod 8" using minus_div_mult_eq_mod [of i 8] by simp
    ultimately show ?thesis
      using True by (auto simp: bit_push_bit_iff bit_ucast_iff)
  next
    case False
    have "n * 8 \<le> i \<Longrightarrow> 8 \<le> i - n * 8"
    proof (rule ccontr)
      assume "n * 8 \<le> i" "\<not> 8 \<le> i - n * 8"
      then have "i div 8 = n" by (intro div_nat_eqI) auto
      with False show False by simp
    qed
    then have "\<not> (n * 8 \<le> i \<and> bit ?b (i - n * 8))"
      using bit_imp_le_length [of ?b "i - n * 8"] by auto
    with False show ?thesis by (auto simp: bit_push_bit_iff bit_ucast_iff)
  qed
  moreover have "get_le (Suc n) data offset =
      (get_le n data offset OR push_bit (n * 8) (ucast ?b) :: 'a word)"
    by (simp add: get_le_def)
  moreover have "i < 8 * Suc n \<longleftrightarrow> i < 8 * n \<or> i div 8 = n" by auto
  ultimately show ?case using Suc by (auto simp: bit_or_iff)
qed

lemma get_le_append:
  "length data = offset \<Longrightarrow> get_le n (data @ le_bytes n v @ rest) offset = (v :: 'a::len word)"
  if "LENGTH('a) \<le> 8 * n"
proof (rule bit_eqI)
  fix i
  assume off: "length data = offset" and "possible_bit TYPE('a word) i"
  then have i: "i < LENGTH('a)" by simp
  with that have "i div 8 < n" by (simp add: less_mult_imp_div_less mult.commute)
  then have "(data @ le_bytes n v @ rest) ! (offset + i div 8) = ucast (drop_bit (i div 8 * 8) v)"
    using off by (simp add: nth_append nth_le_bytes)
  moreover have "i div 8 * 8 + i mod 8 = i" by simp
  ultimately show "bit (get_le n (data @ le_bytes n v @ rest) offset :: 'a word) i = bit v i"
    using i that by (simp add: bit_get_le bit_ucast_iff bit_drop_bit_eq)
qed

lemma le_bytes_get_le:
  assumes "LENGTH('a::len) = 8 * n" "offset + n \<le> length data"
  shows "le_bytes n (get_le n data offset :: 'a word) = take n (drop offset data)"
proof (rule nth_equalityI)
  show "length (le_bytes n (get_le n data offset :: 'a word)) = length (take n (drop offset data))"
    using assms by simp
  fix k
  assume "k < length (le_bytes n (get_le n data offset :: 'a word))"
  then have k: "k < n" by simp
  have "ucast (drop_bit (k * 8) (get_le n data offset :: 'a word)) = data ! (offset + k)"
  proof (rule bit_eqI)
    fix i
    assume "possible_bit TYPE(u8) i"
    then have "i < 8" by simp
    moreover from this k have "k * 8 + i < 8 * n" "(k * 8 + i) div 8 = k" "(k * 8 + i) mod 8 = i"
      by auto
    ultimately show "bit (ucast (drop_bit (k * 8) (get_le n data offset :: 'a word)) :: u8) i =
        bit (data ! (offset + k)) i"
      using assms(1) by (simp add: bit_ucast_iff bit_drop_bit_eq bit_get_le)
  qed
  then show "le_bytes n (get_le n data offset :: 'a word) ! k = take n (drop offset data) ! k"
    using k assms by (simp add: nth_le_bytes)
qed

lemma field_generic:
  "put_u32 data offset a = put_le 4 data offset a" "put_u64 data offset b = put_le 8 data offset b"
  "get_u32 data offset = get_le 4 data offset" "get_u64 data offset = get_le 8 data offset"
  "get_u16 data offset = get_le 2 data offset"
  by (simp_all add: put_u32_def put_u64_def put_le_def get_u32_def get_u64_def get_le_def
      get_u16_def numeral_2_eq_2)

lemma put_u16_generic: "put_u16 data offset v = put_le 2 data offset v"
proof -
  have "(ucast (v AND 0xff) :: u8) = ucast v"
  proof (rule bit_eqI)
    fix i
    assume "possible_bit TYPE(u8) i"
    moreover have "(0xff :: u16) = mask 8" by (simp add: mask_eq_exp_minus_1)
    ultimately show "bit (ucast (v AND 0xff) :: u8) i = bit (ucast v :: u8) i"
      by (simp only: bit_ucast_iff bit_and_iff bit_mask_iff) auto
  qed
  then show ?thesis by (simp add: put_u16_def put_le_def numeral_2_eq_2)
qed

lemma get_le_skip:
  "length xs \<le> offset \<Longrightarrow> get_le n (xs @ ys) offset = get_le n ys (offset - length xs)"
  by (simp add: get_le_def nth_append)

lemma get_le_here: "LENGTH('a::len) \<le> 8 * n \<Longrightarrow> get_le n (le_bytes n v @ ys) 0 = (v :: 'a word)"
  using get_le_append [of n "[]" 0 v ys] by simp

lemma overwrite_extend:
  "length xs = off \<Longrightarrow> off + length ys \<le> length buf \<Longrightarrow>
   overwrite (overwrite buf 0 xs) off ys = overwrite buf 0 (xs @ ys)"
  using overwrite_append [of 0 xs buf ys] by simp

lemma update_extend:
  "length xs = off \<Longrightarrow> off < length buf \<Longrightarrow>
   (overwrite buf 0 xs)[off := y] = overwrite buf 0 (xs @ [y])"
  using overwrite_extend [of xs off "[y]" buf] overwrite_single [of off "overwrite buf 0 xs" y]
  by (simp add: length_overwrite)

subsection \<open>The decoded image of a frame\<close>

definition frame_header ::
  "FrameType \<Rightarrow> u16 \<Rightarrow> u32 \<Rightarrow> u32 \<Rightarrow> u64 \<Rightarrow> u16 \<Rightarrow> nat \<Rightarrow> bytes" where
  "frame_header type flags transfer_id sequence offset status payload_length =
     [kMagic0, kMagic1, kDataPlaneVersion, byte_of_frame_type type] @
     le_bytes 2 flags @ le_bytes 2 (word_of_nat kHeaderBytes :: u16) @
     le_bytes 4 transfer_id @ le_bytes 4 sequence @ le_bytes 8 offset @
     le_bytes 2 (word_of_nat payload_length :: u16) @ le_bytes 2 status"

definition frame_image :: "FrameType \<Rightarrow> u32 \<Rightarrow> u32 \<Rightarrow> u64 \<Rightarrow> u16 \<Rightarrow> bytes \<Rightarrow> bytes" where
  "frame_image type transfer_id sequence offset status payload =
     (let body = frame_header type 0 transfer_id sequence offset status (length payload) @ payload
      in body @ le_bytes 4 (crc32_calculate body))"

definition frame_fields_ok :: "FrameType \<Rightarrow> u32 \<Rightarrow> u16 \<Rightarrow> bytes \<Rightarrow> bool" where
  "frame_fields_ok type transfer_id status payload \<longleftrightarrow>
     is_known_type type \<and> transfer_id \<noteq> 0 \<and> length payload \<le> kMaxPayloadBytes \<and>
     has_valid_type_fields type status (word_of_nat (length payload))"

lemma length_frame_header [simp]:
  "length (frame_header type flags transfer_id sequence offset status n) = 28"
  by (simp add: frame_header_def)

lemma length_frame_image [simp]:
  "length (frame_image type transfer_id sequence offset status payload) = 32 + length payload"
  by (simp add: frame_image_def Let_def)

lemma frame_header_built:
  assumes "28 \<le> length buf"
  shows "put_u16 (put_u16 (put_u64 (put_u32 (put_u32 (put_u16 (put_u16
      (buf[0 := kMagic0, 1 := kMagic1, 2 := kDataPlaneVersion, 3 := byte_of_frame_type type])
      4 flags) 6 (word_of_nat kHeaderBytes)) 8 transfer_id) 12 sequence) 16 offset)
      24 (word_of_nat n)) 26 status =
    overwrite buf 0 (frame_header type flags transfer_id sequence offset status n)"
proof -
  have "buf[0 := kMagic0] = overwrite buf 0 [kMagic0]"
    using assms by (intro overwrite_single [symmetric]) linarith
  with assms show ?thesis
    by (simp add: update_extend overwrite_extend put_le_overwrite length_overwrite field_generic
        put_u16_generic frame_header_def)
qed

lemma encode_frame_image:
  fixes sequence :: u32 and offset :: u64
  assumes ok: "frame_fields_ok type transfer_id status payload"
    and room: "32 + length payload \<le> length decoded" "3 \<le> length wire"
  defines "body \<equiv> cobs_stuff [] (frame_image type transfer_id sequence offset status payload)"
  shows "encode_frame type 0 transfer_id sequence offset status payload decoded encoded wire =
    Some (if length body \<le> length encoded \<and> length body + 3 \<le> length wire
          then Some (overwrite wire 0 ([0, 0] @ body @ [0]), length body + 3) else None)"
proof -
  let ?h = "frame_header type 0 transfer_id sequence offset status (length payload)"
  let ?d = "overwrite decoded 0 (?h @ payload)"
  have built: "overwrite (overwrite decoded 0 ?h) kHeaderBytes payload = ?d"
    using room by (simp add: overwrite_extend kHeaderBytes_def)
  have crc: "put_u32 ?d (kHeaderBytes + length payload)
        (crc32_calculate (take (kHeaderBytes + length payload) ?d)) =
      overwrite decoded 0 (frame_image type transfer_id sequence offset status payload)"
  proof -
    have "take (kHeaderBytes + length payload) ?d = ?h @ payload"
      by (simp add: overwrite_def kHeaderBytes_def)
    then show ?thesis
      using room
      by (simp add: field_generic put_le_overwrite length_overwrite overwrite_extend kHeaderBytes_def
          frame_image_def Let_def)
  qed
  have img: "take (kHeaderBytes + length payload + kCrcBytes)
        (overwrite decoded 0 (frame_image type transfer_id sequence offset status payload)) =
      frame_image type transfer_id sequence offset status payload"
    by (simp add: overwrite_def codec_constants)
  have wire: "(overwrite (wire[0 := 0, 1 := 0]) 2 body)[length body + 2 := 0] =
      overwrite wire 0 ([0, 0] @ body @ [0])" if "length body + 3 \<le> length wire"
  proof -
    have "wire[0 := 0] = overwrite wire 0 [0]" using that by (intro overwrite_single [symmetric]) linarith
    with that show ?thesis by (simp add: update_extend overwrite_extend)
  qed
  show ?thesis
    using ok room built crc img wire frame_header_built [of decoded type 0 transfer_id sequence offset
        "length payload" status]
    by (auto simp: encode_frame_def Let_def frame_fields_ok_def codec_constants cobs_encode_correct
        encode_result_def body_def)
qed

subsection \<open>Parsing\<close>

lemma get_le_Cons: "0 < offset \<Longrightarrow> get_le n (x # xs) offset = get_le n xs (offset - 1)"
  using get_le_skip [of "[x]" offset n xs] by simp

lemma frame_image_fields:
  fixes type :: FrameType and transfer_id sequence :: u32 and offset :: u64 and status :: u16
    and payload :: bytes
  defines "img \<equiv> frame_image type transfer_id sequence offset status payload"
  assumes "length payload \<le> 1024"
  shows "img ! 0 = kMagic0" "img ! 1 = kMagic1" "img ! 2 = kDataPlaneVersion"
    "img ! 3 = byte_of_frame_type type"
    "get_u16 img 4 = 0" "get_u16 img 6 = word_of_nat kHeaderBytes" "get_u32 img 8 = transfer_id"
    "get_u32 img 12 = sequence" "get_u64 img 16 = offset"
    "get_u16 img 24 = word_of_nat (length payload)" "get_u16 img 26 = status"
  by (simp_all add: img_def frame_image_def frame_header_def Let_def field_generic get_le_skip
      get_le_Cons get_le_here)

lemma frame_image_crc:
  fixes type :: FrameType and transfer_id sequence :: u32 and offset :: u64 and status :: u16
    and payload :: bytes
  defines "img \<equiv> frame_image type transfer_id sequence offset status payload"
  shows "get_u32 img (length img - kCrcBytes) =
      crc32_calculate (take (kHeaderBytes + length payload) img)"
    "take (length payload) (drop kHeaderBytes img) = payload"
proof -
  have "get_u32 (h @ p @ le_bytes 4 c) (length h + length p) = c" for h p c
    using get_le_append [of 4 "h @ p" "length h + length p" c "[]"] by (simp add: field_generic)
  from this [of "frame_header type 0 transfer_id sequence offset status (length payload)" payload]
  show "get_u32 img (length img - kCrcBytes) =
      crc32_calculate (take (kHeaderBytes + length payload) img)"
    by (simp add: img_def frame_image_def Let_def codec_constants)
  show "take (length payload) (drop kHeaderBytes img) = payload"
    by (simp add: img_def frame_image_def Let_def codec_constants)
qed

lemma frame_type_of_byte_inverse:
  "is_known_type type \<Longrightarrow> frame_type_of_byte (byte_of_frame_type type) = type"
  by (auto simp: is_known_type_def frame_type_of_byte_def)

lemma valid_type_fields_received:
  "has_valid_type_fields type status n \<Longrightarrow> has_valid_received_type_fields type status n"
  by (cases type) (auto simp: has_valid_received_type_fields_def)

lemma parse_frame_image:
  fixes type :: FrameType and transfer_id sequence :: u32 and offset :: u64 and status :: u16
    and payload :: bytes
  assumes ok: "frame_fields_ok type transfer_id status payload"
  defines "img \<equiv> frame_image type transfer_id sequence offset status payload"
  shows "parse_decoded img =
    Some \<lparr>pf_structural_valid = True, pf_crc_valid = True, pf_type = type, pf_flags = 0,
      pf_header_length = 28, pf_transfer_id = transfer_id, pf_sequence = sequence,
      pf_offset = offset, pf_payload_length = word_of_nat (length payload), pf_status = status,
      pf_wire_crc = get_u32 img (length img - kCrcBytes), pf_payload = payload\<rparr>"
proof -
  have len: "length payload \<le> 1024" using ok by (simp add: frame_fields_ok_def codec_constants)
  then have n: "unat (word_of_nat (length payload) :: u16) = length payload"
    by (intro unat_of_nat_u16) simp
  note f = frame_image_fields [OF len, where type = type and transfer_id = transfer_id and
    sequence = sequence and offset = offset and status = status, folded img_def]
  have "length img = 32 + length payload" by (simp add: img_def)
  then show ?thesis
    using ok f n len frame_image_crc [where type = type and transfer_id = transfer_id and
      sequence = sequence and offset = offset and status = status and payload = payload,
      folded img_def]
    by (simp add: parse_decoded_def Let_def frame_fields_ok_def frame_type_of_byte_inverse
        valid_type_fields_received codec_constants)
qed

subsection \<open>Validity of the checksum as a residue\<close>

lemma bit_crc32_pack:
  "length bs \<le> 4 \<Longrightarrow> bit (crc32_pack bs) i \<longleftrightarrow> i < 8 * length bs \<and> bit (bs ! (i div 8)) (i mod 8)"
proof (induction bs arbitrary: i)
  case Nil
  then show ?case by simp
next
  case (Cons b bs)
  show ?case
  proof (cases "i < 8")
    case True
    then show ?thesis by (auto simp: bit_xor_iff bit_push_bit_iff bit_ucast_iff)
  next
    case False
    then have "i div 8 = Suc ((i - 8) div 8)" "i mod 8 = (i - 8) mod 8"
      by (simp_all add: le_div_geq le_mod_geq)
    moreover have "\<not> bit b i" using False bit_imp_le_length [of b i] by auto
    ultimately show ?thesis
      using False Cons.prems Cons.IH [of "i - 8"]
      by (auto simp: bit_xor_iff bit_push_bit_iff bit_ucast_iff)
  qed
qed

lemma crc32_pack_le_bytes: "crc32_pack (le_bytes 4 c) = c"
proof (rule bit_eqI)
  fix i
  assume "possible_bit TYPE(u32) i"
  then have "i < 32" by simp
  then have "i div 8 < 4" by (simp add: less_mult_imp_div_less)
  then show "bit (crc32_pack (le_bytes 4 c)) i = bit c i"
    using \<open>i < 32\<close> by (simp add: bit_crc32_pack nth_le_bytes bit_ucast_iff bit_drop_bit_eq)
qed

definition crc32_residue :: u32 where
  "crc32_residue = (crc32_bit ^^ 32) 0xffffffff"

lemma crc32_residue_iff:
  "crc32_calculate body = c \<longleftrightarrow> crc32_update crc32_init (body @ le_bytes 4 c) = crc32_residue"
proof -
  let ?r = "crc32_update crc32_init body"
  have "crc32_update crc32_init (body @ le_bytes 4 c) = (crc32_bit ^^ 32) (?r XOR c)"
    by (simp add: crc32_update_append crc32_update_pack crc32_pack_le_bytes)
  then have "crc32_update crc32_init (body @ le_bytes 4 c) = crc32_residue \<longleftrightarrow> ?r XOR c = 0xffffffff"
    using crc32_bits_inj [of 32 "?r XOR c" "0xffffffff"] by (auto simp: crc32_residue_def)
  also have "\<dots> \<longleftrightarrow> ?r XOR c = ?r XOR (?r XOR 0xffffffff)"
    by (simp add: xor.assoc [symmetric] del: xor_cancel_left)
  also have "\<dots> \<longleftrightarrow> c = crc32_calculate body"
    unfolding xor_cancel_left by (simp add: crc32_calculate_def crc32_finish_def)
  finally show ?thesis by blast
qed

lemma parse_crc_residue:
  assumes "parse_decoded d = Some f"
  shows "pf_crc_valid f \<longleftrightarrow> crc32_update crc32_init d = crc32_residue"
proof -
  have len: "length d = 32 + unat (get_u16 d 24)"
    using assms by (auto simp: parse_decoded_def Let_def codec_constants split: if_splits)
  let ?body = "take (28 + unat (get_u16 d 24)) d"
  have "pf_crc_valid f \<longleftrightarrow> crc32_calculate ?body = get_u32 d (length d - 4)"
    using assms by (auto simp: parse_decoded_def Let_def codec_constants split: if_splits)
  moreover have "le_bytes 4 (get_u32 d (length d - 4)) = drop (28 + unat (get_u16 d 24)) d"
    using len le_bytes_get_le [where 'a = 32 and n = 4 and offset = "length d - 4" and data = d]
    by (simp add: field_generic)
  ultimately show ?thesis
    by (simp add: crc32_residue_iff)
qed

subsection \<open>Properties of the codec\<close>

lemma length_stuffed_frame:
  "length payload \<le> 1024 \<Longrightarrow>
   length (cobs_stuff [] (frame_image type transfer_id sequence offset status payload)) \<le> 1061"
  using length_cobs_stuff [of "[]" "frame_image type transfer_id sequence offset status payload"]
  by simp

lemma encode_frame_ok:
  assumes "frame_fields_ok type transfer_id status payload"
    and "length decoded = kMaxDecodedFrameBytes" "length encoded = kMaxEncodedBodyBytes"
      "length wire = kMaxWireFrameBytes"
  shows "encode_frame type 0 transfer_id sequence offset status payload decoded encoded wire =
    (let body = cobs_stuff [] (frame_image type transfer_id sequence offset status payload) in
     Some (Some (overwrite wire 0 ([0, 0] @ body @ [0]), length body + 3)))"
proof -
  have len: "length payload \<le> 1024" using assms by (simp add: frame_fields_ok_def codec_constants)
  then show ?thesis
    using assms length_stuffed_frame [OF len, of type transfer_id sequence offset status]
    by (subst encode_frame_image) (simp_all add: codec_constants Let_def)
qed

text \<open>
  (C6) Frame round trip: with the arrays of the transfer manager (1056, 1061 and 1064 bytes), encoding
  a frame whose fields are valid always succeeds; the wire image is two zero delimiters, a zero-free
  body and a closing delimiter; and decoding that body and parsing it gives a structurally valid,
  CRC-valid frame with exactly the type, identifiers, offset, status and payload that were encoded.
\<close>

theorem frame_round_trip:
  assumes "frame_fields_ok type transfer_id status payload"
    and "length decoded = kMaxDecodedFrameBytes" "length encoded = kMaxEncodedBodyBytes"
      "length wire = kMaxWireFrameBytes" "length buf = kMaxDecodedFrameBytes"
  shows "\<exists>out body buf' n crc.
    encode_frame type 0 transfer_id sequence offset status payload decoded encoded wire =
      Some (Some (out, length body + 3)) \<and>
    take (length body + 3) out = [0, 0] @ body @ [0] \<and> 0 \<notin> set body \<and>
    cobs_decode body buf = Some (Some (buf', n)) \<and>
    parse_decoded (take n buf') =
      Some \<lparr>pf_structural_valid = True, pf_crc_valid = True, pf_type = type, pf_flags = 0,
        pf_header_length = 28, pf_transfer_id = transfer_id, pf_sequence = sequence,
        pf_offset = offset, pf_payload_length = word_of_nat (length payload), pf_status = status,
        pf_wire_crc = crc, pf_payload = payload\<rparr>"
proof -
  let ?img = "frame_image type transfer_id sequence offset status payload"
  let ?body = "cobs_stuff [] ?img"
  have "length payload \<le> 1024" using assms(1) by (simp add: frame_fields_ok_def codec_constants)
  then have dec: "cobs_decode ?body buf = Some (Some (overwrite buf 0 ?img, length ?img))"
    using assms by (intro cobs_decode_stuff) (simp add: codec_constants)
  have t: "take (length xs) (overwrite ys 0 xs) = xs" for xs ys :: bytes by (simp add: overwrite_def)
  have w: "take (length ?body + 3) (overwrite wire 0 ([0, 0] @ ?body @ [0])) = [0, 0] @ ?body @ [0]"
    using t [of "[0, 0] @ ?body @ [0]" wire] by (simp add: numeral_3_eq_3)
  have "0 \<notin> set ?body" by (rule cobs_stuff_no_zero) simp_all
  then show ?thesis
    using dec encode_frame_ok [OF assms(1-4), of sequence offset] parse_frame_image [OF assms(1)]
      t [of ?img buf] w
    by (intro exI [of _ "overwrite wire 0 ([0, 0] @ ?body @ [0])"] exI [of _ ?body]
        exI [of _ "overwrite buf 0 ?img"] exI [of _ "length ?img"]
        exI [of _ "get_u32 ?img (length ?img - kCrcBytes)"])
      (simp add: Let_def del: length_frame_image)
qed

theorem frame_round_trip_witness:
  "frame_fields_ok Data 7 0 [1, 0, 2] \<and>
   (\<exists>out body buf' n crc.
    encode_frame Data 0 7 0 0 0 [1, 0, 2] (replicate 1056 0) (replicate 1061 0) (replicate 1064 0) =
      Some (Some (out, length body + 3)) \<and>
    take (length body + 3) out = [0, 0] @ body @ [0] \<and> 0 \<notin> set body \<and>
    cobs_decode body (replicate 1056 0) = Some (Some (buf', n)) \<and>
    parse_decoded (take n buf') =
      Some \<lparr>pf_structural_valid = True, pf_crc_valid = True, pf_type = Data, pf_flags = 0,
        pf_header_length = 28, pf_transfer_id = 7, pf_sequence = 0,
        pf_offset = 0, pf_payload_length = 3, pf_status = 0,
        pf_wire_crc = crc, pf_payload = [1, 0, 2]\<rparr>)"
proof -
  have ok: "frame_fields_ok Data 7 0 [1, 0, 2]"
    by (simp add: frame_fields_ok_def is_known_type_def codec_constants)
  from frame_round_trip [OF this, of "replicate 1056 0" "replicate 1061 0" "replicate 1064 0"
      "replicate 1056 0" 0 0] ok
  show ?thesis by (simp add: codec_constants)
qed

text \<open>
  (C7) Corruption is detected: if a decoded frame parses with a valid checksum, then changing any
  window of at most four consecutive bytes, anywhere in header, payload or checksum, gives data that
  either no longer parses or parses with an invalid checksum.
\<close>

theorem frame_burst_rejected:
  assumes "parse_decoded (pre @ good @ post) = Some f" "pf_crc_valid f"
    and "length bad = length good" "length good \<le> 4" "bad \<noteq> good"
  shows "parse_decoded (pre @ bad @ post) = None \<or>
    (\<exists>g. parse_decoded (pre @ bad @ post) = Some g \<and> \<not> pf_crc_valid g)"
proof (cases "parse_decoded (pre @ bad @ post)")
  case (Some g)
  have "crc32_update crc32_init (pre @ good @ post) = crc32_residue"
    using assms(1,2) parse_crc_residue by blast
  then have "crc32_update crc32_init (pre @ bad @ post) \<noteq> crc32_residue"
    using crc32_burst_detected [OF assms(3-5), of crc32_init pre post] by simp
  then show ?thesis using Some parse_crc_residue by blast
qed simp

lemma frame_image_split:
  "frame_image Data 7 0 0 0 [1, 0, 2] =
   take 12 (frame_image Data 7 0 0 0 [1, 0, 2]) @ [0, 0, 0, 0] @
     drop 16 (frame_image Data 7 0 0 0 [1, 0, 2])"
  by (simp add: frame_image_def frame_header_def le_bytes_def Let_def upt_rec eval_nat_numeral)

theorem frame_burst_rejected_witness:
  "let img = frame_image Data 7 0 0 0 [1, 0, 2]; bad = take 12 img @ [1, 0, 0, 0] @ drop 16 img in
   parse_decoded bad = None \<or> (\<exists>g. parse_decoded bad = Some g \<and> \<not> pf_crc_valid g)"
proof -
  let ?img = "frame_image Data 7 0 0 0 [1, 0, 2]"
  have "frame_fields_ok Data 7 0 [1, 0, 2]"
    by (simp add: frame_fields_ok_def is_known_type_def codec_constants)
  from parse_frame_image [OF this, of 0 0] obtain f where "parse_decoded ?img = Some f" "pf_crc_valid f"
    by auto
  then have f: "parse_decoded (take 12 ?img @ [0, 0, 0, 0] @ drop 16 ?img) = Some f" "pf_crc_valid f"
    by (simp_all only: frame_image_split [symmetric])
  show ?thesis
    unfolding Let_def by (rule frame_burst_rejected [OF f]) simp_all
qed

lemma bytes_split_at: "take n (drop k d) @ drop (k + n) d = drop k d"
  by (metis append_take_drop_id drop_drop add.commute)

lemma header_decomposition:
  fixes d :: bytes
  assumes "28 \<le> length d"
  shows "d = [d ! 0, d ! 1, d ! 2, d ! 3] @ le_bytes 2 (get_u16 d 4) @ le_bytes 2 (get_u16 d 6) @
    le_bytes 4 (get_u32 d 8) @ le_bytes 4 (get_u32 d 12) @ le_bytes 8 (get_u64 d 16) @
    le_bytes 2 (get_u16 d 24) @ le_bytes 2 (get_u16 d 26) @ drop 28 d"
proof -
  have "[d ! 0, d ! 1, d ! 2, d ! 3] = take 4 d"
    using assms by (intro nth_equalityI) (auto simp: less_Suc_eq numeral_eq_Suc)
  then show ?thesis
    using assms bytes_split_at [of 2 26 d] bytes_split_at [of 2 24 d] bytes_split_at [of 8 16 d]
      bytes_split_at [of 4 12 d] bytes_split_at [of 4 8 d] bytes_split_at [of 2 6 d]
      bytes_split_at [of 2 4 d]
    by (simp add: field_generic le_bytes_get_le)
qed

text \<open>
  (C17) Parsing accepts frame images only: data that parses with a valid checksum is, byte for byte,
  the canonical image of the fields the parser reports. Together with the round trip this makes the
  parser the exact inverse of the builder: two different valid images never parse to the same frame.
\<close>

theorem parse_only_images:
  assumes "parse_decoded d = Some f" "pf_crc_valid f"
  shows "d = frame_image (pf_type f) (pf_transfer_id f) (pf_sequence f) (pf_offset f) (pf_status f)
    (pf_payload f)"
proof -
  let ?n = "unat (get_u16 d 24)"
  have *: "length d = 32 + ?n" "28 \<le> length d" "d ! 0 = kMagic0" "d ! 1 = kMagic1"
      "d ! 2 = kDataPlaneVersion"
      "get_u16 d 4 = 0" "unat (get_u16 d 6) = 28" "is_known_type (frame_type_of_byte (d ! 3))"
      "crc32_calculate (take (28 + ?n) d) = get_u32 d (length d - 4)"
      "pf_type f = frame_type_of_byte (d ! 3)" "pf_transfer_id f = get_u32 d 8"
      "pf_sequence f = get_u32 d 12" "pf_offset f = get_u64 d 16" "pf_status f = get_u16 d 26"
      "pf_payload f = take ?n (drop 28 d)"
    using assms by (auto simp: parse_decoded_def Let_def codec_constants split: if_splits)
  have type: "byte_of_frame_type (pf_type f) = d ! 3"
    using * by (auto simp: frame_type_of_byte_def is_known_type_def split: if_splits)
  have "get_u16 d 6 = word_of_nat 28" using *(7) unat_of_nat_u16 [of 28] by (simp add: word_unat_eq_iff)
  moreover have pl: "length (pf_payload f) = ?n" using * by simp
  ultimately have body: "frame_header (pf_type f) 0 (pf_transfer_id f) (pf_sequence f) (pf_offset f)
      (pf_status f) (length (pf_payload f)) @ drop 28 d = d"
    using * type header_decomposition [OF *(2)]
    by (simp add: frame_header_def codec_constants)
  have tail: "drop (28 + ?n) d = le_bytes 4 (get_u32 d (length d - 4))"
    using *(1) le_bytes_get_le [where 'a = 32 and n = 4 and offset = "length d - 4" and data = d]
    by (simp add: field_generic)
  have "frame_header (pf_type f) 0 (pf_transfer_id f) (pf_sequence f) (pf_offset f)
      (pf_status f) (length (pf_payload f)) @ pf_payload f = take (28 + ?n) d"
    using arg_cong [where f = "take (28 + ?n)", OF body] *(15) by simp
  then show ?thesis
    using *(9) tail append_take_drop_id [of "28 + ?n" d]
    by (simp only: frame_image_def Let_def append_assoc [symmetric])
qed

theorem parse_only_images_witness:
  "\<exists>f. parse_decoded (frame_image Nack 9 3 1024 5 []) = Some f \<and> pf_crc_valid f \<and>
    frame_image Nack 9 3 1024 5 [] =
      frame_image (pf_type f) (pf_transfer_id f) (pf_sequence f) (pf_offset f) (pf_status f)
        (pf_payload f)"
proof -
  have "frame_fields_ok Nack 9 5 []"
    by (simp add: frame_fields_ok_def is_known_type_def codec_constants)
  from parse_frame_image [OF this, of 3 1024] obtain f
    where f: "parse_decoded (frame_image Nack 9 3 1024 5 []) = Some f" "pf_crc_valid f"
    by auto
  show ?thesis using f parse_only_images [OF f] by blast
qed

end
