(* ===== verification/Transfer_Manager.thy ===== *)
theory Transfer_Manager
  imports Binary_Codec
begin

section \<open>Transfer manager of the binary data plane (transfer_manager.cpp)\<close>

text \<open>
  The stop-and-wait transfer state machine of the firmware. The record \<open>TransferManager\<close> has the
  fields of the C++ struct; the objects behind the callback contexts (the storage, the UART, the test
  pattern) are one value of the type parameter \<open>'w\<close>, threaded through every operation, and a callback
  is an optional function on it (\<open>None\<close> is the null pointer). An operation takes the manager and the
  world and returns both.

  Conventions:
  \<^item> \<open>ep_context\<close> says whether \<^verbatim>\<open>endpoint.context\<close> is non-null.
  \<^item> \<^verbatim>\<open>produce\<close> returns the bytes it stored from the start of the payload array, of which the model
    keeps the \<^verbatim>\<open>requested\<close> ones the array argument allows, and the count it reports.
  \<^item> The \<^verbatim>\<open>terminal\<close> callback of the file service reads \<^verbatim>\<open>manager->terminal\<close> through a back pointer, so the
    model passes that record explicitly.
  \<^item> Out-parameters are results; the null checks of \<^verbatim>\<open>manager\<close>, \<^verbatim>\<open>info\<close> and \<^verbatim>\<open>decoded\<close> have no counterpart.
  \<^item> The three scratch arrays are fields; only \<open>tm_wire_frame\<close> is tracked after a call, since the other
    two are rewritten by the codec before each use and are read by nothing else.
  \<^item> The \<^verbatim>\<open>NP2_EMU_TEST\<close> fault seam is off, as in the product build.
\<close>

definition kMaxTransferBytes :: u64 where "kMaxTransferBytes = 0xffffffff * word_of_nat kMaxPayloadBytes"
definition kAckTimeoutMs :: u32 where "kAckTimeoutMs = 1000"
definition kMaxRetransmissions :: u32 where "kMaxRetransmissions = 3"
definition kReceiverTimeoutMs :: u32 where "kReceiverTimeoutMs = 10000"
definition kMaxWindowFrames :: nat where "kMaxWindowFrames = 2"

lemmas manager_constants = kMaxTransferBytes_def kAckTimeoutMs_def kMaxRetransmissions_def
  kReceiverTimeoutMs_def kMaxWindowFrames_def

datatype Direction = HostToDevice | DeviceToHost
datatype TransportMode = StopAndWait | WindowedGbnV1
datatype TransferState = Idle | Active | Completed | Aborted
datatype ManagerError =
  ManagerOk | Busy | InvalidSize | UnknownTransfer | TransferClosed | InvalidParams
datatype EndpointResult = EndpointOk | EndpointFailed
datatype TerminalReason =
  ReasonCompleted | ExplicitAbort | ReceiverTimeout | RetryExhausted | ProtocolError
  | OutputError | EndpointIoError | EndpointFinishError
datatype NackReason =
  BadCrc | BadSequence | BadOffset | InvalidLength | NackUnknownTransfer | NackTransferClosed
  | BadHeader | WrongDirection

primrec nack_status :: "NackReason \<Rightarrow> u16" where
  "nack_status BadCrc = 1"
| "nack_status BadSequence = 2"
| "nack_status BadOffset = 3"
| "nack_status InvalidLength = 4"
| "nack_status NackUnknownTransfer = 5"
| "nack_status NackTransferClosed = 6"
| "nack_status BadHeader = 7"
| "nack_status WrongDirection = 8"

record TransferOptions =
  to_transport :: TransportMode
  to_window_frames :: u8

definition default_options :: TransferOptions where
  "default_options = \<lparr>to_transport = StopAndWait, to_window_frames = 1\<rparr>"

record TransferInfo =
  ti_transfer_id :: u32
  ti_direction :: Direction
  ti_state :: TransferState
  ti_total_bytes :: u64
  ti_transferred_bytes :: u64
  ti_expected_sequence :: u32
  ti_expected_offset :: u64
  ti_crc32 :: u32
  ti_has_crc32 :: bool

definition default_info :: TransferInfo where
  "default_info = \<lparr>ti_transfer_id = 0, ti_direction = HostToDevice, ti_state = Idle,
     ti_total_bytes = 0, ti_transferred_bytes = 0, ti_expected_sequence = 0,
     ti_expected_offset = 0, ti_crc32 = 0, ti_has_crc32 = False\<rparr>"

record 'w TransferEndpoint =
  ep_context :: bool
  ep_begin :: "(Direction \<Rightarrow> u64 \<Rightarrow> 'w \<Rightarrow> EndpointResult \<times> 'w) option"
  ep_consume :: "(u64 \<Rightarrow> bytes \<Rightarrow> 'w \<Rightarrow> EndpointResult \<times> 'w) option"
  ep_produce :: "(u64 \<Rightarrow> nat \<Rightarrow> 'w \<Rightarrow> EndpointResult \<times> bytes \<times> nat \<times> 'w) option"
  ep_finish :: "('w \<Rightarrow> EndpointResult \<times> 'w) option"
  ep_abort :: "(TerminalReason \<Rightarrow> 'w \<Rightarrow> 'w) option"
  ep_terminal :: "(TransferInfo \<Rightarrow> TerminalReason \<Rightarrow> 'w \<Rightarrow> 'w) option"

definition null_endpoint :: "'w TransferEndpoint" where
  "null_endpoint = \<lparr>ep_context = False, ep_begin = None, ep_consume = None, ep_produce = None,
     ep_finish = None, ep_abort = None, ep_terminal = None\<rparr>"

record DataIdentity =
  di_valid :: bool
  di_sequence :: u32
  di_offset :: u64
  di_payload_length :: u16
  di_wire_crc :: u32

definition default_identity :: DataIdentity where
  "default_identity = \<lparr>di_valid = False, di_sequence = 0, di_offset = 0, di_payload_length = 0,
     di_wire_crc = 0\<rparr>"

record FinalAckReplay =
  far_valid :: bool
  far_transfer_id :: u32
  far_identities :: "DataIdentity list"
  far_identity_count :: nat
  far_acknowledged_sequence :: u32
  far_acknowledged_offset :: u64

definition default_replay :: FinalAckReplay where
  "default_replay = \<lparr>far_valid = False, far_transfer_id = 0,
     far_identities = replicate kMaxWindowFrames default_identity, far_identity_count = 0,
     far_acknowledged_sequence = 0, far_acknowledged_offset = 0\<rparr>"

type_synonym 'w sink = "(bytes \<Rightarrow> 'w \<Rightarrow> bool \<times> 'w) option"

record 'w TransferManager =
  tm_output :: "'w sink"
  tm_endpoint :: "'w TransferEndpoint"
  tm_next_transfer_id :: u32
  tm_active :: bool
  tm_direction :: Direction
  tm_transport :: TransportMode
  tm_window_frames :: u8
  tm_state :: TransferState
  tm_transfer_id :: u32
  tm_total_bytes :: u64
  tm_transferred_bytes :: u64
  tm_expected_sequence :: u32
  tm_expected_offset :: u64
  tm_running_crc :: u32
  tm_terminal_crc :: u32
  tm_terminal_has_crc :: bool
  tm_tx_pending_start :: bool
  tm_tx_frame_ready :: bool
  tm_tx_waiting_ack :: bool
  tm_tx_sequence :: u32
  tm_tx_offset :: u64
  tm_tx_length :: u16
  tm_tx_retries :: u32
  tm_tx_last_sent_ms :: u32
  tm_tx_crc :: u32
  tm_tx_payload :: bytes
  tm_accepted_data_history :: "DataIdentity list"
  tm_accepted_data_history_count :: nat
  tm_last_activity_ms :: u32
  tm_activity_pending :: bool
  tm_terminal_valid :: bool
  tm_terminal :: TransferInfo
  tm_endpoint_started :: bool
  tm_endpoint_finalized :: bool
  tm_terminal_notified :: bool
  tm_final_ack_replay :: FinalAckReplay
  tm_decoded_frame :: bytes
  tm_encoded_body :: bytes
  tm_wire_frame :: bytes

definition default_manager :: "'w TransferManager" where
  "default_manager = \<lparr>tm_output = None, tm_endpoint = null_endpoint, tm_next_transfer_id = 1,
     tm_active = False, tm_direction = HostToDevice, tm_transport = StopAndWait,
     tm_window_frames = 1, tm_state = Idle, tm_transfer_id = 0, tm_total_bytes = 0,
     tm_transferred_bytes = 0, tm_expected_sequence = 0, tm_expected_offset = 0,
     tm_running_crc = 0xffffffff, tm_terminal_crc = 0, tm_terminal_has_crc = False,
     tm_tx_pending_start = False, tm_tx_frame_ready = False, tm_tx_waiting_ack = False,
     tm_tx_sequence = 0, tm_tx_offset = 0, tm_tx_length = 0, tm_tx_retries = 0,
     tm_tx_last_sent_ms = 0, tm_tx_crc = 0xffffffff,
     tm_tx_payload = replicate kMaxPayloadBytes 0,
     tm_accepted_data_history = replicate kMaxWindowFrames default_identity,
     tm_accepted_data_history_count = 0, tm_last_activity_ms = 0, tm_activity_pending = False,
     tm_terminal_valid = False, tm_terminal = default_info, tm_endpoint_started = False,
     tm_endpoint_finalized = False, tm_terminal_notified = False,
     tm_final_ack_replay = default_replay,
     tm_decoded_frame = replicate kMaxDecodedFrameBytes 0,
     tm_encoded_body = replicate kMaxEncodedBodyBytes 0,
     tm_wire_frame = replicate kMaxWireFrameBytes 0\<rparr>"

type_synonym 'w mstate = "'w TransferManager \<times> 'w"

subsection \<open>Helpers and terminal transitions\<close>

definition elapsed :: "u32 \<Rightarrow> u32 \<Rightarrow> u32 \<Rightarrow> bool" where
  "elapsed now then_ms duration \<longleftrightarrow> now - then_ms \<ge> duration"

definition current_info :: "'w TransferManager \<Rightarrow> TransferInfo" where
  "current_info m =
     (let info = default_info
        \<lparr>ti_transfer_id := tm_transfer_id m, ti_direction := tm_direction m,
         ti_state := tm_state m, ti_total_bytes := tm_total_bytes m,
         ti_transferred_bytes := tm_transferred_bytes m,
         ti_expected_sequence := tm_expected_sequence m,
         ti_expected_offset := tm_expected_offset m\<rparr> in
      if \<not> tm_active m \<and> tm_terminal_has_crc m
      then info\<lparr>ti_crc32 := tm_terminal_crc m, ti_has_crc32 := True\<rparr> else info)"

definition endpoint_abort :: "'w TransferManager \<Rightarrow> TerminalReason \<Rightarrow> 'w \<Rightarrow> 'w mstate" where
  "endpoint_abort m reason w =
     (if tm_endpoint_started m \<and> \<not> tm_endpoint_finalized m then
        (m\<lparr>tm_endpoint_finalized := True\<rparr>,
         case ep_abort (tm_endpoint m) of None \<Rightarrow> w | Some f \<Rightarrow> f reason w)
      else (m, w))"

definition notify_terminal :: "'w TransferManager \<Rightarrow> TerminalReason \<Rightarrow> 'w \<Rightarrow> 'w mstate" where
  "notify_terminal m reason w =
     (if tm_endpoint_started m \<and> \<not> tm_terminal_notified m then
        (m\<lparr>tm_terminal_notified := True\<rparr>,
         case ep_terminal (tm_endpoint m) of None \<Rightarrow> w | Some f \<Rightarrow> f (tm_terminal m) reason w)
      else (m, w))"

definition finish_active ::
  "'w TransferManager \<Rightarrow> TransferState \<Rightarrow> TerminalReason \<Rightarrow> 'w \<Rightarrow> 'w mstate" where
  "finish_active m state reason w =
     (if \<not> tm_active m \<and> tm_terminal_valid m then (m, w)
      else
        let m = m\<lparr>tm_state := state, tm_active := False, tm_tx_pending_start := False,
                  tm_tx_frame_ready := False, tm_tx_waiting_ack := False\<rparr>;
            (m, w) = (if state \<noteq> Completed then endpoint_abort m reason w else (m, w));
            completed = (state = Completed);
            crc = (if completed
                   then crc32_finish (if tm_direction m = DeviceToHost then tm_tx_crc m
                                      else tm_running_crc m)
                   else 0);
            info = (current_info m)\<lparr>ti_state := state, ti_crc32 := crc, ti_has_crc32 := completed\<rparr>;
            m = m\<lparr>tm_terminal := info, tm_terminal_crc := crc, tm_terminal_has_crc := completed,
                  tm_terminal_valid := True\<rparr>
        in notify_terminal m reason w)"

subsection \<open>Sending frames\<close>

definition write_wire ::
  "'w TransferManager \<Rightarrow> FrameType \<Rightarrow> u32 \<Rightarrow> u32 \<Rightarrow> u64 \<Rightarrow> u16 \<Rightarrow> bytes \<Rightarrow> 'w \<Rightarrow> bool \<times> 'w mstate" where
  "write_wire m type transfer_id sequence offset status payload w =
     (case encode_frame type 0 transfer_id sequence offset status payload
             (tm_decoded_frame m) (tm_encoded_body m) (tm_wire_frame m) of
        Some (Some (wire, wire_length)) \<Rightarrow>
          let m = m\<lparr>tm_wire_frame := wire\<rparr> in
          (case tm_output m of
             None \<Rightarrow> (False, m, w)
           | Some write \<Rightarrow> let (sent, w) = write (take wire_length wire) w in (sent, m, w))
      | _ \<Rightarrow> (False, m, w))"

definition send_ack_values ::
  "'w TransferManager \<Rightarrow> u32 \<Rightarrow> u32 \<Rightarrow> u64 \<Rightarrow> 'w \<Rightarrow> bool \<times> 'w mstate" where
  "send_ack_values m transfer_id sequence offset w =
     write_wire m Ack transfer_id sequence offset 0 [] w"

definition send_ack :: "'w TransferManager \<Rightarrow> 'w \<Rightarrow> 'w mstate" where
  "send_ack m w =
     (let (sent, m, w) =
        send_ack_values m (tm_transfer_id m) (tm_expected_sequence m) (tm_expected_offset m) w in
      if \<not> sent then finish_active m Aborted OutputError w else (m, w))"

definition send_nack :: "'w TransferManager \<Rightarrow> NackReason \<Rightarrow> 'w \<Rightarrow> 'w mstate" where
  "send_nack m reason w =
     (let (sent, m, w) =
        write_wire m Nack (tm_transfer_id m) (tm_expected_sequence m) (tm_expected_offset m)
          (nack_status reason) [] w in
      if \<not> sent then finish_active m Aborted OutputError w else (m, w))"

definition is_valid_nack_reason :: "u16 \<Rightarrow> bool" where
  "is_valid_nack_reason reason \<longleftrightarrow>
     reason \<in> set (map nack_status [BadCrc, BadSequence, BadOffset, InvalidLength,
       NackUnknownTransfer, NackTransferClosed, BadHeader, WrongDirection])"

definition is_older_control_pair :: "u32 \<Rightarrow> u64 \<Rightarrow> u32 \<Rightarrow> u64 \<Rightarrow> bool" where
  "is_older_control_pair sequence offset current_sequence current_offset \<longleftrightarrow>
     sequence < current_sequence \<and> offset < current_offset"

definition is_stale_ack_pair :: "u32 \<Rightarrow> u64 \<Rightarrow> u32 \<Rightarrow> u64 \<Rightarrow> bool" where
  "is_stale_ack_pair sequence offset current_sequence current_offset \<longleftrightarrow>
     (sequence = current_sequence \<and> offset = current_offset) \<or>
     is_older_control_pair sequence offset current_sequence current_offset"

subsection \<open>History of accepted frames\<close>

definition matches_identity :: "DataIdentity \<Rightarrow> ParsedFrame \<Rightarrow> bool" where
  "matches_identity identity frame \<longleftrightarrow>
     di_valid identity \<and> di_sequence identity = pf_sequence frame \<and>
     di_offset identity = pf_offset frame \<and>
     di_payload_length identity = pf_payload_length frame \<and>
     di_wire_crc identity = pf_wire_crc frame"

definition identity_of :: "ParsedFrame \<Rightarrow> DataIdentity" where
  "identity_of frame = \<lparr>di_valid = True, di_sequence = pf_sequence frame, di_offset = pf_offset frame,
     di_payload_length = pf_payload_length frame, di_wire_crc = pf_wire_crc frame\<rparr>"

definition remember_accepted_data :: "'w TransferManager \<Rightarrow> ParsedFrame \<Rightarrow> 'w TransferManager" where
  "remember_accepted_data m frame =
     (let capacity = (if tm_transport m = WindowedGbnV1 then kMaxWindowFrames else 1);
          count = tm_accepted_data_history_count m;
          history = tm_accepted_data_history m
      in if count < capacity
         then m\<lparr>tm_accepted_data_history := history[count := identity_of frame],
                tm_accepted_data_history_count := count + 1\<rparr>
         else
           let history = fold (\<lambda>index h. h[index - 1 := h ! index]) [1..<capacity] history
           in m\<lparr>tm_accepted_data_history := history[capacity - 1 := identity_of frame]\<rparr>)"

definition capture_terminal_history :: "'w TransferManager \<Rightarrow> 'w TransferManager" where
  "capture_terminal_history m =
     (let count = tm_accepted_data_history_count m;
          replay = tm_final_ack_replay m
      in m\<lparr>tm_final_ack_replay := replay\<lparr>far_identity_count := count,
           far_identities := fold (\<lambda>index ids. ids[index := tm_accepted_data_history m ! index])
             [0..<count] (far_identities replay)\<rparr>\<rparr>)"

subsection \<open>Sending side\<close>

definition prepare_tx_payload :: "'w TransferManager \<Rightarrow> 'w \<Rightarrow> 'w mstate" where
  "prepare_tx_payload m w =
     (let remaining = tm_total_bytes m - tm_tx_offset m;
          requested = (if unat remaining > kMaxPayloadBytes then kMaxPayloadBytes
                       else unat remaining)
      in case ep_produce (tm_endpoint m) of
           None \<Rightarrow> finish_active m Aborted EndpointIoError w
         | Some produce \<Rightarrow>
             let (result, out, produced, w) = produce (tm_tx_offset m) requested w;
                 m = m\<lparr>tm_tx_payload := overwrite (tm_tx_payload m) 0 (take requested out)\<rparr>
             in if result \<noteq> EndpointOk \<or> produced \<noteq> requested
                then finish_active m Aborted EndpointIoError w
                else (m\<lparr>tm_tx_length := word_of_nat produced, tm_tx_retries := 0,
                        tm_tx_crc := crc32_update (tm_tx_crc m)
                          (take (unat (word_of_nat produced :: u16)) (tm_tx_payload m)),
                        tm_tx_frame_ready := True\<rparr>, w))"

definition send_current_tx :: "'w TransferManager \<Rightarrow> u32 \<Rightarrow> 'w \<Rightarrow> 'w mstate" where
  "send_current_tx m now_ms w =
     (if \<not> tm_active m then (m, w)
      else if \<not> tm_tx_frame_ready m then finish_active m Aborted OutputError w
      else
        let (sent, m, w) =
          write_wire m Data (tm_transfer_id m) (tm_tx_sequence m) (tm_tx_offset m) 0
            (take (unat (tm_tx_length m)) (tm_tx_payload m)) w in
        if \<not> sent then finish_active m Aborted OutputError w
        else (m\<lparr>tm_tx_waiting_ack := True, tm_tx_last_sent_ms := now_ms\<rparr>, w))"

definition retry_current_tx :: "'w TransferManager \<Rightarrow> u32 \<Rightarrow> 'w \<Rightarrow> 'w mstate" where
  "retry_current_tx m now_ms w =
     (if tm_tx_retries m \<ge> kMaxRetransmissions then finish_active m Aborted RetryExhausted w
      else send_current_tx (m\<lparr>tm_tx_retries := tm_tx_retries m + 1\<rparr>) now_ms w)"

definition finish_endpoint :: "'w TransferManager \<Rightarrow> 'w \<Rightarrow> bool \<times> 'w" where
  "finish_endpoint m w =
     (case ep_finish (tm_endpoint m) of
        None \<Rightarrow> (False, w)
      | Some f \<Rightarrow> let (result, w) = f w in (result = EndpointOk, w))"

definition handle_tx_ack ::
  "'w TransferManager \<Rightarrow> ParsedFrame \<Rightarrow> u32 \<Rightarrow> 'w \<Rightarrow> 'w mstate" where
  "handle_tx_ack m frame now_ms w =
     (if pf_transfer_id frame \<noteq> tm_transfer_id m \<or> \<not> pf_crc_valid frame \<or> \<not> tm_tx_waiting_ack m
      then (m, w)
      else if pf_payload_length frame \<noteq> 0 then finish_active m Aborted ProtocolError w
      else if pf_type frame = Nack then
        if \<not> is_valid_nack_reason (pf_status frame) then finish_active m Aborted ProtocolError w
        else if pf_sequence frame = tm_tx_sequence m \<and> pf_offset frame = tm_tx_offset m
        then retry_current_tx m now_ms w
        else if is_older_control_pair (pf_sequence frame) (pf_offset frame)
                  (tm_tx_sequence m) (tm_tx_offset m)
        then (m, w)
        else finish_active m Aborted ProtocolError w
      else if pf_type frame \<noteq> Ack then (m, w)
      else if pf_status frame \<noteq> 0 then finish_active m Aborted ProtocolError w
      else
        let expected_sequence = tm_tx_sequence m + 1;
            expected_offset = tm_tx_offset m + ucast (tm_tx_length m)
        in if pf_sequence frame = expected_sequence \<and> pf_offset frame = expected_offset then
             let m = m\<lparr>tm_transferred_bytes := expected_offset,
                       tm_expected_sequence := expected_sequence,
                       tm_expected_offset := expected_offset,
                       tm_tx_waiting_ack := False, tm_tx_frame_ready := False\<rparr>
             in if tm_transferred_bytes m = tm_total_bytes m then
                  let (ok, w) = finish_endpoint m w in
                  if \<not> ok then finish_active m Aborted EndpointFinishError w
                  else finish_active (m\<lparr>tm_endpoint_finalized := True\<rparr>) Completed ReasonCompleted w
                else (m\<lparr>tm_tx_sequence := expected_sequence, tm_tx_offset := expected_offset\<rparr>, w)
           else if is_stale_ack_pair (pf_sequence frame) (pf_offset frame)
                     (tm_tx_sequence m) (tm_tx_offset m)
           then (m, w)
           else finish_active m Aborted ProtocolError w)"

subsection \<open>Receiving side\<close>

definition accept_rx_data :: "'w TransferManager \<Rightarrow> ParsedFrame \<Rightarrow> 'w TransferManager" where
  "accept_rx_data m frame =
     (let m = m\<lparr>tm_running_crc := crc32_update (tm_running_crc m) (pf_payload frame)\<rparr>;
          m = remember_accepted_data m frame
      in m\<lparr>tm_transferred_bytes := tm_transferred_bytes m + ucast (pf_payload_length frame),
           tm_expected_sequence := tm_expected_sequence m + 1,
           tm_expected_offset := tm_expected_offset m + ucast (pf_payload_length frame)\<rparr>)"

definition complete_rx :: "'w TransferManager \<Rightarrow> 'w \<Rightarrow> 'w mstate" where
  "complete_rx m w =
     (let (ok, w) = finish_endpoint m w in
      if \<not> ok then finish_active m Aborted EndpointFinishError w
      else
        let m = m\<lparr>tm_endpoint_finalized := True,
                  tm_final_ack_replay := (tm_final_ack_replay m)
                    \<lparr>far_valid := True, far_transfer_id := tm_transfer_id m\<rparr>\<rparr>;
            m = capture_terminal_history m;
            m = m\<lparr>tm_final_ack_replay := (tm_final_ack_replay m)
                    \<lparr>far_acknowledged_sequence := tm_expected_sequence m,
                     far_acknowledged_offset := tm_expected_offset m\<rparr>\<rparr>;
            (m, w) = finish_active m Completed ReasonCompleted w;
            (sent, m, w) = send_ack_values m (tm_transfer_id m)
              (far_acknowledged_sequence (tm_final_ack_replay m))
              (far_acknowledged_offset (tm_final_ack_replay m)) w
        in (m, w))"

definition handle_rx_data :: "'w TransferManager \<Rightarrow> ParsedFrame \<Rightarrow> 'w \<Rightarrow> 'w mstate" where
  "handle_rx_data m frame w =
     (if pf_transfer_id frame \<noteq> tm_transfer_id m then (m, w)
      else if \<not> pf_crc_valid frame then send_nack m BadCrc w
      else if list_ex (\<lambda>identity. matches_identity identity frame)
                (take (tm_accepted_data_history_count m) (tm_accepted_data_history m))
      then send_ack m w
      else if pf_payload_length frame = 0 \<or>
              ucast (pf_payload_length frame) > tm_total_bytes m - tm_transferred_bytes m
      then send_nack m InvalidLength w
      else if pf_sequence frame \<noteq> tm_expected_sequence m then send_nack m BadSequence w
      else if pf_offset frame \<noteq> tm_expected_offset m then send_nack m BadOffset w
      else
        case ep_consume (tm_endpoint m) of
          None \<Rightarrow> finish_active m Aborted EndpointIoError w
        | Some consume \<Rightarrow>
            let (result, w) = consume (pf_offset frame) (pf_payload frame) w in
            if result \<noteq> EndpointOk then finish_active m Aborted EndpointIoError w
            else
              let m = accept_rx_data m frame in
              if tm_transferred_bytes m \<noteq> tm_total_bytes m then send_ack m w
              else complete_rx m w)"

subsection \<open>Public operations\<close>

definition endpoint_incomplete :: "Direction \<Rightarrow> 'w TransferEndpoint \<Rightarrow> bool" where
  "endpoint_incomplete direction endpoint \<longleftrightarrow>
     \<not> ep_context endpoint \<or> ep_begin endpoint = None \<or> ep_finish endpoint = None \<or>
     ep_abort endpoint = None \<or> ep_terminal endpoint = None \<or>
     (direction = HostToDevice \<and> ep_consume endpoint = None) \<or>
     (direction = DeviceToHost \<and> ep_produce endpoint = None)"

definition options_unsupported :: "Direction \<Rightarrow> TransferOptions \<Rightarrow> bool" where
  "options_unsupported direction options \<longleftrightarrow>
     (to_transport options = StopAndWait \<and> to_window_frames options \<noteq> 1) \<or>
     (to_transport options = WindowedGbnV1 \<and>
      (to_window_frames options \<noteq> word_of_nat kMaxWindowFrames \<or> direction \<noteq> HostToDevice))"

definition begin_common ::
  "'w TransferManager \<Rightarrow> u64 \<Rightarrow> Direction \<Rightarrow> 'w TransferEndpoint \<Rightarrow> TransferOptions \<Rightarrow> 'w \<Rightarrow>
   (ManagerError \<times> TransferInfo option) \<times> 'w mstate" where
  "begin_common m size_bytes direction endpoint options w =
     (if endpoint_incomplete direction endpoint then ((InvalidParams, None), m, w)
      else if options_unsupported direction options then ((InvalidParams, None), m, w)
      else if tm_active m then ((Busy, None), m, w)
      else if size_bytes = 0 \<or> size_bytes > kMaxTransferBytes then ((InvalidSize, None), m, w)
      else
        let (result, w) = the (ep_begin endpoint) direction size_bytes w in
        if result \<noteq> EndpointOk then ((InvalidParams, None), m, w)
        else
          let next_id = (if tm_next_transfer_id m = 0 then 1 else tm_next_transfer_id m);
              next' = (if next_id + 1 = 0 then 1 else next_id + 1);
              m = default_manager
                \<lparr>tm_output := tm_output m, tm_endpoint := endpoint,
                 tm_endpoint_started := True, tm_active := True, tm_direction := direction,
                 tm_transport := to_transport options,
                 tm_window_frames := to_window_frames options, tm_state := Active,
                 tm_transfer_id := next_id, tm_next_transfer_id := next',
                 tm_total_bytes := size_bytes, tm_running_crc := crc32_init, tm_tx_crc := crc32_init,
                 tm_terminal_valid := False, tm_terminal_has_crc := False,
                 tm_final_ack_replay := default_replay\<lparr>far_valid := False\<rparr>,
                 tm_tx_pending_start := (direction = DeviceToHost)\<rparr>
          in ((ManagerOk, Some (current_info m)), m, w))"

definition init :: "'w TransferManager \<Rightarrow> 'w sink \<Rightarrow> 'w TransferManager" where
  "init m sink =
     (let next_id = (if tm_next_transfer_id m = 0 then 1 else tm_next_transfer_id m)
      in default_manager\<lparr>tm_output := sink, tm_next_transfer_id := next_id\<rparr>)"

definition begin_rx ::
  "'w TransferManager \<Rightarrow> u64 \<Rightarrow> 'w TransferEndpoint \<Rightarrow> TransferOptions \<Rightarrow> 'w \<Rightarrow>
   (ManagerError \<times> TransferInfo option) \<times> 'w mstate" where
  "begin_rx m size_bytes endpoint options w = begin_common m size_bytes HostToDevice endpoint options w"

definition begin_rx_default ::
  "'w TransferManager \<Rightarrow> u64 \<Rightarrow> 'w TransferEndpoint \<Rightarrow> 'w \<Rightarrow>
   (ManagerError \<times> TransferInfo option) \<times> 'w mstate" where
  "begin_rx_default m size_bytes endpoint w = begin_common m size_bytes HostToDevice endpoint default_options w"

definition begin_tx ::
  "'w TransferManager \<Rightarrow> u64 \<Rightarrow> 'w TransferEndpoint \<Rightarrow> 'w \<Rightarrow>
   (ManagerError \<times> TransferInfo option) \<times> 'w mstate" where
  "begin_tx m size_bytes endpoint w = begin_common m size_bytes DeviceToHost endpoint default_options w"

definition get_status ::
  "'w TransferManager \<Rightarrow> u32 \<Rightarrow> ManagerError \<times> TransferInfo option" where
  "get_status m transfer_id =
     (if tm_active m \<and> transfer_id = tm_transfer_id m then (ManagerOk, Some (current_info m))
      else if tm_terminal_valid m \<and> transfer_id = ti_transfer_id (tm_terminal m)
      then (ManagerOk, Some (tm_terminal m))
      else (UnknownTransfer, None))"

definition abort ::
  "'w TransferManager \<Rightarrow> u32 \<Rightarrow> 'w \<Rightarrow> (ManagerError \<times> TransferInfo option) \<times> 'w mstate" where
  "abort m transfer_id w =
     (if tm_active m \<and> transfer_id = tm_transfer_id m then
        let (m, w) = finish_active m Aborted ExplicitAbort w
        in ((ManagerOk, Some (tm_terminal m)), m, w)
      else if tm_terminal_valid m \<and> transfer_id = ti_transfer_id (tm_terminal m)
      then ((ManagerOk, Some (tm_terminal m)), m, w)
      else ((UnknownTransfer, None), m, w))"

definition handle_decoded_frame :: "'w TransferManager \<Rightarrow> bytes \<Rightarrow> u32 \<Rightarrow> 'w \<Rightarrow> 'w mstate" where
  "handle_decoded_frame m decoded now_ms w =
     (case parse_decoded decoded of
        None \<Rightarrow>
          if tm_active m \<and> length decoded \<ge> 12 \<and> get_u32 decoded 8 = tm_transfer_id m
          then send_nack m BadHeader w else (m, w)
      | Some frame \<Rightarrow>
          if \<not> pf_crc_valid frame then
            if tm_active m \<and> pf_transfer_id frame = tm_transfer_id m
            then send_nack m BadCrc w else (m, w)
          else if \<not> tm_active m then
            let replay = tm_final_ack_replay m in
            if pf_type frame = Data \<and> far_valid replay \<and>
               pf_transfer_id frame = far_transfer_id replay \<and>
               list_ex (\<lambda>identity. matches_identity identity frame)
                 (take (far_identity_count replay) (far_identities replay))
            then snd (send_ack_values m (far_transfer_id replay) (far_acknowledged_sequence replay)
                        (far_acknowledged_offset replay) w)
            else (m, w)
          else
            let m = m\<lparr>tm_activity_pending := True\<rparr> in
            if tm_direction m = HostToDevice then
              if pf_type frame \<noteq> Data then send_nack m WrongDirection w
              else handle_rx_data m frame w
            else if pf_type frame \<noteq> Ack \<and> pf_type frame \<noteq> Nack then send_nack m WrongDirection w
            else handle_tx_ack m frame now_ms w)"

definition poll :: "'w TransferManager \<Rightarrow> u32 \<Rightarrow> 'w \<Rightarrow> 'w mstate" where
  "poll m now_ms w =
     (if \<not> tm_active m then (m, w)
      else
        let m = (if tm_activity_pending m
                 then m\<lparr>tm_last_activity_ms := now_ms, tm_activity_pending := False\<rparr> else m);
            m = (if tm_last_activity_ms m = 0 then m\<lparr>tm_last_activity_ms := now_ms\<rparr> else m)
        in if elapsed now_ms (tm_last_activity_ms m) kReceiverTimeoutMs
           then finish_active m Aborted ReceiverTimeout w
           else if tm_direction m \<noteq> DeviceToHost then (m, w)
           else if tm_tx_pending_start m then
             let (m, w) = prepare_tx_payload (m\<lparr>tm_tx_pending_start := False\<rparr>) w
             in send_current_tx m now_ms w
           else if \<not> tm_tx_waiting_ack m then
             let (m, w) = (if \<not> tm_tx_frame_ready m then prepare_tx_payload m w else (m, w))
             in send_current_tx m now_ms w
           else if elapsed now_ms (tm_tx_last_sent_ms m) kAckTimeoutMs
           then retry_current_tx m now_ms w
           else (m, w))"

definition error_code :: "ManagerError \<Rightarrow> string" where
  "error_code e =
     (case e of ManagerOk \<Rightarrow> ''OK'' | Busy \<Rightarrow> ''BUSY'' | InvalidSize \<Rightarrow> ''INVALID_SIZE''
      | UnknownTransfer \<Rightarrow> ''UNKNOWN_TRANSFER'' | TransferClosed \<Rightarrow> ''TRANSFER_CLOSED''
      | InvalidParams \<Rightarrow> ''INVALID_PARAMS'')"

definition error_message :: "ManagerError \<Rightarrow> string" where
  "error_message e =
     (case e of ManagerOk \<Rightarrow> ''operation completed''
      | Busy \<Rightarrow> ''another transfer is active''
      | InvalidSize \<Rightarrow> ''transfer size is outside the supported range''
      | UnknownTransfer \<Rightarrow> ''transfer is not known''
      | TransferClosed \<Rightarrow> ''transfer is closed''
      | InvalidParams \<Rightarrow> ''invalid binary transfer parameters'')"

definition direction_name :: "Direction \<Rightarrow> string" where
  "direction_name d = (if d = HostToDevice then ''host_to_device'' else ''device_to_host'')"

primrec state_name :: "TransferState \<Rightarrow> string" where
  "state_name Idle = ''idle''"
| "state_name Active = ''active''"
| "state_name Completed = ''completed''"
| "state_name Aborted = ''aborted''"

end
