(* ===== verification/Transfer_Steps.thy ===== *)
theory Transfer_Steps
  imports Transfer_Manager
begin

section \<open>The transfer manager as a transition system\<close>

text \<open>
  The closed form of a terminal transition, what a frame transmission may change, and the atomic
  steps \<open>tm_step\<close> of the manager with the proof that every public operation is a sequence of them. The
  parameter \<open>F\<close> of the step relation restricts the frames whose data the manager takes in.
  \<open>manager_run\<close> is the manager under an arbitrary sequence of events.
\<close>

subsection \<open>Closed forms\<close>

definition closing_crc :: "'w TransferManager \<Rightarrow> TransferState \<Rightarrow> u32" where
  "closing_crc m state =
     (if state = Completed
      then crc32_finish (if tm_direction m = DeviceToHost then tm_tx_crc m else tm_running_crc m)
      else 0)"

definition closing_info :: "'w TransferManager \<Rightarrow> TransferState \<Rightarrow> TransferInfo" where
  "closing_info m state =
     \<lparr>ti_transfer_id = tm_transfer_id m, ti_direction = tm_direction m, ti_state = state,
      ti_total_bytes = tm_total_bytes m, ti_transferred_bytes = tm_transferred_bytes m,
      ti_expected_sequence = tm_expected_sequence m, ti_expected_offset = tm_expected_offset m,
      ti_crc32 = closing_crc m state, ti_has_crc32 = (state = Completed)\<rparr>"

definition closed :: "'w TransferManager \<Rightarrow> TransferState \<Rightarrow> 'w TransferManager" where
  "closed m state =
     m\<lparr>tm_state := state, tm_active := False, tm_tx_pending_start := False,
       tm_tx_frame_ready := False, tm_tx_waiting_ack := False,
       tm_endpoint_finalized := tm_endpoint_finalized m \<or> state \<noteq> Completed,
       tm_terminal := closing_info m state, tm_terminal_crc := closing_crc m state,
       tm_terminal_has_crc := (state = Completed), tm_terminal_valid := True,
       tm_terminal_notified := True\<rparr>"

definition call_abort :: "'w TransferManager \<Rightarrow> TransferState \<Rightarrow> TerminalReason \<Rightarrow> 'w \<Rightarrow> 'w" where
  "call_abort m state reason w =
     (if state \<noteq> Completed \<and> \<not> tm_endpoint_finalized m
      then case ep_abort (tm_endpoint m) of None \<Rightarrow> w | Some f \<Rightarrow> f reason w else w)"

definition call_terminal :: "'w TransferManager \<Rightarrow> TransferState \<Rightarrow> TerminalReason \<Rightarrow> 'w \<Rightarrow> 'w" where
  "call_terminal m state reason w =
     (case ep_terminal (tm_endpoint m) of None \<Rightarrow> w | Some f \<Rightarrow> f (closing_info m state) reason w)"

lemma current_info_closed:
  "(current_info m)\<lparr>ti_state := s, ti_crc32 := c, ti_has_crc32 := h\<rparr> =
   \<lparr>ti_transfer_id = tm_transfer_id m, ti_direction = tm_direction m, ti_state = s,
    ti_total_bytes = tm_total_bytes m, ti_transferred_bytes = tm_transferred_bytes m,
    ti_expected_sequence = tm_expected_sequence m, ti_expected_offset = tm_expected_offset m,
    ti_crc32 = c, ti_has_crc32 = h\<rparr>"
  by (simp add: current_info_def default_info_def Let_def)

lemma finish_active_closed:
  assumes "tm_active m" "tm_endpoint_started m" "\<not> tm_terminal_notified m"
  shows "finish_active m state reason w =
    (closed m state, call_terminal m state reason (call_abort m state reason w))"
  using assms
  by (cases "tm_endpoint_finalized m"; cases "state = Completed")
    (simp_all add: finish_active_def Let_def endpoint_abort_def notify_terminal_def closed_def
      call_abort_def call_terminal_def closing_info_def closing_crc_def current_info_closed
      split: option.split)

lemma write_wire_cases:
  assumes "write_wire m type transfer_id sequence offset status payload w = (sent, m', w')"
  shows "\<exists>wire. m' = m\<lparr>tm_wire_frame := wire\<rparr> \<and>
    (w' = w \<and> \<not> sent \<or> (\<exists>write bs. tm_output m = Some write \<and> write bs w = (sent, w')))"
proof -
  have "\<exists>wire. x = x\<lparr>tm_wire_frame := wire\<rparr>" for x :: "'a TransferManager"
    by (rule exI [of _ "tm_wire_frame x"]) simp
  with assms show ?thesis
    by (auto simp: write_wire_def Let_def split: option.splits prod.splits)
qed

lemma encode_frame_length:
  "encode_frame type flags transfer_id sequence offset status payload decoded encoded wire =
     Some (Some (out, n)) \<Longrightarrow> length out = length wire"
  by (auto simp: encode_frame_def Let_def length_overwrite cobs_encode_correct
      split: if_splits option.splits bind_splits dest!: encode_result_SomeD)

lemma write_wire_length:
  "write_wire m type transfer_id sequence offset status payload w = (sent, m', w') \<Longrightarrow>
   length (tm_wire_frame m') = length (tm_wire_frame m)"
  by (auto simp: write_wire_def Let_def dest!: encode_frame_length
      split: option.splits prod.splits)

subsection \<open>The manager as a transition system\<close>

text \<open>
  Each public operation is a short sequence of the following atomic steps (\<open>handle_frame_steps\<close>,
  \<open>poll_steps\<close>, \<open>abort_steps\<close> below), so a property of the manager is proved once per step.
\<close>

definition rx_acceptable :: "'w TransferManager \<Rightarrow> ParsedFrame \<Rightarrow> bool" where
  "rx_acceptable m frame \<longleftrightarrow>
     tm_active m \<and> tm_direction m = HostToDevice \<and> pf_type frame = Data \<and> pf_crc_valid frame \<and>
     pf_transfer_id frame = tm_transfer_id m \<and> pf_payload_length frame \<noteq> 0 \<and>
     ucast (pf_payload_length frame) \<le> tm_total_bytes m - tm_transferred_bytes m \<and>
     pf_sequence frame = tm_expected_sequence m \<and> pf_offset frame = tm_expected_offset m"

definition arm_replay :: "'w TransferManager \<Rightarrow> 'w TransferManager" where
  "arm_replay m =
     m\<lparr>tm_endpoint_finalized := True,
       tm_final_ack_replay :=
         \<lparr>far_valid = True, far_transfer_id = tm_transfer_id m,
          far_identities = fold (\<lambda>index ids. ids[index := tm_accepted_data_history m ! index])
             [0..<tm_accepted_data_history_count m] (far_identities (tm_final_ack_replay m)),
          far_identity_count = tm_accepted_data_history_count m,
          far_acknowledged_sequence = tm_expected_sequence m,
          far_acknowledged_offset = tm_expected_offset m\<rparr>\<rparr>"

definition advance_tx :: "'w TransferManager \<Rightarrow> 'w TransferManager" where
  "advance_tx m =
     m\<lparr>tm_transferred_bytes := tm_tx_offset m + ucast (tm_tx_length m),
       tm_expected_sequence := tm_tx_sequence m + 1,
       tm_expected_offset := tm_tx_offset m + ucast (tm_tx_length m),
       tm_tx_waiting_ack := False, tm_tx_frame_ready := False\<rparr>"

inductive tm_step :: "(ParsedFrame \<Rightarrow> bool) \<Rightarrow> 'w mstate \<Rightarrow> 'w mstate \<Rightarrow> bool"
  for F :: "ParsedFrame \<Rightarrow> bool" where
  Reply: "type = Ack \<or> type = Nack \<Longrightarrow>
    write_wire m type transfer_id sequence offset status [] w = (sent, m', w') \<Longrightarrow>
    tm_step F (m, w) (m', w')"
| Stop: "tm_active m \<Longrightarrow> tm_step F (m, w) (finish_active m Aborted reason w)"
| Clock: "tm_active m \<Longrightarrow>
    tm_step F (m, w) (m\<lparr>tm_last_activity_ms := t, tm_activity_pending := pending\<rparr>, w)"
| ConsumeFail: "rx_acceptable m frame \<Longrightarrow> ep_consume (tm_endpoint m) = Some consume \<Longrightarrow>
    consume (pf_offset frame) (pf_payload frame) w = (EndpointFailed, w') \<Longrightarrow>
    tm_step F (m, w) (finish_active m Aborted EndpointIoError w')"
| Accept: "rx_acceptable m frame \<Longrightarrow> parse_decoded decoded = Some frame \<Longrightarrow> F frame \<Longrightarrow>
    ep_consume (tm_endpoint m) = Some consume \<Longrightarrow>
    consume (pf_offset frame) (pf_payload frame) w = (EndpointOk, w') \<Longrightarrow>
    tm_transferred_bytes (accept_rx_data m frame) \<noteq> tm_total_bytes m \<Longrightarrow>
    tm_step F (m, w) (accept_rx_data m frame, w')"
| FinishFail: "rx_acceptable m frame \<Longrightarrow> parse_decoded decoded = Some frame \<Longrightarrow> F frame \<Longrightarrow>
    ep_consume (tm_endpoint m) = Some consume \<Longrightarrow>
    consume (pf_offset frame) (pf_payload frame) w = (EndpointOk, w') \<Longrightarrow>
    tm_transferred_bytes (accept_rx_data m frame) = tm_total_bytes m \<Longrightarrow>
    finish_endpoint m w' = (False, w'') \<Longrightarrow>
    tm_step F (m, w) (finish_active (accept_rx_data m frame) Aborted EndpointFinishError w'')"
| Complete: "rx_acceptable m frame \<Longrightarrow> parse_decoded decoded = Some frame \<Longrightarrow> F frame \<Longrightarrow>
    ep_consume (tm_endpoint m) = Some consume \<Longrightarrow>
    consume (pf_offset frame) (pf_payload frame) w = (EndpointOk, w') \<Longrightarrow>
    tm_transferred_bytes (accept_rx_data m frame) = tm_total_bytes m \<Longrightarrow>
    finish_endpoint m w' = (True, w'') \<Longrightarrow>
    tm_step F (m, w) (finish_active (arm_replay (accept_rx_data m frame)) Completed ReasonCompleted w'')"
| Produce: "tm_active m \<Longrightarrow> tm_direction m = DeviceToHost \<Longrightarrow>
    tm_tx_pending_start m \<or> \<not> tm_tx_waiting_ack m \<and> \<not> tm_tx_frame_ready m \<Longrightarrow>
    tm_step F (m, w) (prepare_tx_payload (m\<lparr>tm_tx_pending_start := False\<rparr>) w)"
| Transmit: "tm_active m \<Longrightarrow> tm_direction m = DeviceToHost \<Longrightarrow> tm_tx_frame_ready m \<Longrightarrow>
    write_wire m Data (tm_transfer_id m) (tm_tx_sequence m) (tm_tx_offset m) 0
      (take (unat (tm_tx_length m)) (tm_tx_payload m)) w = (sent, m', w') \<Longrightarrow>
    tm_step F (m, w)
      (if sent then (m'\<lparr>tm_tx_waiting_ack := True, tm_tx_last_sent_ms := now_ms\<rparr>, w')
       else finish_active m' Aborted OutputError w')"
| Retry: "tm_active m \<Longrightarrow> tm_direction m = DeviceToHost \<Longrightarrow> tm_tx_waiting_ack m \<Longrightarrow>
    tm_tx_retries m < kMaxRetransmissions \<Longrightarrow>
    tm_step F (m, w) (m\<lparr>tm_tx_retries := tm_tx_retries m + 1\<rparr>, w)"
| Advance: "tm_active m \<Longrightarrow> tm_direction m = DeviceToHost \<Longrightarrow> tm_tx_waiting_ack m \<Longrightarrow>
    tm_tx_offset m + ucast (tm_tx_length m) \<noteq> tm_total_bytes m \<Longrightarrow>
    tm_step F (m, w)
      ((advance_tx m)\<lparr>tm_tx_sequence := tm_tx_sequence m + 1,
         tm_tx_offset := tm_tx_offset m + ucast (tm_tx_length m)\<rparr>, w)"
| SendFinish: "tm_active m \<Longrightarrow> tm_direction m = DeviceToHost \<Longrightarrow> tm_tx_waiting_ack m \<Longrightarrow>
    tm_tx_offset m + ucast (tm_tx_length m) = tm_total_bytes m \<Longrightarrow>
    finish_endpoint m w = (ok, w') \<Longrightarrow>
    tm_step F (m, w)
      (if ok then finish_active ((advance_tx m)\<lparr>tm_endpoint_finalized := True\<rparr>) Completed
         ReasonCompleted w'
       else finish_active (advance_tx m) Aborted EndpointFinishError w')"

abbreviation tm_steps :: "(ParsedFrame \<Rightarrow> bool) \<Rightarrow> 'w mstate \<Rightarrow> 'w mstate \<Rightarrow> bool" where
  "tm_steps F \<equiv> rtranclp (tm_step F)"

lemma step_then: "tm_step F s t \<Longrightarrow> tm_steps F t u \<Longrightarrow> tm_steps F s u"
  by (rule converse_rtranclp_into_rtranclp)

lemma write_wire_fields:
  assumes "write_wire m type transfer_id sequence offset status payload w = (sent, m', w')"
  shows "tm_active m' = tm_active m" "tm_final_ack_replay m' = tm_final_ack_replay m"
    "tm_transfer_id m' = tm_transfer_id m"
  using write_wire_cases [OF assms] by auto

lemma reply_or_stop_steps:
  assumes "tm_active m" "type = Ack \<or> type = Nack"
  shows "tm_steps F (m, w)
    (let (sent, m, w) = write_wire m type transfer_id sequence offset status [] w in
     if \<not> sent then finish_active m Aborted OutputError w else (m, w))"
proof -
  obtain sent m' w' where
    eq: "write_wire m type transfer_id sequence offset status [] w = (sent, m', w')"
    by (cases "write_wire m type transfer_id sequence offset status [] w") auto
  then have "tm_step F (m, w) (m', w')" using assms(2) by (rule Reply [rotated])
  moreover have "tm_active m'" using write_wire_fields [OF eq] assms(1) by simp
  ultimately show ?thesis
    using eq by (auto intro: step_then Stop)
qed

lemma send_ack_steps: "tm_active m \<Longrightarrow> tm_steps F (m, w) (send_ack m w)"
  unfolding send_ack_def send_ack_values_def by (rule reply_or_stop_steps) simp_all

lemma send_nack_steps: "tm_active m \<Longrightarrow> tm_steps F (m, w) (send_nack m reason w)"
  unfolding send_nack_def by (rule reply_or_stop_steps) simp_all

lemma send_ack_values_step: "tm_step F (m, w) (snd (send_ack_values m transfer_id sequence offset w))"
  unfolding send_ack_values_def by (metis Reply prod.collapse)

lemma send_ack_values_steps:
  "tm_steps F (m, w) (snd (send_ack_values m transfer_id sequence offset w))"
  by (rule r_into_rtranclp) (rule send_ack_values_step)

lemma remember_fields:
  "\<exists>h c. remember_accepted_data m frame =
     m\<lparr>tm_accepted_data_history := h, tm_accepted_data_history_count := c\<rparr>"
  by (cases m) (simp add: remember_accepted_data_def Let_def)

lemma accept_rx_data_form:
  "\<exists>h c. accept_rx_data m frame =
     m\<lparr>tm_running_crc := crc32_update (tm_running_crc m) (pf_payload frame),
       tm_accepted_data_history := h, tm_accepted_data_history_count := c,
       tm_transferred_bytes := tm_transferred_bytes m + ucast (pf_payload_length frame),
       tm_expected_sequence := tm_expected_sequence m + 1,
       tm_expected_offset := tm_expected_offset m + ucast (pf_payload_length frame)\<rparr>"
proof -
  let ?m = "m\<lparr>tm_running_crc := crc32_update (tm_running_crc m) (pf_payload frame)\<rparr>"
  obtain h c where "remember_accepted_data ?m frame =
      ?m\<lparr>tm_accepted_data_history := h, tm_accepted_data_history_count := c\<rparr>"
    using remember_fields by blast
  then show ?thesis by (intro exI [of _ h] exI [of _ c]) (simp add: accept_rx_data_def Let_def)
qed

lemma finish_endpoint_cong: "tm_endpoint m = tm_endpoint m' \<Longrightarrow> finish_endpoint m w = finish_endpoint m' w"
  by (simp add: finish_endpoint_def)

lemma complete_rx_form:
  "complete_rx m w =
     (let (ok, w) = finish_endpoint m w in
      if \<not> ok then finish_active m Aborted EndpointFinishError w
      else let (m, w) = finish_active (arm_replay m) Completed ReasonCompleted w
           in snd (send_ack_values m (tm_transfer_id m)
                (far_acknowledged_sequence (tm_final_ack_replay m))
                (far_acknowledged_offset (tm_final_ack_replay m)) w))"
proof -
  have "capture_terminal_history (m\<lparr>tm_endpoint_finalized := True,
        tm_final_ack_replay := (tm_final_ack_replay m)\<lparr>far_valid := True,
          far_transfer_id := tm_transfer_id m\<rparr>\<rparr>)
      \<lparr>tm_final_ack_replay := (tm_final_ack_replay (capture_terminal_history
        (m\<lparr>tm_endpoint_finalized := True, tm_final_ack_replay := (tm_final_ack_replay m)
          \<lparr>far_valid := True, far_transfer_id := tm_transfer_id m\<rparr>\<rparr>)))
        \<lparr>far_acknowledged_sequence := tm_expected_sequence m,
         far_acknowledged_offset := tm_expected_offset m\<rparr>\<rparr> = arm_replay m"
    by (simp add: capture_terminal_history_def arm_replay_def Let_def)
  moreover have "tm_expected_sequence (capture_terminal_history m') = tm_expected_sequence m'"
    "tm_expected_offset (capture_terminal_history m') = tm_expected_offset m'"
    for m' :: "'a TransferManager"
    by (simp_all add: capture_terminal_history_def Let_def)
  ultimately show ?thesis
    by (simp add: complete_rx_def Let_def snd_def split: prod.split)
qed

lemma rx_acceptable_intro:
  assumes "tm_active m" "tm_direction m = HostToDevice" "pf_type frame = Data"
    and "\<not> pf_transfer_id frame \<noteq> tm_transfer_id m" "\<not> \<not> pf_crc_valid frame"
    and "\<not> (pf_payload_length frame = 0 \<or>
         ucast (pf_payload_length frame) > tm_total_bytes m - tm_transferred_bytes m)"
    and "\<not> pf_sequence frame \<noteq> tm_expected_sequence m" "\<not> pf_offset frame \<noteq> tm_expected_offset m"
  shows "rx_acceptable m frame"
  using assms by (auto simp: rx_acceptable_def)

lemma accept_tail_steps:
  assumes ok: "rx_acceptable m frame" "parse_decoded decoded = Some frame" "F frame"
    and c: "ep_consume (tm_endpoint m) = Some consume"
      "consume (pf_offset frame) (pf_payload frame) w = (EndpointOk, w')"
  defines "m' \<equiv> accept_rx_data m frame"
  shows "tm_steps F (m, w)
    (if tm_transferred_bytes m' \<noteq> tm_total_bytes m' then send_ack m' w' else complete_rx m' w')"
proof -
  have [simp]: "tm_total_bytes m' = tm_total_bytes m" "tm_active m'" "tm_endpoint m' = tm_endpoint m"
    using accept_rx_data_form [of m frame] ok(1) by (auto simp: m'_def rx_acceptable_def)
  show ?thesis
  proof (cases "tm_transferred_bytes m' = tm_total_bytes m")
    case False
    then have "tm_step F (m, w) (m', w')"
      using Accept [where F = F, OF ok c] by (simp add: m'_def)
    with False show ?thesis by (simp add: step_then send_ack_steps)
  next
    case True
    obtain fin w'' where f: "finish_endpoint m w' = (fin, w'')" by force
    then have f': "finish_endpoint m' w' = (fin, w'')"
      using finish_endpoint_cong [of m' m w'] by simp
    show ?thesis
    proof (cases fin)
      case True
      with f \<open>tm_transferred_bytes m' = tm_total_bytes m\<close>
      have "tm_step F (m, w) (finish_active (arm_replay m') Completed ReasonCompleted w'')"
        using Complete [where F = F, OF ok c] by (simp add: m'_def)
      with True f' \<open>tm_transferred_bytes m' = tm_total_bytes m\<close> show ?thesis
        by (auto simp: complete_rx_form split: prod.split
            intro: step_then [OF _ send_ack_values_steps])
    next
      case False
      with f \<open>tm_transferred_bytes m' = tm_total_bytes m\<close>
      have "tm_step F (m, w) (finish_active m' Aborted EndpointFinishError w'')"
        using FinishFail [where F = F, OF ok c] by (simp add: m'_def)
      with False f' \<open>tm_transferred_bytes m' = tm_total_bytes m\<close> show ?thesis
        by (simp add: complete_rx_form r_into_rtranclp)
    qed
  qed
qed

lemma handle_rx_data_steps:
  assumes "tm_active m" "tm_direction m = HostToDevice" "pf_type frame = Data"
    and p: "parse_decoded decoded = Some frame" "F frame"
  shows "tm_steps F (m, w) (handle_rx_data m frame w)"
proof -
  note replies = send_ack_steps [OF assms(1)] send_nack_steps [OF assms(1)]
  have stop: "tm_steps F (m, w) (finish_active m Aborted reason w)" for reason
    using assms(1) by (intro r_into_rtranclp Stop)
  have fail: "tm_steps F (m, w) (finish_active m Aborted EndpointIoError w')"
    if "rx_acceptable m frame" "ep_consume (tm_endpoint m) = Some consume"
      "consume (pf_offset frame) (pf_payload frame) w = (EndpointFailed, w')" for consume w'
    using that by (intro r_into_rtranclp ConsumeFail)
  have consumed: "tm_steps F (m, w)
      (case consume (pf_offset frame) (pf_payload frame) w of (result, w) \<Rightarrow>
        if result \<noteq> EndpointOk then finish_active m Aborted EndpointIoError w
        else if tm_transferred_bytes (accept_rx_data m frame) \<noteq> tm_total_bytes (accept_rx_data m frame)
        then send_ack (accept_rx_data m frame) w else complete_rx (accept_rx_data m frame) w)"
    if acc: "rx_acceptable m frame" "ep_consume (tm_endpoint m) = Some consume" for consume
  proof (cases "consume (pf_offset frame) (pf_payload frame) w")
    case (Pair r w')
    then show ?thesis
      using fail [OF acc] accept_tail_steps [where F = F, OF acc(1) p acc(2)] by (cases r) auto
  qed
  show ?thesis
    unfolding handle_rx_data_def Let_def
  proof (intro if_rule [where P = "tm_steps F (m, w)"] replies rtranclp.rtrancl_refl, goal_cases)
    case 1
    then have "rx_acceptable m frame" by (intro rx_acceptable_intro assms)
    from consumed [OF this] show ?case
      by (cases "ep_consume (tm_endpoint m)") (simp_all only: option.case stop)
  qed
qed

lemma send_current_tx_steps:
  assumes "tm_direction m = DeviceToHost"
  shows "tm_steps F (m, w) (send_current_tx m now_ms w)"
proof (cases "tm_active m \<and> tm_tx_frame_ready m")
  case True
  obtain sent m' w' where eq: "write_wire m Data (tm_transfer_id m) (tm_tx_sequence m)
      (tm_tx_offset m) 0 (take (unat (tm_tx_length m)) (tm_tx_payload m)) w = (sent, m', w')"
    by (metis prod_cases3)
  with True assms Transmit [OF _ _ _ eq, where F = F and now_ms = now_ms] show ?thesis
    by (cases sent) (auto simp: send_current_tx_def)
next
  case False
  then show ?thesis by (auto simp: send_current_tx_def intro: Stop)
qed

lemma retry_current_tx_steps:
  assumes "tm_active m" "tm_direction m = DeviceToHost" "tm_tx_waiting_ack m"
  shows "tm_steps F (m, w) (retry_current_tx m now_ms w)"
proof (cases "tm_tx_retries m < kMaxRetransmissions")
  case True
  let ?m = "m\<lparr>tm_tx_retries := tm_tx_retries m + 1\<rparr>"
  have "tm_step F (m, w) (?m, w)" using assms True by (rule Retry)
  moreover have "tm_steps F (?m, w) (send_current_tx ?m now_ms w)"
    using assms by (intro send_current_tx_steps) simp
  ultimately show ?thesis using True by (simp add: retry_current_tx_def step_then)
next
  case False
  with assms show ?thesis by (auto simp: retry_current_tx_def intro: Stop)
qed

lemma handle_tx_ack_form:
  assumes "pf_transfer_id frame = tm_transfer_id m" "pf_crc_valid frame" "tm_tx_waiting_ack m"
    and "pf_payload_length frame = 0" "pf_type frame = Ack" "pf_status frame = 0"
    and "pf_sequence frame = tm_tx_sequence m + 1"
      "pf_offset frame = tm_tx_offset m + ucast (tm_tx_length m)"
  shows "handle_tx_ack m frame now_ms w =
    (if tm_tx_offset m + ucast (tm_tx_length m) = tm_total_bytes m then
       let (ok, w) = finish_endpoint m w in
       if ok then finish_active ((advance_tx m)\<lparr>tm_endpoint_finalized := True\<rparr>) Completed
         ReasonCompleted w
       else finish_active (advance_tx m) Aborted EndpointFinishError w
     else ((advance_tx m)\<lparr>tm_tx_sequence := tm_tx_sequence m + 1,
       tm_tx_offset := tm_tx_offset m + ucast (tm_tx_length m)\<rparr>, w))"
proof -
  obtain ok w' where f: "finish_endpoint m w = (ok, w')" by force
  then have "tm_endpoint x = tm_endpoint m \<Longrightarrow> finish_endpoint x w = (ok, w')" for x
    using finish_endpoint_cong [of x m w] by simp
  with assms show ?thesis
    by (simp add: handle_tx_ack_def Let_def advance_tx_def)
qed

lemma handle_tx_ack_steps:
  assumes act: "tm_active m" "tm_direction m = DeviceToHost"
  shows "tm_steps F (m, w) (handle_tx_ack m frame now_ms w)"
proof (cases "pf_transfer_id frame = tm_transfer_id m \<and> pf_crc_valid frame \<and> tm_tx_waiting_ack m \<and>
    pf_payload_length frame = 0 \<and> pf_type frame = Ack \<and> pf_status frame = 0 \<and>
    pf_sequence frame = tm_tx_sequence m + 1 \<and>
    pf_offset frame = tm_tx_offset m + ucast (tm_tx_length m)")
  case True
  then have wait: "tm_tx_waiting_ack m" by blast
  obtain ok w' where "finish_endpoint m w = (ok, w')" by force
  with act wait SendFinish [OF act wait, where F = F and w = w and ok = ok and w' = w']
    Advance [OF act wait, where F = F and w = w] show ?thesis
    using True by (cases ok) (auto simp: handle_tx_ack_form)
next
  case False
  have "tm_steps F (m, w) (finish_active m Aborted reason w)" for reason
    using act by (intro r_into_rtranclp Stop)
  moreover have "tm_tx_waiting_ack m \<Longrightarrow> tm_steps F (m, w) (retry_current_tx m now_ms w)"
    using act by (rule retry_current_tx_steps)
  ultimately show ?thesis
    unfolding handle_tx_ack_def Let_def using False by (auto simp only: split: if_split)
qed

lemma handle_frame_steps:
  assumes F: "\<And>frame. parse_decoded decoded = Some frame \<Longrightarrow> F frame"
  shows "tm_steps F (m, w) (handle_decoded_frame m decoded now_ms w)"
proof (cases "parse_decoded decoded")
  case None
  then show ?thesis by (simp add: handle_decoded_frame_def send_nack_steps)
next
  case (Some frame)
  let ?m = "m\<lparr>tm_activity_pending := True\<rparr>"
  have c: "tm_step F (m, w) (?m, w)" if "tm_active m"
    using Clock [OF that, where F = F and t = "tm_last_activity_ms m" and pending = True and w = w] by simp
  show ?thesis
  proof (cases "pf_crc_valid frame \<and> tm_active m")
    case True
    then have "tm_steps F (?m, w) (send_nack ?m WrongDirection w)" by (intro send_nack_steps) simp
    moreover have "tm_steps F (?m, w) (handle_rx_data ?m frame w)"
      if "tm_direction m = HostToDevice" "pf_type frame = Data"
      using True that Some F [OF Some] by (intro handle_rx_data_steps [of _ _ decoded]) simp_all
    moreover have "tm_steps F (?m, w) (handle_tx_ack ?m frame now_ms w)"
      if "tm_direction m \<noteq> HostToDevice"
      using True that by (intro handle_tx_ack_steps) (auto intro: Direction.exhaust)
    ultimately show ?thesis
      using True Some step_then [OF c] by (auto simp: handle_decoded_frame_def Let_def)
  next
    case False
    with Some show ?thesis
      by (auto simp: handle_decoded_frame_def Let_def send_nack_steps send_ack_values_steps)
  qed
qed

lemma finish_active_direction [simp]: "tm_direction (fst (finish_active m st r w)) = tm_direction m"
  by (auto simp: finish_active_def Let_def endpoint_abort_def notify_terminal_def
      split: prod.splits if_splits)

lemma prepare_active_direction [simp]:
  "tm_direction (fst (prepare_tx_payload m w)) = tm_direction m"
  by (auto simp: prepare_tx_payload_def Let_def split: option.split prod.split)

lemma poll_steps: "tm_steps F (m, w) (poll m now_ms w)"
proof (cases "tm_active m")
  case True
  define t where "t = (let t = if tm_activity_pending m then now_ms else tm_last_activity_ms m
    in if t = 0 then now_ms else t)"
  define m' where "m' = m\<lparr>tm_last_activity_ms := t, tm_activity_pending := False\<rparr>"
  have m': "(let m = (if tm_activity_pending m
                 then m\<lparr>tm_last_activity_ms := now_ms, tm_activity_pending := False\<rparr> else m)
      in if tm_last_activity_ms m = 0 then m\<lparr>tm_last_activity_ms := now_ms\<rparr> else m) = m'"
    by (cases m) (auto simp: m'_def t_def Let_def)
  have act: "tm_active m'" using True by (simp add: m'_def)
  have clock: "tm_step F (m, w) (m', w)" unfolding m'_def by (rule Clock [OF True])
  have stop: "tm_steps F (m', w) (finish_active m' Aborted reason w)" for reason
    using act by (intro r_into_rtranclp Stop)
  have send: "tm_steps F (m', w)
      (let (m, w) = prepare_tx_payload (m'\<lparr>tm_tx_pending_start := False\<rparr>) w
       in send_current_tx m now_ms w)"
    if d: "tm_direction m' = DeviceToHost"
      "tm_tx_pending_start m' \<or> \<not> tm_tx_waiting_ack m' \<and> \<not> tm_tx_frame_ready m'"
  proof -
    let ?p = "prepare_tx_payload (m'\<lparr>tm_tx_pending_start := False\<rparr>) w"
    have "tm_step F (m', w) ?p" using act d by (rule Produce)
    moreover have "tm_steps F (fst ?p, snd ?p) (send_current_tx (fst ?p) now_ms (snd ?p))"
      using d(1) by (intro send_current_tx_steps) (simp add: prepare_active_direction)
    ultimately show ?thesis by (auto simp: case_prod_beta intro: step_then)
  qed
  have send': "tm_steps F (m', w) (let (m, w) = prepare_tx_payload m' w in send_current_tx m now_ms w)"
    if "tm_direction m' = DeviceToHost" "\<not> tm_tx_pending_start m'"
      "\<not> tm_tx_waiting_ack m'" "\<not> tm_tx_frame_ready m'"
  proof -
    have "m'\<lparr>tm_tx_pending_start := False\<rparr> = m'" using that(2) by (cases m') simp
    with send that show ?thesis by simp
  qed
  have "tm_steps F (m', w) (if elapsed now_ms (tm_last_activity_ms m') kReceiverTimeoutMs
      then finish_active m' Aborted ReceiverTimeout w
      else if tm_direction m' \<noteq> DeviceToHost then (m', w)
      else if tm_tx_pending_start m' then
        let (m, w) = prepare_tx_payload (m'\<lparr>tm_tx_pending_start := False\<rparr>) w
        in send_current_tx m now_ms w
      else if \<not> tm_tx_waiting_ack m' then
        let (m, w) = (if \<not> tm_tx_frame_ready m' then prepare_tx_payload m' w else (m', w))
        in send_current_tx m now_ms w
      else if elapsed now_ms (tm_tx_last_sent_ms m') kAckTimeoutMs
      then retry_current_tx m' now_ms w
      else (m', w))"
    using stop send send' act
    by (auto simp: send_current_tx_steps retry_current_tx_steps)
  with True step_then [OF clock] show ?thesis
    unfolding poll_def m' [symmetric] Let_def by simp
qed (simp add: poll_def)

lemma abort_steps: "tm_steps F (m, w) (snd (abort m transfer_id w))"
proof (cases "tm_active m \<and> transfer_id = tm_transfer_id m")
  case True
  then have "tm_step F (m, w) (finish_active m Aborted ExplicitAbort w)" by (simp add: Stop)
  with True show ?thesis by (auto simp: abort_def split: prod.split)
qed (auto simp: abort_def)

subsection \<open>Runs\<close>

datatype tm_event = FrameEvent bytes u32 | PollEvent u32 | AbortEvent u32

primrec handle_event :: "tm_event \<Rightarrow> 'w mstate \<Rightarrow> 'w mstate" where
  "handle_event (FrameEvent decoded now_ms) s = handle_decoded_frame (fst s) decoded now_ms (snd s)"
| "handle_event (PollEvent now_ms) s = poll (fst s) now_ms (snd s)"
| "handle_event (AbortEvent transfer_id) s = snd (abort (fst s) transfer_id (snd s))"

definition manager_run :: "tm_event list \<Rightarrow> 'w mstate \<Rightarrow> 'w mstate" where
  "manager_run events s = fold handle_event events s"

primrec event_allowed :: "(ParsedFrame \<Rightarrow> bool) \<Rightarrow> tm_event \<Rightarrow> bool" where
  "event_allowed F (FrameEvent decoded now_ms) =
     (case parse_decoded decoded of None \<Rightarrow> True | Some frame \<Rightarrow> F frame)"
| "event_allowed F (PollEvent now_ms) = True"
| "event_allowed F (AbortEvent transfer_id) = True"

lemma event_allowed_all [simp]: "event_allowed (\<lambda>_. True) e"
  by (cases e) (simp_all split: option.split)

lemma handle_event_steps: "event_allowed F e \<Longrightarrow> tm_steps F s (handle_event e s)"
  using poll_steps abort_steps
  by (cases s; cases e) (auto intro: handle_frame_steps split: option.splits)

lemma manager_run_steps:
  "list_all (event_allowed F) events \<Longrightarrow> tm_steps F s (manager_run events s)"
proof (induction events arbitrary: s)
  case (Cons e events)
  then show ?case
    using handle_event_steps [of F e s] by (simp add: manager_run_def) (meson rtranclp_trans)
qed (simp add: manager_run_def)

text \<open>An invariant of the steps holds after every run.\<close>

lemma tm_steps_invariant:
  assumes "tm_steps F s t" "P s" and step: "\<And>s t. P s \<Longrightarrow> tm_step F s t \<Longrightarrow> P t"
  shows "P t"
  using assms(1,2) by (induction rule: rtranclp_induct) (auto intro: step)

end
