(* ===== verification/Transfer_Invariant.thy ===== *)
theory Transfer_Invariant
  imports Transfer_Steps
begin

section \<open>Invariant of the transfer manager\<close>

text \<open>
  \<open>manager_ok\<close> collects what holds of the manager record between operations; every atomic step, hence
  every operation, keeps it for arbitrary callbacks, frames and clock values.
\<close>

definition arrays_ok :: "'w TransferManager \<Rightarrow> bool" where
  "arrays_ok m \<longleftrightarrow>
     length (tm_tx_payload m) = kMaxPayloadBytes \<and>
     length (tm_decoded_frame m) = kMaxDecodedFrameBytes \<and>
     length (tm_encoded_body m) = kMaxEncodedBodyBytes \<and>
     length (tm_wire_frame m) = kMaxWireFrameBytes \<and>
     length (tm_accepted_data_history m) = kMaxWindowFrames \<and>
     length (far_identities (tm_final_ack_replay m)) = kMaxWindowFrames"

definition active_ok :: "'w TransferManager \<Rightarrow> bool" where
  "active_ok m \<longleftrightarrow>
     tm_state m = Active \<and> tm_endpoint_started m \<and> \<not> tm_endpoint_finalized m \<and>
     \<not> tm_terminal_notified m \<and> \<not> tm_terminal_valid m \<and> tm_transfer_id m \<noteq> 0 \<and>
     tm_total_bytes m \<le> kMaxTransferBytes \<and> tm_transferred_bytes m < tm_total_bytes m \<and>
     tm_expected_offset m = tm_transferred_bytes m \<and> \<not> far_valid (tm_final_ack_replay m)"

definition inactive_ok :: "'w TransferManager \<Rightarrow> bool" where
  "inactive_ok m \<longleftrightarrow>
     (if tm_terminal_valid m
      then tm_endpoint_started m \<and> tm_endpoint_finalized m \<and> tm_terminal_notified m \<and>
        (tm_state m = Completed \<or> tm_state m = Aborted) \<and> tm_transfer_id m \<noteq> 0 \<and>
        ti_state (tm_terminal m) = tm_state m \<and>
        ti_transfer_id (tm_terminal m) = tm_transfer_id m \<and>
        ti_transferred_bytes (tm_terminal m) = tm_transferred_bytes m \<and>
        ti_has_crc32 (tm_terminal m) = (tm_state m = Completed) \<and>
        tm_transferred_bytes m \<le> tm_total_bytes m \<and>
        (tm_state m = Completed \<longrightarrow> tm_transferred_bytes m = tm_total_bytes m) \<and>
        (far_valid (tm_final_ack_replay m) \<longrightarrow> tm_state m = Completed \<and>
           far_transfer_id (tm_final_ack_replay m) = tm_transfer_id m)
      else \<not> tm_endpoint_started m \<and> tm_state m = Idle \<and> \<not> far_valid (tm_final_ack_replay m))"

definition history_ok :: "'w TransferManager \<Rightarrow> bool" where
  "history_ok m \<longleftrightarrow>
     tm_accepted_data_history_count m \<le>
       (if tm_transport m = WindowedGbnV1 then kMaxWindowFrames else 1) \<and>
     far_identity_count (tm_final_ack_replay m) \<le> kMaxWindowFrames"

definition sender_ok :: "'w TransferManager \<Rightarrow> bool" where
  "sender_ok m \<longleftrightarrow>
     tm_tx_retries m \<le> kMaxRetransmissions \<and>
     (\<not> tm_active m \<or> tm_direction m = HostToDevice \<longrightarrow>
        \<not> tm_tx_pending_start m \<and> \<not> tm_tx_frame_ready m \<and> \<not> tm_tx_waiting_ack m) \<and>
     (tm_tx_waiting_ack m \<longrightarrow> tm_tx_frame_ready m) \<and>
     (tm_tx_pending_start m \<longrightarrow> \<not> tm_tx_frame_ready m) \<and>
     (tm_active m \<and> tm_direction m = DeviceToHost \<longrightarrow> tm_tx_offset m = tm_transferred_bytes m) \<and>
     (tm_tx_frame_ready m \<longrightarrow>
        unat (tm_tx_length m) = min kMaxPayloadBytes (unat (tm_total_bytes m - tm_tx_offset m)))"

definition manager_ok :: "'w TransferManager \<Rightarrow> bool" where
  "manager_ok m \<longleftrightarrow>
     arrays_ok m \<and> tm_next_transfer_id m \<noteq> 0 \<and> history_ok m \<and> sender_ok m \<and>
     (if tm_active m then active_ok m else inactive_ok m)"

lemmas ok_defs = manager_ok_def arrays_ok_def active_ok_def inactive_ok_def history_ok_def
  sender_ok_def

lemma manager_ok_active:
  "manager_ok m \<Longrightarrow> tm_active m \<Longrightarrow> tm_endpoint_started m \<and> \<not> tm_terminal_notified m \<and>
     \<not> tm_endpoint_finalized m"
  by (simp add: manager_ok_def active_ok_def)

lemma closed_ok:
  assumes "arrays_ok m" "tm_next_transfer_id m \<noteq> 0" "history_ok m"
    and "tm_tx_retries m \<le> kMaxRetransmissions" "tm_endpoint_started m" "tm_transfer_id m \<noteq> 0"
    and "tm_transferred_bytes m \<le> tm_total_bytes m"
    and "state = Completed \<and> tm_transferred_bytes m = tm_total_bytes m \<and> tm_endpoint_finalized m \<and>
        (far_valid (tm_final_ack_replay m) \<longrightarrow>
           far_transfer_id (tm_final_ack_replay m) = tm_transfer_id m) \<or>
      state = Aborted \<and> \<not> far_valid (tm_final_ack_replay m)"
  shows "manager_ok (closed m state)"
  using assms by (auto simp: ok_defs closed_def closing_info_def)

lemma aborted_ok:
  assumes "manager_ok m" "tm_active m"
  shows "manager_ok (fst (finish_active m Aborted reason w))"
proof -
  have "manager_ok (closed m Aborted)"
    using assms by (intro closed_ok) (auto simp: ok_defs)
  then show ?thesis
    using manager_ok_active [OF assms] assms(2) by (simp add: finish_active_closed)
qed

lemma wire_ok:
  assumes "manager_ok m"
    and "write_wire m type transfer_id sequence offset status payload w = (sent, m', w')"
  shows "manager_ok m'"
proof -
  obtain wire where m': "m' = m\<lparr>tm_wire_frame := wire\<rparr>" using write_wire_cases [OF assms(2)] by blast
  with write_wire_length [OF assms(2)] assms(1) show ?thesis
    by (cases "tm_active m") (auto simp: ok_defs)
qed

lemma length_shift_history [simp]:
  "length (fold (\<lambda>index h. h[index - Suc 0 := h ! index]) xs history) = length history"
  by (induction xs arbitrary: history) simp_all

lemma length_copy_history [simp]:
  "length (fold (\<lambda>index ids. ids[index := h ! index]) xs ids) = length ids"
  by (induction xs arbitrary: ids) simp_all

lemma remember_ok:
  assumes "arrays_ok m" "history_ok m"
  shows "length (tm_accepted_data_history (remember_accepted_data m frame)) = kMaxWindowFrames"
    and "tm_accepted_data_history_count (remember_accepted_data m frame) \<le>
      (if tm_transport m = WindowedGbnV1 then kMaxWindowFrames else 1)"
  using assms by (auto simp: remember_accepted_data_def Let_def arrays_ok_def history_ok_def)

lemma accept_data_facts:
  assumes ok: "manager_ok m" and acc: "rx_acceptable m frame"
  defines "m' \<equiv> accept_rx_data m frame"
  shows "arrays_ok m'" "history_ok m'" "tm_transferred_bytes m' \<le> tm_total_bytes m"
    "unat (tm_transferred_bytes m') = unat (tm_transferred_bytes m) + unat (pf_payload_length frame)"
    "tm_expected_offset m' = tm_transferred_bytes m'"
    "m' = m\<lparr>tm_running_crc := crc32_update (tm_running_crc m) (pf_payload frame),
       tm_accepted_data_history := tm_accepted_data_history m',
       tm_accepted_data_history_count := tm_accepted_data_history_count m',
       tm_transferred_bytes := tm_transferred_bytes m',
       tm_expected_sequence := tm_expected_sequence m + 1,
       tm_expected_offset := tm_transferred_bytes m'\<rparr>"
proof -
  have act: "active_ok m" using ok acc by (simp add: manager_ok_def rx_acceptable_def)
  obtain h c where form: "m' =
     m\<lparr>tm_running_crc := crc32_update (tm_running_crc m) (pf_payload frame),
       tm_accepted_data_history := h, tm_accepted_data_history_count := c,
       tm_transferred_bytes := tm_transferred_bytes m + ucast (pf_payload_length frame),
       tm_expected_sequence := tm_expected_sequence m + 1,
       tm_expected_offset := tm_expected_offset m + ucast (pf_payload_length frame)\<rparr>"
    using accept_rx_data_form [of m frame] m'_def by blast
  let ?m = "m\<lparr>tm_running_crc := crc32_update (tm_running_crc m) (pf_payload frame)\<rparr>"
  have "tm_accepted_data_history m' = tm_accepted_data_history (remember_accepted_data ?m frame)"
    "tm_accepted_data_history_count m' =
      tm_accepted_data_history_count (remember_accepted_data ?m frame)"
    by (simp_all add: m'_def accept_rx_data_def Let_def)
  moreover have "arrays_ok ?m" "history_ok ?m" using ok by (simp_all add: ok_defs)
  ultimately have hist: "length h = kMaxWindowFrames"
      "c \<le> (if tm_transport m = WindowedGbnV1 then kMaxWindowFrames else 1)"
    using remember_ok [of ?m frame] form by simp_all
  show "arrays_ok m'" "history_ok m'"
    using ok hist form by (simp_all add: manager_ok_def arrays_ok_def history_ok_def)
  have le: "tm_transferred_bytes m \<le> tm_total_bytes m"
      "ucast (pf_payload_length frame) \<le> tm_total_bytes m - tm_transferred_bytes m"
    using act acc by (auto simp: active_ok_def rx_acceptable_def)
  show "tm_transferred_bytes m' \<le> tm_total_bytes m"
    "unat (tm_transferred_bytes m') = unat (tm_transferred_bytes m) + unat (pf_payload_length frame)"
    using add_within [OF le] form by (simp_all add: ucast_u16_u64)
  show "tm_expected_offset m' = tm_transferred_bytes m'"
    using form act by (simp add: active_ok_def)
  with form show "m' = m\<lparr>tm_running_crc := crc32_update (tm_running_crc m) (pf_payload frame),
       tm_accepted_data_history := tm_accepted_data_history m',
       tm_accepted_data_history_count := tm_accepted_data_history_count m',
       tm_transferred_bytes := tm_transferred_bytes m',
       tm_expected_sequence := tm_expected_sequence m + 1,
       tm_expected_offset := tm_transferred_bytes m'\<rparr>"
    by simp
qed

lemma accept_fields:
  assumes "manager_ok m" "rx_acceptable m frame"
  defines "m' \<equiv> accept_rx_data m frame"
  shows "tm_active m'" "tm_endpoint m' = tm_endpoint m" "tm_endpoint_started m'"
    "\<not> tm_terminal_notified m'" "\<not> tm_endpoint_finalized m'" "\<not> far_valid (tm_final_ack_replay m')"
    "tm_transfer_id m' = tm_transfer_id m" "tm_transfer_id m \<noteq> 0" "tm_next_transfer_id m' \<noteq> 0"
    "tm_tx_retries m' \<le> kMaxRetransmissions" "tm_total_bytes m' = tm_total_bytes m"
    "tm_direction m' = HostToDevice" "tm_output m' = tm_output m"
    "tm_running_crc m' = crc32_update (tm_running_crc m) (pf_payload frame)"
  using assms(1,2) accept_rx_data_form [of m frame]
  by (auto simp: m'_def manager_ok_def active_ok_def sender_ok_def rx_acceptable_def)

lemma accept_ok:
  assumes "manager_ok m" "rx_acceptable m frame"
    and "tm_transferred_bytes (accept_rx_data m frame) \<noteq> tm_total_bytes m"
  shows "manager_ok (accept_rx_data m frame)"
proof -
  note f = accept_data_facts [OF assms(1,2)] accept_fields [OF assms(1,2)]
  have "sender_ok (accept_rx_data m frame)" "tm_state (accept_rx_data m frame) = Active"
      "\<not> tm_terminal_valid (accept_rx_data m frame)"
      "tm_total_bytes (accept_rx_data m frame) \<le> kMaxTransferBytes"
    using assms(1,2) by (subst f(6), simp add: ok_defs rx_acceptable_def)+
  with f assms(3) show ?thesis
    by (auto simp: manager_ok_def active_ok_def less_le)
qed

lemma finish_failed_ok:
  assumes "manager_ok m" "rx_acceptable m frame"
  shows "manager_ok (fst (finish_active (accept_rx_data m frame) Aborted reason w))"
proof -
  note f = accept_data_facts(1-5) [OF assms] accept_fields [OF assms]
  have "manager_ok (closed (accept_rx_data m frame) Aborted)"
    by (rule closed_ok) (simp_all add: f)
  then show ?thesis by (simp add: finish_active_closed f)
qed

lemma completed_ok:
  assumes "manager_ok m" "rx_acceptable m frame"
    and fin: "tm_transferred_bytes (accept_rx_data m frame) = tm_total_bytes m"
  shows "manager_ok (fst (finish_active (arm_replay (accept_rx_data m frame)) Completed reason w))"
proof -
  let ?m = "arm_replay (accept_rx_data m frame)"
  note f = accept_data_facts(1-5) [OF assms(1,2)] accept_fields [OF assms(1,2)]
  have cnt: "tm_accepted_data_history_count (accept_rx_data m frame) \<le> kMaxWindowFrames"
    using f(2) by (auto simp: history_ok_def kMaxWindowFrames_def split: if_splits)
  have "arrays_ok ?m" "history_ok ?m"
    using f(1,2) cnt by (simp_all add: arm_replay_def arrays_ok_def history_ok_def)
  then have "manager_ok (closed ?m Completed)"
    by (intro closed_ok) (simp_all add: arm_replay_def f fin)
  then show ?thesis by (simp add: finish_active_closed f arm_replay_def)
qed

lemma prepare_tx_payload_form:
  "prepare_tx_payload m w =
     (let requested = min kMaxPayloadBytes (unat (tm_total_bytes m - tm_tx_offset m)) in
      case ep_produce (tm_endpoint m) of
        None \<Rightarrow> finish_active m Aborted EndpointIoError w
      | Some produce \<Rightarrow>
          let (result, out, produced, w) = produce (tm_tx_offset m) requested w;
              m = m\<lparr>tm_tx_payload := overwrite (tm_tx_payload m) 0 (take requested out)\<rparr>
          in if result \<noteq> EndpointOk \<or> produced \<noteq> requested
             then finish_active m Aborted EndpointIoError w
             else (m\<lparr>tm_tx_length := word_of_nat requested, tm_tx_retries := 0,
                     tm_tx_crc := crc32_update (tm_tx_crc m)
                       (take (unat (word_of_nat requested :: u16)) (tm_tx_payload m)),
                     tm_tx_frame_ready := True\<rparr>, w))"
proof -
  have "(if unat r > kMaxPayloadBytes then kMaxPayloadBytes else unat r) =
      min kMaxPayloadBytes (unat r)" for r :: u64
    by simp
  then show ?thesis
    unfolding prepare_tx_payload_def Let_def by (auto split: option.split prod.split)
qed

lemma prepare_ok:
  assumes ok: "manager_ok m" and act: "tm_active m" "tm_direction m = DeviceToHost"
  shows "manager_ok (fst (prepare_tx_payload (m\<lparr>tm_tx_pending_start := False\<rparr>) w))"
proof -
  let ?rem = "unat (tm_total_bytes m - tm_tx_offset m)"
  define req where "req = min kMaxPayloadBytes ?rem"
  have req: "req \<le> kMaxPayloadBytes" by (simp add: req_def)
  have "unat (word_of_nat req :: u16) = req"
    using req by (intro unat_of_nat_u16) (simp add: kMaxPayloadBytes_def)
  then have len: "unat (word_of_nat req :: u16) = min kMaxPayloadBytes ?rem"
    by (simp add: req_def)
  let ?m = "\<lambda>out. m\<lparr>tm_tx_pending_start := False,
      tm_tx_payload := overwrite (tm_tx_payload m) 0 (take req out)\<rparr>"
  have m: "manager_ok (?m out)" for out
    using ok act req by (simp add: ok_defs length_overwrite)
  have p: "manager_ok (m\<lparr>tm_tx_pending_start := False\<rparr>)"
    using ok act by (simp add: ok_defs)
  have ready: "manager_ok ((?m out)\<lparr>tm_tx_length := word_of_nat req, tm_tx_retries := 0,
      tm_tx_crc := crc, tm_tx_frame_ready := True\<rparr>)" for out crc
    using m [of out] act len by (simp add: ok_defs)
  show ?thesis
    using aborted_ok [OF m] aborted_ok [OF p] ready act
    by (simp add: prepare_tx_payload_form Let_def req_def [symmetric] split: option.split prod.split)
qed

lemma next_tx_bounds:
  assumes "manager_ok m" "tm_active m" "tm_direction m = DeviceToHost" "tm_tx_waiting_ack m"
  shows "tm_tx_offset m + ucast (tm_tx_length m) \<le> tm_total_bytes m"
    and "unat (tm_tx_offset m + ucast (tm_tx_length m)) =
      unat (tm_tx_offset m) + unat (tm_tx_length m)"
proof -
  have off: "tm_tx_offset m < tm_total_bytes m"
    and len: "unat (tm_tx_length m) = min kMaxPayloadBytes (unat (tm_total_bytes m - tm_tx_offset m))"
    using assms by (simp_all add: ok_defs)
  from len have "ucast (tm_tx_length m) \<le> tm_total_bytes m - tm_tx_offset m"
    by (simp add: word_le_nat_alt ucast_u16_u64)
  note less_imp_le [OF off] this
  from add_within [OF this] show "tm_tx_offset m + ucast (tm_tx_length m) \<le> tm_total_bytes m"
    and "unat (tm_tx_offset m + ucast (tm_tx_length m)) =
      unat (tm_tx_offset m) + unat (tm_tx_length m)"
    by (simp_all add: ucast_u16_u64)
qed

lemma advance_ok:
  assumes "manager_ok m" "tm_active m" "tm_direction m = DeviceToHost" "tm_tx_waiting_ack m"
    and "tm_tx_offset m + ucast (tm_tx_length m) \<noteq> tm_total_bytes m"
  shows "manager_ok ((advance_tx m)\<lparr>tm_tx_sequence := tm_tx_sequence m + 1,
         tm_tx_offset := tm_tx_offset m + ucast (tm_tx_length m)\<rparr>)"
  using assms next_tx_bounds(1) [OF assms(1-4)] by (simp add: ok_defs advance_tx_def)

lemma send_finish_ok:
  assumes "manager_ok m" "tm_active m" "tm_direction m = DeviceToHost" "tm_tx_waiting_ack m"
    and "tm_tx_offset m + ucast (tm_tx_length m) = tm_total_bytes m"
  shows "manager_ok (fst (finish_active ((advance_tx m)\<lparr>tm_endpoint_finalized := True\<rparr>)
      Completed reason w))"
    and "manager_ok (fst (finish_active (advance_tx m) Aborted reason w))"
proof -
  have "manager_ok (closed ((advance_tx m)\<lparr>tm_endpoint_finalized := True\<rparr>) Completed)"
    "manager_ok (closed (advance_tx m) Aborted)"
    by (rule closed_ok; use assms in \<open>simp add: ok_defs advance_tx_def\<close>)+
  then show "manager_ok (fst (finish_active ((advance_tx m)\<lparr>tm_endpoint_finalized := True\<rparr>)
      Completed reason w))" "manager_ok (fst (finish_active (advance_tx m) Aborted reason w))"
    using manager_ok_active [OF assms(1,2)] assms(2)
    by (simp_all add: finish_active_closed advance_tx_def)
qed

lemma step_ok:
  assumes "tm_step F s t" "manager_ok (fst s)"
  shows "manager_ok (fst t)"
  using assms
proof (induction rule: tm_step.induct)
  case (Reply type m transfer_id sequence offset status w sent m' w')
  then show ?case using wire_ok by (metis fst_conv)
next
  case (Stop m w reason)
  then show ?case by (simp add: aborted_ok)
next
  case (Clock m w t pending)
  then show ?case by (simp add: ok_defs)
next
  case (ConsumeFail m frame consume w w')
  then show ?case by (simp add: aborted_ok rx_acceptable_def)
next
  case (Accept m frame decoded consume w w')
  then show ?case by (simp add: accept_ok)
next
  case (FinishFail m frame decoded consume w w' w'')
  then show ?case by (simp add: finish_failed_ok)
next
  case (Complete m frame decoded consume w w' w'')
  then show ?case by (simp add: completed_ok)
next
  case (Produce m w)
  then show ?case by (simp add: prepare_ok)
next
  case (Transmit m w sent m' w' now_ms)
  have "manager_ok m'" using Transmit wire_ok by (metis fst_conv)
  moreover have "tm_active m'" "tm_tx_frame_ready m'" "tm_direction m' = DeviceToHost"
    using write_wire_cases [OF Transmit(4)] Transmit(1-3) by auto
  ultimately show ?case
    by (cases sent) (simp_all add: aborted_ok, simp add: ok_defs)
next
  case (Retry m w)
  then have "tm_tx_retries m + 1 \<le> kMaxRetransmissions"
    by (simp add: inc_le)
  with Retry show ?case by (auto simp: ok_defs)
next
  case (Advance m w)
  then show ?case by (simp add: advance_ok)
next
  case (SendFinish m w ok w')
  then show ?case by (simp add: send_finish_ok)
qed

lemma steps_ok: "tm_steps F s t \<Longrightarrow> manager_ok (fst s) \<Longrightarrow> manager_ok (fst t)"
  by (erule tm_steps_invariant [where P = "\<lambda>s. manager_ok (fst s)"]) (auto intro: step_ok)

lemma init_ok: "manager_ok (init m sink)"
  by (simp add: ok_defs init_def Let_def default_manager_def default_replay_def manager_constants
      kMaxPayloadBytes_def)

definition fresh_manager ::
  "'w TransferManager \<Rightarrow> u64 \<Rightarrow> Direction \<Rightarrow> 'w TransferEndpoint \<Rightarrow> TransferOptions \<Rightarrow> 'w TransferManager"
where
  "fresh_manager m size_bytes direction endpoint options =
     (let id = (if tm_next_transfer_id m = 0 then 1 else tm_next_transfer_id m)
      in default_manager
        \<lparr>tm_output := tm_output m, tm_endpoint := endpoint, tm_endpoint_started := True,
         tm_active := True, tm_direction := direction, tm_transport := to_transport options,
         tm_window_frames := to_window_frames options, tm_state := Active, tm_transfer_id := id,
         tm_next_transfer_id := (if id + 1 = 0 then 1 else id + 1), tm_total_bytes := size_bytes,
         tm_tx_pending_start := (direction = DeviceToHost)\<rparr>)"

lemma fresh_manager_built:
  "default_manager
     \<lparr>tm_output := tm_output m, tm_endpoint := endpoint, tm_endpoint_started := True,
      tm_active := True, tm_direction := direction, tm_transport := to_transport options,
      tm_window_frames := to_window_frames options, tm_state := Active,
      tm_transfer_id := (if tm_next_transfer_id m = 0 then 1 else tm_next_transfer_id m),
      tm_next_transfer_id :=
        (if (if tm_next_transfer_id m = 0 then 1 else tm_next_transfer_id m) + 1 = 0 then 1
         else (if tm_next_transfer_id m = 0 then 1 else tm_next_transfer_id m) + 1),
      tm_total_bytes := size_bytes, tm_running_crc := crc32_init, tm_tx_crc := crc32_init,
      tm_terminal_valid := False, tm_terminal_has_crc := False,
      tm_final_ack_replay := default_replay\<lparr>far_valid := False\<rparr>,
      tm_tx_pending_start := (direction = DeviceToHost)\<rparr> =
   fresh_manager m size_bytes direction endpoint options"
proof -
  have "default_replay\<lparr>far_valid := False\<rparr> = default_replay" by (simp add: default_replay_def)
  then show ?thesis
    by (simp add: fresh_manager_def default_manager_def Let_def crc32_init_def)
qed

lemma begin_common_form:
  "begin_common m size_bytes direction endpoint options w =
     (if endpoint_incomplete direction endpoint \<or> options_unsupported direction options
      then ((InvalidParams, None), m, w)
      else if tm_active m then ((Busy, None), m, w)
      else if size_bytes = 0 \<or> size_bytes > kMaxTransferBytes then ((InvalidSize, None), m, w)
      else let (result, w) = the (ep_begin endpoint) direction size_bytes w;
               m' = fresh_manager m size_bytes direction endpoint options
           in if result \<noteq> EndpointOk then ((InvalidParams, None), m, w)
              else ((ManagerOk, Some (current_info m')), m', w))"
  unfolding begin_common_def Let_def fresh_manager_built by (simp only: if_bool_eq_disj split: if_split)
    blast

lemma begin_common_cases:
  assumes "begin_common m size_bytes direction endpoint options w = (r, m', w')"
  shows "m' = m \<and> fst r \<noteq> ManagerOk \<or>
    (\<exists>begin_fn. r = (ManagerOk, Some (current_info m')) \<and> \<not> tm_active m \<and>
      size_bytes \<noteq> 0 \<and> size_bytes \<le> kMaxTransferBytes \<and> ep_begin endpoint = Some begin_fn \<and>
      begin_fn direction size_bytes w = (EndpointOk, w') \<and>
      m' = fresh_manager m size_bytes direction endpoint options)"
proof (cases "endpoint_incomplete direction endpoint \<or> options_unsupported direction options \<or>
    tm_active m \<or> size_bytes = 0 \<or> size_bytes > kMaxTransferBytes")
  case True
  then show ?thesis using assms by (auto simp: begin_common_form split: if_splits)
next
  case False
  then obtain f where f: "ep_begin endpoint = Some f" by (auto simp: endpoint_incomplete_def)
  obtain result w1 where "f direction size_bytes w = (result, w1)" by force
  then show ?thesis using assms False f by (cases result) (auto simp: begin_common_form Let_def)
qed

lemma fresh_manager_ok:
  assumes "size_bytes \<noteq> 0" "size_bytes \<le> kMaxTransferBytes"
  shows "manager_ok (fresh_manager m size_bytes direction endpoint options)"
  using assms
  by (cases direction)
    (simp_all add: fresh_manager_def Let_def default_manager_def default_replay_def ok_defs
      word_gt_0 kMaxRetransmissions_def)

lemma begin_common_ok:
  assumes "manager_ok m" "begin_common m size_bytes direction endpoint options w = (r, m', w')"
  shows "manager_ok m'"
  using begin_common_cases [OF assms(2)] assms(1) fresh_manager_ok by auto

end
