(* ===== verification/Test_Endpoint.thy ===== *)
theory Test_Endpoint
  imports Transfer_Invariant
begin

section \<open>Test-pattern endpoint (test_endpoint.cpp)\<close>

text \<open>
  The endpoint behind the \<^verbatim>\<open>begin_test_rx\<close> and \<^verbatim>\<open>begin_test_tx\<close> commands: it checks received data
  against, or produces, a fixed byte pattern that contains the prefixes and delimiter bytes of the
  control plane. Its static context is a record; the record is extensible, so that a world can hold
  it together with other state such as the bytes written to the UART.
\<close>

definition kPatternPrefix :: string where "kPatternPrefix = ''@ESP-NP2 ''"
definition kPatternLog :: string where "kPatternLog = ''I (123) ESP-IDF log text'' @ [CHR 0x0A]"

record PatternContext =
  pt_direction :: Direction
  pt_size :: u64
  pt_consumed :: u64
  pt_produced :: u64

definition pattern_value :: "u64 \<Rightarrow> u8" where
  "pattern_value offset =
     (let block = unat (offset mod 1024) in
      if block \<ge> 256 \<and> block < 256 + length kPatternPrefix
      then byte_of_char (kPatternPrefix ! (block - 256))
      else if block \<ge> 320 \<and> block < 320 + length kPatternLog
      then byte_of_char (kPatternLog ! (block - 320))
      else if block = 384 then 0
      else if block = 385 then 0x0a
      else if block = 386 then 0x0d
      else if block = 387 then 0xff
      else if block = 388 then 0
      else word_of_nat block AND 0xff)"

definition pattern_begin ::
  "Direction \<Rightarrow> u64 \<Rightarrow> 'x PatternContext_scheme \<Rightarrow> EndpointResult \<times> 'x PatternContext_scheme" where
  "pattern_begin direction size_bytes p =
     (if size_bytes = 0 then (EndpointFailed, p)
      else (EndpointOk, p\<lparr>pt_direction := direction, pt_size := size_bytes, pt_consumed := 0,
              pt_produced := 0\<rparr>))"

definition pattern_consume ::
  "u64 \<Rightarrow> bytes \<Rightarrow> 'x PatternContext_scheme \<Rightarrow> EndpointResult \<times> 'x PatternContext_scheme" where
  "pattern_consume offset data p =
     (if length data = 0 \<or> offset \<noteq> pt_consumed p \<or>
         length data > unat (pt_size p - pt_consumed p) then (EndpointFailed, p)
      else if list_ex (\<lambda>i. data ! i \<noteq> pattern_value (offset + word_of_nat i)) [0..<length data]
      then (EndpointFailed, p)
      else (EndpointOk, p\<lparr>pt_consumed := pt_consumed p + word_of_nat (length data)\<rparr>))"

definition pattern_produce ::
  "u64 \<Rightarrow> nat \<Rightarrow> 'x PatternContext_scheme \<Rightarrow>
   EndpointResult \<times> bytes \<times> nat \<times> 'x PatternContext_scheme" where
  "pattern_produce offset requested p =
     (if requested = 0 \<or> requested > kMaxPayloadBytes \<or> offset \<noteq> pt_produced p \<or>
         requested > unat (pt_size p - pt_produced p)
      then (EndpointFailed, [], 0, p)
      else (EndpointOk, map (\<lambda>i. pattern_value (offset + word_of_nat i)) [0..<requested], requested,
            p\<lparr>pt_produced := pt_produced p + word_of_nat requested\<rparr>))"

definition pattern_finish ::
  "'x PatternContext_scheme \<Rightarrow> EndpointResult \<times> 'x PatternContext_scheme" where
  "pattern_finish p =
     (if (if pt_direction p = HostToDevice then pt_consumed p else pt_produced p) = pt_size p
      then EndpointOk else EndpointFailed, p)"

definition pattern_endpoint :: "'x PatternContext_scheme TransferEndpoint" where
  "pattern_endpoint =
     \<lparr>ep_context = True, ep_begin = Some pattern_begin, ep_consume = Some pattern_consume,
      ep_produce = Some pattern_produce, ep_finish = Some pattern_finish,
      ep_abort = Some (\<lambda>_ w. w), ep_terminal = Some (\<lambda>_ _ w. w)\<rparr>"

definition begin_test_rx ::
  "'x PatternContext_scheme TransferManager \<Rightarrow> u64 \<Rightarrow> 'x PatternContext_scheme \<Rightarrow>
   (ManagerError \<times> TransferInfo option) \<times> 'x PatternContext_scheme mstate" where
  "begin_test_rx m size_bytes w = begin_rx_default m size_bytes pattern_endpoint w"

definition begin_test_tx ::
  "'x PatternContext_scheme TransferManager \<Rightarrow> u64 \<Rightarrow> 'x PatternContext_scheme \<Rightarrow>
   (ManagerError \<times> TransferInfo option) \<times> 'x PatternContext_scheme mstate" where
  "begin_test_tx m size_bytes w = begin_tx m size_bytes pattern_endpoint w"

definition test_pattern_byte :: "u64 \<Rightarrow> u8" where
  "test_pattern_byte offset = pattern_value offset"

subsection \<open>Reachable managers\<close>

inductive tm_reachable :: "'w mstate \<Rightarrow> bool" where
  Init: "tm_reachable (init m sink, w)"
| Begin: "tm_reachable (m, w) \<Longrightarrow>
    begin_common m size_bytes direction endpoint options w = (r, m', w') \<Longrightarrow> tm_reachable (m', w')"
| Event: "tm_reachable s \<Longrightarrow> tm_reachable (handle_event e s)"

text \<open>
  (C5) Manager invariant: whatever sequence of initialisation, transfer starts (in either direction,
  with any endpoint callbacks), received frames, polls and abort requests led to it, the manager is
  consistent: its arrays keep their sizes, an active transfer has a non-zero identifier, has neither
  been finalised nor reported, and has transferred strictly fewer bytes than its total; an inactive
  one is either idle or reported exactly once with a terminal record that matches its state, complete
  transfers having moved all their bytes; the replay history and the retry counter stay in bounds.
\<close>

theorem manager_invariant:
  assumes "tm_reachable s"
  shows "manager_ok (fst s)"
  using assms
proof (induction rule: tm_reachable.induct)
  case (Init m sink w)
  then show ?case by (simp add: init_ok)
next
  case (Begin m w size_bytes direction endpoint options r m' w')
  then show ?case using begin_common_ok by (metis fst_conv)
next
  case (Event s e)
  then show ?case using steps_ok [OF handle_event_steps [of "\<lambda>_. True"]] by simp
qed

theorem manager_invariant_witness:
  "\<exists>r m w. begin_test_rx (init default_manager None) 5
       \<lparr>pt_direction = DeviceToHost, pt_size = 0, pt_consumed = 0, pt_produced = 0\<rparr> = (r, m, w) \<and>
     fst r = ManagerOk \<and> tm_active m \<and> manager_ok m"
proof -
  let ?p = "\<lparr>pt_direction = DeviceToHost, pt_size = 0, pt_consumed = 0, pt_produced = 0\<rparr>"
  obtain r m w where b: "begin_test_rx (init default_manager None) 5 ?p = (r, m, w)"
    by (metis prod_cases3)
  then have "tm_reachable (m, w)"
    unfolding begin_test_rx_def begin_rx_default_def by (rule Begin [OF Init])
  from manager_invariant [OF this] have "manager_ok m" by simp
  moreover from b have "fst r = ManagerOk \<and> tm_active m"
    by (auto simp: begin_test_rx_def begin_rx_default_def begin_common_form pattern_endpoint_def
        endpoint_incomplete_def options_unsupported_def default_options_def init_def Let_def
        default_manager_def pattern_begin_def fresh_manager_def kMaxTransferBytes_def
        kMaxPayloadBytes_def split: if_splits)
  ultimately show ?thesis using b by blast
qed

end
