(* ===== verification/Transfer_Receiver.thy ===== *)
theory Transfer_Receiver
  imports Test_Endpoint
begin

section \<open>Receiving a transfer: exactly-once, in-order delivery\<close>

text \<open>
  The locale \<open>receiving_endpoint\<close> is the contract between the transfer manager and the object that
  takes in the data of a host-to-device transfer. It is stated by predicates on the world of the endpoint:
  \<open>start\<close> before \<^verbatim>\<open>begin\<close>, \<open>holds w xs\<close> while the endpoint has taken in the bytes \<open>xs\<close>, \<open>broken\<close> after a
  failed callback, \<open>stored w xs\<close> once \<^verbatim>\<open>finish\<close> has succeeded on \<open>xs\<close>, and \<open>dropped\<close> once the transfer was given
  up. Inside the locale, the delivery invariant is proved once over the atomic steps of
  the manager; it is interpreted on the test-pattern endpoint here and on the file service later.
\<close>

definition chunk_of :: "bytes \<Rightarrow> u32 \<Rightarrow> ParsedFrame \<Rightarrow> bool" where
  "chunk_of message transfer_id frame \<longleftrightarrow>
     (pf_type frame = Data \<and> pf_crc_valid frame \<and> pf_transfer_id frame = transfer_id \<longrightarrow>
      pf_payload frame = take (length (pf_payload frame)) (drop (unat (pf_offset frame)) message))"

lemma parsed_payload_length:
  "parse_decoded d = Some f \<Longrightarrow> length (pf_payload f) = unat (pf_payload_length f)"
  by (auto simp: parse_decoded_def Let_def codec_constants split: if_splits)

definition rx_delivered ::
  "'w sink \<Rightarrow> 'w TransferEndpoint \<Rightarrow> ('w \<Rightarrow> bytes \<Rightarrow> bool) \<Rightarrow> ('w \<Rightarrow> bytes \<Rightarrow> bool) \<Rightarrow> ('w \<Rightarrow> bool) \<Rightarrow>
   bytes \<Rightarrow> u32 \<Rightarrow> u64 \<Rightarrow> 'w mstate \<Rightarrow> bool" where
  "rx_delivered sink endpoint holds stored dropped message transfer_id size_bytes s \<longleftrightarrow>
     (let m = fst s; w = snd s; n = unat (tm_transferred_bytes m); xs = take n message in
      manager_ok m \<and> tm_output m = sink \<and> tm_endpoint m = endpoint \<and>
      tm_direction m = HostToDevice \<and> tm_transfer_id m = transfer_id \<and>
      tm_total_bytes m = size_bytes \<and>
      (tm_active m \<longrightarrow> n \<le> length message \<and> holds w xs \<and> tm_running_crc m = crc32_update crc32_init xs) \<and>
      (tm_state m = Completed \<longrightarrow> n \<le> length message \<and> stored w xs \<and>
         ti_crc32 (tm_terminal m) = crc32_calculate xs) \<and>
      (tm_state m = Aborted \<longrightarrow> dropped w))"

lemma rx_delivered_active:
  assumes "rx_delivered sink endpoint holds stored dropped message transfer_id size_bytes (m, w)" "tm_active m"
  shows "manager_ok m" "tm_output m = sink" "tm_endpoint m = endpoint" "tm_direction m = HostToDevice"
    "tm_transfer_id m = transfer_id" "tm_total_bytes m = size_bytes" "\<not> tm_endpoint_finalized m"
    "unat (tm_transferred_bytes m) \<le> length message" "holds w (take (unat (tm_transferred_bytes m)) message)"
    "tm_running_crc m = crc32_update crc32_init (take (unat (tm_transferred_bytes m)) message)"
  using assms by (auto simp: rx_delivered_def Let_def manager_ok_def active_ok_def)

locale receiving_endpoint =
  fixes sink :: "'w sink" and endpoint :: "'w TransferEndpoint"
    and start :: "'w \<Rightarrow> bool" and holds :: "'w \<Rightarrow> bytes \<Rightarrow> bool" and broken :: "'w \<Rightarrow> bool"
    and stored :: "'w \<Rightarrow> bytes \<Rightarrow> bool" and dropped :: "'w \<Rightarrow> bool"
  assumes begin_empties: "\<lbrakk>ep_begin endpoint = Some f; start w; f HostToDevice n w = (EndpointOk, w')\<rbrakk> \<Longrightarrow>
      holds w' []"
    and consume_appends: "\<lbrakk>ep_consume endpoint = Some g; holds w xs; unat offset = length xs;
        g offset data w = (EndpointOk, w')\<rbrakk> \<Longrightarrow> holds w' (xs @ data)"
    and consume_fails: "\<lbrakk>ep_consume endpoint = Some g; holds w xs;
        g offset data w = (EndpointFailed, w')\<rbrakk> \<Longrightarrow> broken w'"
    and finish_stores: "\<lbrakk>ep_finish endpoint = Some h; holds w xs; h w = (EndpointOk, w')\<rbrakk> \<Longrightarrow> stored w' xs"
    and finish_fails: "\<lbrakk>ep_finish endpoint = Some h; holds w xs; h w = (EndpointFailed, w')\<rbrakk> \<Longrightarrow> broken w'"
    and unfinished: "\<lbrakk>ep_finish endpoint = None; holds w xs\<rbrakk> \<Longrightarrow> broken w"
    and abort_holds: "\<lbrakk>ep_abort endpoint = Some a; holds w xs\<rbrakk> \<Longrightarrow> dropped (a reason w)"
    and abort_broken: "\<lbrakk>ep_abort endpoint = Some a; broken w\<rbrakk> \<Longrightarrow> dropped (a reason w)"
    and aborts: "ep_abort endpoint \<noteq> None"
    and terminal_stored: "\<lbrakk>ep_terminal endpoint = Some t; stored w xs\<rbrakk> \<Longrightarrow> stored (t info ReasonCompleted w) xs"
    and terminal_dropped: "\<lbrakk>ep_terminal endpoint = Some t; dropped w\<rbrakk> \<Longrightarrow> dropped (t info reason w)"
    and write_keeps: "\<lbrakk>sink = Some write; write bs w = (sent, w')\<rbrakk> \<Longrightarrow>
      (holds w xs \<longrightarrow> holds w' xs) \<and> (stored w xs \<longrightarrow> stored w' xs) \<and> (dropped w \<longrightarrow> dropped w')"
begin

abbreviation delivered :: "bytes \<Rightarrow> u32 \<Rightarrow> u64 \<Rightarrow> 'w mstate \<Rightarrow> bool" where
  "delivered \<equiv> rx_delivered sink endpoint holds stored dropped"

lemma finish_endpoint_outcome:
  assumes "finish_endpoint m w = (ok, w')" "tm_endpoint m = endpoint" "holds w xs"
  shows "if ok then stored w' xs else broken w'"
proof (cases "ep_finish endpoint")
  case None
  then show ?thesis using assms unfinished by (auto simp: finish_endpoint_def)
next
  case (Some h)
  obtain r w1 where h: "h w = (r, w1)" by force
  with assms Some have "w' = w1" "ok \<longleftrightarrow> r = EndpointOk" by (auto simp: finish_endpoint_def)
  with h Some assms(3) finish_stores finish_fails show ?thesis by (cases r) auto
qed

lemma given_up:
  assumes "tm_endpoint m = endpoint" "\<not> tm_endpoint_finalized m" "holds w xs \<or> broken w"
  shows "dropped (call_terminal m Aborted reason (call_abort m Aborted reason w))"
  using assms aborts abort_holds abort_broken terminal_dropped
  by (auto simp: call_abort_def call_terminal_def split: option.split)

lemma delivered_aborted:
  assumes "manager_ok m" "tm_active m" "tm_output m = sink" "tm_endpoint m = endpoint"
    "tm_direction m = HostToDevice" "tm_transfer_id m = transfer_id" "tm_total_bytes m = size_bytes"
    "holds w xs \<or> broken w"
  shows "delivered message transfer_id size_bytes (finish_active m Aborted reason w)"
proof -
  have "dropped (call_terminal m Aborted reason (call_abort m Aborted reason w))"
    using given_up [OF assms(4) _ assms(8)] assms(1,2) by (simp add: manager_ok_def active_ok_def)
  then show ?thesis
    using assms aborted_ok [OF assms(1,2), of reason w] manager_ok_active [OF assms(1,2)]
    by (simp add: rx_delivered_def finish_active_closed) (simp add: closed_def)
qed

lemma delivered_write:
  assumes "delivered message transfer_id size_bytes (m, w)"
    and "write_wire m type tid sequence offset status payload w = (sent, m', w')"
  shows "delivered message transfer_id size_bytes (m', w')"
proof -
  obtain wire where m': "m' = m\<lparr>tm_wire_frame := wire\<rparr>"
    and w': "w' = w \<or> (\<exists>write bs. tm_output m = Some write \<and> write bs w = (sent, w'))"
    using write_wire_cases [OF assms(2)] by blast
  have "tm_output m = sink" using assms(1) by (simp add: rx_delivered_def Let_def)
  then have "(holds w xs \<longrightarrow> holds w' xs) \<and> (stored w xs \<longrightarrow> stored w' xs) \<and> (dropped w \<longrightarrow> dropped w')" for xs
    using w' write_keeps by blast
  moreover have "manager_ok m'"
    using assms wire_ok by (auto simp: rx_delivered_def Let_def)
  ultimately show ?thesis
    using assms(1) m' by (auto simp: rx_delivered_def Let_def)
qed

lemma accepted_prefix:
  assumes "delivered message transfer_id size_bytes (m, w)" "rx_acceptable m frame"
    and "parse_decoded decoded = Some frame" "chunk_of message transfer_id frame"
    and "ep_consume (tm_endpoint m) = Some consume"
      "consume (pf_offset frame) (pf_payload frame) w = (EndpointOk, w')"
  defines "m' \<equiv> accept_rx_data m frame"
  shows "unat (tm_transferred_bytes m') \<le> length message"
    "holds w' (take (unat (tm_transferred_bytes m')) message)"
    "tm_running_crc m' = crc32_update crc32_init (take (unat (tm_transferred_bytes m')) message)"
proof -
  have act: "tm_active m" using assms(2) by (simp add: rx_acceptable_def)
  note d = rx_delivered_active [OF assms(1) act]
  let ?n = "unat (tm_transferred_bytes m)"
  let ?xs = "take ?n message"
  have len: "length ?xs = ?n" using d(8) by simp
  have off: "unat (pf_offset frame) = ?n"
    using d(1) act assms(2) by (auto simp: manager_ok_def active_ok_def rx_acceptable_def)
  note f = accept_data_facts(1-5) [OF d(1) assms(2)] accept_fields [OF d(1) assms(2)]
  have t: "unat (tm_transferred_bytes m') = ?n + length (pf_payload frame)"
    using f(4) parsed_payload_length [OF assms(3)] by (simp add: m'_def)
  have "pf_payload frame = take (length (pf_payload frame)) (drop ?n message)"
    using assms(2,4) d(5) off by (auto simp: chunk_of_def rx_acceptable_def)
  then have "?xs @ pf_payload frame = ?xs @ take (length (pf_payload frame)) (drop ?n message)" by simp
  also have "\<dots> = take (unat (tm_transferred_bytes m')) message" by (simp add: take_add t)
  finally have pre: "?xs @ pf_payload frame = take (unat (tm_transferred_bytes m')) message" .
  have "holds w' (?xs @ pf_payload frame)"
    using consume_appends [where g = consume, OF _ d(9) _ assms(6)] assms(5) d(3) off len by simp
  then show "holds w' (take (unat (tm_transferred_bytes m')) message)" by (simp add: pre)
  from arg_cong [where f = length, OF pre] t len show "unat (tm_transferred_bytes m') \<le> length message" by simp
  have "tm_running_crc m' = crc32_update crc32_init (?xs @ pf_payload frame)"
    using d(10) by (simp add: m'_def f crc32_update_append)
  then show "tm_running_crc m' = crc32_update crc32_init (take (unat (tm_transferred_bytes m')) message)"
    by (simp only: pre)
qed

lemma delivered_complete:
  assumes del: "delivered message transfer_id size_bytes (m, w)" and acc: "rx_acceptable m frame"
    and p: "parse_decoded decoded = Some frame" "chunk_of message transfer_id frame"
    and c: "ep_consume (tm_endpoint m) = Some consume"
      "consume (pf_offset frame) (pf_payload frame) w = (EndpointOk, w')"
    and fin: "tm_transferred_bytes (accept_rx_data m frame) = tm_total_bytes m"
      "finish_endpoint m w' = (True, w'')"
  shows "delivered message transfer_id size_bytes
    (finish_active (arm_replay (accept_rx_data m frame)) Completed ReasonCompleted w'')"
proof -
  let ?m = "arm_replay (accept_rx_data m frame)"
  have act: "tm_active m" using acc by (simp add: rx_acceptable_def)
  note d = rx_delivered_active [OF del act]
  note f = accept_data_facts(1-5) [OF d(1) acc] accept_fields [OF d(1) acc]
  note a = accepted_prefix [OF del acc p c]
  let ?w = "call_terminal ?m Completed ReasonCompleted w''"
  have eq: "finish_active ?m Completed ReasonCompleted w'' = (closed ?m Completed, ?w)"
    using f by (simp add: finish_active_closed arm_replay_def call_abort_def)
  have "stored w'' (take (unat size_bytes) message)"
    using finish_endpoint_outcome [OF fin(2) d(3) a(2)] d(6) fin(1) by simp
  then have "stored ?w (take (unat size_bytes) message)"
    using terminal_stored d(3) f by (auto simp: call_terminal_def arm_replay_def split: option.split)
  moreover have "manager_ok (closed ?m Completed)"
    using completed_ok [OF d(1) acc fin(1), of ReasonCompleted w''] eq by simp
  ultimately show ?thesis
    using eq f d(2-6) a(1,3) fin(1)
    by (simp add: rx_delivered_def closed_def arm_replay_def closing_info_def closing_crc_def
        crc32_calculate_def)
qed

lemma delivered_accept:
  assumes del: "delivered message transfer_id size_bytes (m, w)" and acc: "rx_acceptable m frame"
    and p: "parse_decoded decoded = Some frame" "chunk_of message transfer_id frame"
    and c: "ep_consume (tm_endpoint m) = Some consume"
      "consume (pf_offset frame) (pf_payload frame) w = (EndpointOk, w')"
    and more: "tm_transferred_bytes (accept_rx_data m frame) \<noteq> tm_total_bytes m"
  shows "delivered message transfer_id size_bytes (accept_rx_data m frame, w')"
proof -
  have act: "tm_active m" using acc by (simp add: rx_acceptable_def)
  note d = rx_delivered_active [OF del act]
  have ok': "manager_ok (accept_rx_data m frame)" by (rule accept_ok [OF d(1) acc more])
  then have "tm_state (accept_rx_data m frame) = Active"
    using accept_fields(1) [OF d(1) acc] by (simp add: manager_ok_def active_ok_def)
  then show ?thesis
    unfolding rx_delivered_def Let_def fst_conv snd_conv
    by (intro conjI impI accepted_prefix [OF del acc p c] ok')
      (simp_all add: accept_fields [OF d(1) acc] d)
qed

lemma delivered_finish_failed:
  assumes del: "delivered message transfer_id size_bytes (m, w)" and acc: "rx_acceptable m frame"
    and p: "parse_decoded decoded = Some frame" "chunk_of message transfer_id frame"
    and c: "ep_consume (tm_endpoint m) = Some consume"
      "consume (pf_offset frame) (pf_payload frame) w = (EndpointOk, w')"
    and fin: "finish_endpoint m w' = (False, w'')"
  shows "delivered message transfer_id size_bytes
    (finish_active (accept_rx_data m frame) Aborted EndpointFinishError w'')"
proof -
  have act: "tm_active m" using acc by (simp add: rx_acceptable_def)
  note d = rx_delivered_active [OF del act]
  note f = accept_fields [OF d(1) acc]
  have "broken w''" using finish_endpoint_outcome [OF fin d(3) accepted_prefix(2) [OF del acc p c]] by simp
  then have "dropped (call_terminal (accept_rx_data m frame) Aborted EndpointFinishError
      (call_abort (accept_rx_data m frame) Aborted EndpointFinishError w''))"
    using f d by (intro given_up) simp_all
  with f d finish_failed_ok [OF d(1) acc, of EndpointFinishError w''] show ?thesis
    by (simp add: finish_active_closed rx_delivered_def) (simp add: closed_def)
qed

lemma delivered_step:
  assumes "tm_step (chunk_of message transfer_id) s t" "delivered message transfer_id size_bytes s"
  shows "delivered message transfer_id size_bytes t"
  using assms
proof (induction rule: tm_step.induct)
  case (Reply type m tid sequence offset status w sent m' w')
  then show ?case using delivered_write by blast
next
  case (Stop m w reason)
  from rx_delivered_active [OF Stop(2,1)] show ?case by (intro delivered_aborted) (auto intro: Stop)
next
  case (Clock m w pending t)
  moreover have "manager_ok (m\<lparr>tm_last_activity_ms := t, tm_activity_pending := pending\<rparr>)"
    using step_ok [OF tm_step.Clock [where F = "\<lambda>_. True" and m = m and t = t and
          pending = pending and w = w]] Clock
    by (simp add: rx_delivered_def Let_def)
  ultimately show ?case by (simp add: rx_delivered_def Let_def)
next
  case (ConsumeFail m frame consume w w')
  then have act: "tm_active m" by (simp add: rx_acceptable_def)
  note d = rx_delivered_active [OF ConsumeFail(4) act]
  have "broken w'" using consume_fails [where g = consume, OF _ d(9) ConsumeFail(3)] ConsumeFail(2) d(3) by simp
  then show ?case using d act by (intro delivered_aborted) auto
next
  case (Accept m frame decoded consume w w')
  then show ?case by (intro delivered_accept)
next
  case (FinishFail m frame decoded consume w w' w'')
  then show ?case by (intro delivered_finish_failed)
next
  case (Complete m frame decoded consume w w' w'')
  then show ?case by (intro delivered_complete)
qed (auto simp: rx_delivered_def Let_def)

lemma delivered_run:
  assumes "delivered message transfer_id size_bytes s"
    and "list_all (event_allowed (chunk_of message transfer_id)) events"
  shows "delivered message transfer_id size_bytes (manager_run events s)"
  by (rule tm_steps_invariant [where P = "delivered message transfer_id size_bytes",
        OF manager_run_steps [OF assms(2)] assms(1)]) (rule delivered_step)

lemma delivered_begin:
  assumes "tm_output m = sink" "start w"
    and "begin_rx m size_bytes endpoint options w = ((ManagerOk, info), m', w')"
  shows "delivered message (tm_transfer_id m') size_bytes (m', w')"
proof -
  from begin_common_cases [OF assms(3) [unfolded begin_rx_def]] obtain f where
    f: "ep_begin endpoint = Some f" "f HostToDevice size_bytes w = (EndpointOk, w')"
      "m' = fresh_manager m size_bytes HostToDevice endpoint options"
      "size_bytes \<noteq> 0" "size_bytes \<le> kMaxTransferBytes"
    by auto
  have "manager_ok m'" using f fresh_manager_ok by blast
  moreover have "holds w' []" using begin_empties [OF f(1) assms(2) f(2)] .
  ultimately show ?thesis
    using f(3) assms(1)
    by (simp add: rx_delivered_def) (simp add: fresh_manager_def Let_def default_manager_def crc32_init_def)
qed

text \<open>What a client may rely on at any moment of a transfer.\<close>

lemma delivered_outcome:
  assumes "delivered message transfer_id size_bytes (m, w)"
  shows "(tm_active m \<longrightarrow> holds w (take (unat (tm_transferred_bytes m)) message) \<and>
       unat (tm_transferred_bytes m) \<le> length message \<and> tm_transferred_bytes m < size_bytes) \<and>
     (tm_state m = Completed \<longrightarrow> stored w (take (unat size_bytes) message) \<and> unat size_bytes \<le> length message \<and>
       ti_crc32 (tm_terminal m) = crc32_calculate (take (unat size_bytes) message)) \<and>
     (tm_state m = Aborted \<longrightarrow> dropped w)"
proof -
  have "manager_ok m" "tm_total_bytes m = size_bytes" using assms by (simp_all add: rx_delivered_def Let_def)
  then have "tm_active m \<Longrightarrow> tm_transferred_bytes m < size_bytes"
      "tm_state m = Completed \<Longrightarrow> tm_transferred_bytes m = size_bytes"
    by (auto simp: manager_ok_def active_ok_def inactive_ok_def split: if_splits)
  with assms show ?thesis by (auto simp: rx_delivered_def Let_def)
qed

end

subsection \<open>The test-pattern endpoint keeps the contract\<close>

record test_world = PatternContext +
  tw_wire :: "bytes list"

definition log_sink :: "bytes \<Rightarrow> test_world \<Rightarrow> bool \<times> test_world" where
  "log_sink bs w = (True, w\<lparr>tw_wire := tw_wire w @ [bs]\<rparr>)"

definition pattern_valid :: "'x PatternContext_scheme \<Rightarrow> bool" where
  "pattern_valid p \<longleftrightarrow> pt_consumed p \<le> pt_size p"

definition pattern_content :: "'x PatternContext_scheme \<Rightarrow> bytes" where
  "pattern_content p = map (\<lambda>i. pattern_value (word_of_nat i)) [0..<unat (pt_consumed p)]"

lemma pattern_consume_ok:
  assumes "pattern_valid p" "pattern_consume offset data p = (EndpointOk, p')"
  shows "pattern_valid p' \<and> pattern_content p' = pattern_content p @ data"
proof -
  let ?c = "pt_consumed p" and ?n = "length data"
  have c: "offset = ?c" "?n \<le> unat (pt_size p - ?c)" "p' = p\<lparr>pt_consumed := ?c + word_of_nat ?n\<rparr>"
    and d: "\<And>i. i < ?n \<Longrightarrow> data ! i = pattern_value (?c + word_of_nat i)"
    using assms(2) by (auto simp: pattern_consume_def list_ex_iff split: if_splits)
  have "?n < 2 ^ 64" using c(2) unsigned_less [of "pt_size p - ?c", where 'a = nat]
    by (simp add: le_less_trans)
  then have n: "unat (word_of_nat ?n :: u64) = ?n" by (simp add: unat_of_nat)
  have "?c \<le> pt_size p" using assms(1) by (simp add: pattern_valid_def)
  moreover from c(2) n have "word_of_nat ?n \<le> pt_size p - ?c" by (simp add: word_le_nat_alt)
  ultimately have sum: "?c + word_of_nat ?n \<le> pt_size p"
    "unat (?c + word_of_nat ?n) = unat ?c + ?n"
    using add_within [of ?c "pt_size p" "word_of_nat ?n"] n by simp_all
  have "pattern_content p' = pattern_content p @
      map (\<lambda>i. pattern_value (word_of_nat i)) [unat ?c..<unat ?c + ?n]"
    using sum(2) c(3) upt_add_eq_append [of 0 "unat ?c" ?n]
    by (simp add: pattern_content_def)
  also have "map (\<lambda>i. pattern_value (word_of_nat i)) [unat ?c..<unat ?c + ?n] = data"
    by (rule nth_equalityI) (simp_all add: d)
  finally show ?thesis using sum(1) c(3) by (simp add: pattern_valid_def)
qed

definition pattern_holds :: "'x PatternContext_scheme \<Rightarrow> bytes \<Rightarrow> bool" where
  "pattern_holds p xs \<longleftrightarrow> pattern_valid p \<and> pattern_content p = xs"

interpretation pattern_rx: receiving_endpoint "Some log_sink" pattern_endpoint "\<lambda>_. True" pattern_holds "\<lambda>_. True"
  pattern_holds "\<lambda>_. True"
proof unfold_locales
  fix g offset data xs and w w' :: test_world
  assume "ep_consume pattern_endpoint = Some g" "pattern_holds w xs" "g offset data w = (EndpointOk, w')"
  then show "pattern_holds w' (xs @ data)"
    using pattern_consume_ok by (auto simp: pattern_endpoint_def pattern_holds_def)
qed (auto simp: pattern_endpoint_def pattern_begin_def pattern_finish_def pattern_valid_def
    pattern_content_def pattern_holds_def log_sink_def split: if_splits)

subsection \<open>Properties\<close>

text \<open>
  (C2) Exactly-once, in-order delivery: let a host-to-device transfer be started with any endpoint that
  keeps the receiving contract, and let any sequence of events follow: corrupted frames, duplicates,
  reordered, foreign or lost frames, polls and aborts, where the only assumption is that CRC-valid data
  frames of this transfer carry the bytes of some message at the offset they name. As long as the
  transfer is active the endpoint holds exactly a prefix of that message of the reported length. Once it is
  completed the endpoint has stored exactly the announced number of bytes of it, each once and in order,
  and the reported CRC is the CRC of those bytes. Once it is aborted the endpoint has dropped the data.
\<close>

theorem rx_exactly_once:
  assumes "receiving_endpoint sink endpoint start holds broken stored dropped"
    and "tm_output m = sink" "start w"
    and "begin_rx m size_bytes endpoint options w = ((ManagerOk, info), m0, w0)"
    and "list_all (event_allowed (chunk_of message (tm_transfer_id m0))) events"
    and "manager_run events (m0, w0) = (m1, w1)"
  shows "(tm_active m1 \<longrightarrow> holds w1 (take (unat (tm_transferred_bytes m1)) message) \<and>
       unat (tm_transferred_bytes m1) \<le> length message \<and> tm_transferred_bytes m1 < size_bytes) \<and>
     (tm_state m1 = Completed \<longrightarrow> stored w1 (take (unat size_bytes) message) \<and> unat size_bytes \<le> length message \<and>
       ti_crc32 (tm_terminal m1) = crc32_calculate (take (unat size_bytes) message)) \<and>
     (tm_state m1 = Aborted \<longrightarrow> dropped w1)"
proof -
  have "rx_delivered sink endpoint holds stored dropped message (tm_transfer_id m0) size_bytes (m0, w0)"
    using assms(1-4) by (rule receiving_endpoint.delivered_begin)
  from receiving_endpoint.delivered_run [OF assms(1) this assms(5)] show ?thesis
    using receiving_endpoint.delivered_outcome [OF assms(1)] assms(6) by metis
qed

lemma send_ack_values_state [simp]:
  "tm_state (fst (snd (send_ack_values m tid sequence offset w))) = tm_state m"
  by (cases "send_ack_values m tid sequence offset w")
    (auto simp: send_ack_values_def dest!: write_wire_cases)

lemma complete_rx_state:
  assumes ok: "manager_ok m" and acc: "rx_acceptable m frame"
    and fin: "finish_endpoint m w = (True, w')"
  shows "tm_state (fst (complete_rx (accept_rx_data m frame) w)) = Completed"
proof -
  let ?a = "arm_replay (accept_rx_data m frame)"
  note f = accept_fields [OF ok acc]
  have "finish_endpoint (accept_rx_data m frame) w = (True, w')"
    using fin finish_endpoint_cong [of "accept_rx_data m frame" m w] f by simp
  moreover have "fst (finish_active ?a Completed ReasonCompleted w') = closed ?a Completed"
    using f by (simp add: finish_active_closed arm_replay_def)
  ultimately show ?thesis
    by (simp add: complete_rx_form case_prod_beta closed_def)
qed

lemma handle_rx_data_final:
  assumes ok: "manager_ok m" and acc: "rx_acceptable m frame"
    and new: "tm_accepted_data_history_count m = 0"
    and c: "ep_consume (tm_endpoint m) = Some consume"
      "consume (pf_offset frame) (pf_payload frame) w = (EndpointOk, w')"
    and fin: "finish_endpoint m w' = (True, w'')"
      "tm_transferred_bytes (accept_rx_data m frame) = tm_total_bytes m"
  shows "tm_state (fst (handle_rx_data m frame w)) = Completed"
proof -
  have "\<not> tm_total_bytes m - tm_transferred_bytes m < ucast (pf_payload_length frame)"
    using acc by (simp add: rx_acceptable_def not_less)
  then have "handle_rx_data m frame w = complete_rx (accept_rx_data m frame) w'"
    using acc new c fin accept_fields [OF ok acc]
    by (simp add: handle_rx_data_def rx_acceptable_def)
  then show ?thesis using complete_rx_state [OF ok acc fin(1)] by simp
qed

text \<open>A concrete transfer of three pattern bytes in one frame, for the witness.\<close>

definition pattern_start :: test_world where
  "pattern_start = \<lparr>pt_direction = DeviceToHost, pt_size = 0, pt_consumed = 0, pt_produced = 0,
     tw_wire = []\<rparr>"

definition pattern_frame :: bytes where
  "pattern_frame = frame_image Data 1 0 0 0 [0, 1, 2]"

lemma pattern_value_small: "pattern_value 0 = 0" "pattern_value 1 = 1" "pattern_value 2 = 2"
  by (simp_all add: pattern_value_def)

lemma pattern_transfer_begins:
  "\<exists>info m0 w0. begin_rx (init default_manager (Some log_sink)) 3 pattern_endpoint default_options
     pattern_start = ((ManagerOk, info), m0, w0) \<and>
   m0 = fresh_manager (init default_manager (Some log_sink)) 3 HostToDevice pattern_endpoint
     default_options \<and>
   w0 = pattern_start\<lparr>pt_direction := HostToDevice, pt_size := 3\<rparr>"
  by (simp add: begin_rx_def begin_common_form pattern_endpoint_def endpoint_incomplete_def
      options_unsupported_def default_options_def Let_def pattern_begin_def pattern_start_def
      kMaxTransferBytes_def kMaxPayloadBytes_def init_def default_manager_def)

lemma pattern_frame_parses:
  "\<exists>crc. parse_decoded pattern_frame =
     Some \<lparr>pf_structural_valid = True, pf_crc_valid = True, pf_type = Data, pf_flags = 0,
      pf_header_length = 28, pf_transfer_id = 1, pf_sequence = 0, pf_offset = 0,
      pf_payload_length = 3, pf_status = 0, pf_wire_crc = crc, pf_payload = [0, 1, 2]\<rparr>"
proof -
  have "frame_fields_ok Data 1 0 [0, 1, 2]"
    by (simp add: frame_fields_ok_def is_known_type_def codec_constants)
  from parse_frame_image [OF this, of 0 0] show ?thesis by (simp add: pattern_frame_def)
qed

lemma pattern_transfer_completes:
  fixes w0 :: test_world
  defines "m0 \<equiv> fresh_manager (init default_manager (Some log_sink)) 3 HostToDevice pattern_endpoint
     default_options"
    and "w0 \<equiv> pattern_start\<lparr>pt_direction := HostToDevice, pt_size := 3\<rparr>"
  shows "tm_state (fst (manager_run [FrameEvent pattern_frame 5] (m0, w0))) = Completed"
proof -
  obtain frame crc where f: "parse_decoded pattern_frame = Some frame"
    and frame: "frame = \<lparr>pf_structural_valid = True, pf_crc_valid = True, pf_type = Data, pf_flags = 0,
      pf_header_length = 28, pf_transfer_id = 1, pf_sequence = 0, pf_offset = 0,
      pf_payload_length = 3, pf_status = 0, pf_wire_crc = crc, pf_payload = [0, 1, 2]\<rparr>"
    using pattern_frame_parses by blast
  let ?m = "m0\<lparr>tm_activity_pending := True\<rparr>"
  have m0: "manager_ok m0"
    unfolding m0_def by (rule fresh_manager_ok) (simp_all add: kMaxTransferBytes_def kMaxPayloadBytes_def)
  then have ok: "manager_ok ?m"
    using step_ok [OF tm_step.Clock [where F = "\<lambda>_. True" and m = m0 and w = w0 and pending = True
          and t = "tm_last_activity_ms m0"]]
    by (simp add: m0_def fresh_manager_def Let_def)
  have fields: "tm_active m0" "tm_direction m0 = HostToDevice" "tm_transfer_id m0 = 1"
      "tm_total_bytes m0 = 3" "tm_transferred_bytes m0 = 0" "tm_expected_sequence m0 = 0"
      "tm_expected_offset m0 = 0" "tm_accepted_data_history_count m0 = 0"
      "tm_endpoint m0 = pattern_endpoint"
    by (simp_all add: m0_def fresh_manager_def Let_def default_manager_def init_def)
  have acc: "rx_acceptable ?m frame" by (simp add: rx_acceptable_def fields frame)
  have "tm_transferred_bytes (accept_rx_data ?m frame) = 3"
    using accept_rx_data_form [of ?m frame] by (auto simp: fields frame)
  moreover have "pattern_consume 0 [0, 1, 2] w0 = (EndpointOk, w0\<lparr>pt_consumed := 3\<rparr>)"
    by (simp add: pattern_consume_def w0_def pattern_start_def upt_rec pattern_value_small)
  moreover have "finish_endpoint ?m (w0\<lparr>pt_consumed := 3\<rparr>) = (True, w0\<lparr>pt_consumed := 3\<rparr>)"
    by (simp add: finish_endpoint_def fields pattern_endpoint_def pattern_finish_def w0_def)
  ultimately have "tm_state (fst (handle_rx_data ?m frame w0)) = Completed"
    using handle_rx_data_final [OF ok acc, of pattern_consume w0]
    by (simp add: fields frame pattern_endpoint_def)
  then show ?thesis
    by (simp add: manager_run_def handle_decoded_frame_def f fields) (simp add: frame fields)
qed

theorem rx_exactly_once_witness:
  "\<exists>info m0 w0 m1 w1.
     begin_rx (init default_manager (Some log_sink)) 3 pattern_endpoint default_options
       pattern_start = ((ManagerOk, info), m0, w0) \<and>
     list_all (event_allowed (chunk_of [0, 1, 2] (tm_transfer_id m0))) [FrameEvent pattern_frame 5] \<and>
     manager_run [FrameEvent pattern_frame 5] (m0, w0) = (m1, w1) \<and>
     tm_state m1 = Completed \<and> pattern_content w1 = [0, 1, 2] \<and>
     ti_crc32 (tm_terminal m1) = crc32_calculate [0, 1, 2]"
proof -
  obtain info m0 w0 where b: "begin_rx (init default_manager (Some log_sink)) 3 pattern_endpoint
      default_options pattern_start = ((ManagerOk, info), m0, w0)"
    and m0: "m0 = fresh_manager (init default_manager (Some log_sink)) 3 HostToDevice
      pattern_endpoint default_options"
    and w0: "w0 = pattern_start\<lparr>pt_direction := HostToDevice, pt_size := 3\<rparr>"
    using pattern_transfer_begins by blast
  obtain m1 w1 where run: "manager_run [FrameEvent pattern_frame 5] (m0, w0) = (m1, w1)" by force
  have ev: "list_all (event_allowed (chunk_of [0, 1, 2] (tm_transfer_id m0)))
      [FrameEvent pattern_frame 5]"
    using pattern_frame_parses by (auto simp: chunk_of_def)
  have "tm_state m1 = Completed" using pattern_transfer_completes m0 w0 run by (metis fst_conv)
  moreover have "tm_output (init default_manager (Some log_sink)) = Some log_sink"
    by (simp add: init_def Let_def)
  ultimately show ?thesis
    using b ev run rx_exactly_once [OF pattern_rx.receiving_endpoint_axioms _ _ b ev run]
    by (auto simp: pattern_holds_def)
qed

end
