(* ===== verification/Transfer_Sender.thy ===== *)
theory Transfer_Sender
  imports Transfer_Receiver
begin

section \<open>Replies, retransmission and timeouts of the transfer manager\<close>

text \<open>
  What exactly goes out on the wire for a reply, idempotence of duplicates, replay of the final ACK,
  the receiver timeout and the bounded retransmission of a device-to-host transfer.
\<close>

definition wire_image :: "FrameType \<Rightarrow> u32 \<Rightarrow> u32 \<Rightarrow> u64 \<Rightarrow> u16 \<Rightarrow> bytes \<Rightarrow> bytes" where
  "wire_image type transfer_id sequence offset status payload =
     [0, 0] @ cobs_stuff [] (frame_image type transfer_id sequence offset status payload) @ [0]"

lemma take_overwrite_0: "take (length xs) (overwrite buf 0 xs) = xs"
  by (simp add: overwrite_def)

lemma write_wire_image:
  assumes "arrays_ok m" "frame_fields_ok type transfer_id status payload"
    and "tm_output m = Some emit"
    and "emit (wire_image type transfer_id sequence offset status payload) w = (sent, w')"
  shows "\<exists>wire. write_wire m type transfer_id sequence offset status payload w =
    (sent, m\<lparr>tm_wire_frame := wire\<rparr>, w')"
proof -
  let ?body = "cobs_stuff [] (frame_image type transfer_id sequence offset status payload)"
  let ?wire = "overwrite (tm_wire_frame m) 0 ([0, 0] @ ?body @ [0])"
  have "take (length ?body + 3) ?wire = wire_image type transfer_id sequence offset status payload"
    using take_overwrite_0 [of "[0, 0] @ ?body @ [0]" "tm_wire_frame m"]
    by (simp add: wire_image_def numeral_3_eq_3)
  moreover have "encode_frame type 0 transfer_id sequence offset status payload (tm_decoded_frame m)
      (tm_encoded_body m) (tm_wire_frame m) = Some (Some (?wire, length ?body + 3))"
    using assms(1,2) by (subst encode_frame_ok) (simp_all add: arrays_ok_def Let_def)
  ultimately show ?thesis
    using assms(3,4) by (auto simp: write_wire_def Let_def)
qed

lemma reply_fields_ok:
  "transfer_id \<noteq> 0 \<Longrightarrow> frame_fields_ok Ack transfer_id 0 []"
  "transfer_id \<noteq> 0 \<Longrightarrow> status \<noteq> 0 \<Longrightarrow> frame_fields_ok Nack transfer_id status []"
  by (simp_all add: frame_fields_ok_def is_known_type_def codec_constants)

lemma send_ack_sent:
  assumes "manager_ok m" "tm_active m" "tm_output m = Some emit"
    and "emit (wire_image Ack (tm_transfer_id m) (tm_expected_sequence m) (tm_expected_offset m) 0 []) w
      = (True, w')"
  shows "\<exists>wire. send_ack m w = (m\<lparr>tm_wire_frame := wire\<rparr>, w')"
proof -
  have "tm_transfer_id m \<noteq> 0" "arrays_ok m"
    using assms(1,2) by (simp_all add: manager_ok_def active_ok_def)
  then have "\<exists>wire. write_wire m Ack (tm_transfer_id m) (tm_expected_sequence m)
      (tm_expected_offset m) 0 [] w = (True, m\<lparr>tm_wire_frame := wire\<rparr>, w')"
    using assms(3,4) by (intro write_wire_image reply_fields_ok)
  then show ?thesis by (auto simp: send_ack_def send_ack_values_def)
qed

text \<open>
  (C10) Duplicates are acknowledged and otherwise ignored: when the manager has recently accepted a data
  frame (its sequence number, offset, length and checksum are in the history) and the host sends it
  again because the ACK was lost, the manager sends exactly one ACK with the current position. No
  endpoint callback runs, and apart from the activity flag and the scratch array the manager is
  unchanged: no byte is consumed twice.
\<close>

theorem rx_duplicate_idempotent:
  assumes "manager_ok m" "tm_active m" "tm_direction m = HostToDevice"
    and "parse_decoded decoded = Some frame" "pf_crc_valid frame" "pf_type frame = Data"
    and "pf_transfer_id frame = tm_transfer_id m"
    and "list_ex (\<lambda>identity. matches_identity identity frame)
      (take (tm_accepted_data_history_count m) (tm_accepted_data_history m))"
    and "tm_output m = Some emit"
    and "emit (wire_image Ack (tm_transfer_id m) (tm_expected_sequence m) (tm_expected_offset m) 0 []) w
      = (True, w')"
  shows "\<exists>wire. handle_decoded_frame m decoded now_ms w =
    (m\<lparr>tm_activity_pending := True, tm_wire_frame := wire\<rparr>, w')"
proof -
  let ?m = "m\<lparr>tm_activity_pending := True\<rparr>"
  have "manager_ok ?m" using assms(1,2) by (simp add: ok_defs)
  then have "\<exists>wire. send_ack ?m w = (?m\<lparr>tm_wire_frame := wire\<rparr>, w')"
    using assms(2,9,10) by (intro send_ack_sent [where emit = emit]) simp_all
  with assms show ?thesis
    by (simp add: handle_decoded_frame_def handle_rx_data_def)
qed


text \<open>
  (C16) The receiver timeout is exact and survives the wrap-around of the 32-bit millisecond clock: for
  an active host-to-device transfer whose last activity is recorded, a poll \<open>delta\<close> milliseconds later
  (added with wrap-around) aborts the transfer with the reason \<^verbatim>\<open>ReceiverTimeout\<close> if \<open>delta\<close> is at least
  10000, calling \<^verbatim>\<open>abort\<close> and then \<^verbatim>\<open>terminal\<close> of the endpoint, and does nothing at all otherwise.
\<close>

theorem rx_timeout_exact:
  assumes "manager_ok m" "tm_active m" "tm_direction m = HostToDevice"
    and "\<not> tm_activity_pending m" "tm_last_activity_ms m \<noteq> 0"
  shows "poll m (tm_last_activity_ms m + delta) w =
    (if delta \<ge> 10000
     then (closed m Aborted,
           call_terminal m Aborted ReceiverTimeout (call_abort m Aborted ReceiverTimeout w))
     else (m, w))"
  using assms manager_ok_active [OF assms(1,2)]
  by (auto simp: poll_def Let_def elapsed_def kReceiverTimeoutMs_def finish_active_closed)

subsection \<open>Concrete managers for the witnesses\<close>

definition sample_manager :: "u64 \<Rightarrow> test_world TransferManager" where
  "sample_manager size_bytes = fresh_manager (init default_manager (Some log_sink)) size_bytes HostToDevice
     pattern_endpoint default_options"

definition sample_frame :: ParsedFrame where
  "sample_frame = the (parse_decoded pattern_frame)"

lemma replicate_two: "replicate 2 x = [x, x]"
  by (simp add: numeral_2_eq_2)

lemma clock_ok:
  "manager_ok m \<Longrightarrow> manager_ok (m\<lparr>tm_last_activity_ms := t, tm_activity_pending := pending\<rparr>)"
  by (cases "tm_active m") (simp_all add: ok_defs)

lemma sample_fields:
  "tm_active (sample_manager n)" "tm_direction (sample_manager n) = HostToDevice"
  "tm_transfer_id (sample_manager n) = 1" "tm_total_bytes (sample_manager n) = n"
  "tm_transferred_bytes (sample_manager n) = 0" "tm_expected_sequence (sample_manager n) = 0"
  "tm_expected_offset (sample_manager n) = 0" "tm_accepted_data_history_count (sample_manager n) = 0"
  "tm_accepted_data_history (sample_manager n) = [default_identity, default_identity]"
  "tm_output (sample_manager n) = Some log_sink" "tm_transport (sample_manager n) = StopAndWait"
  "tm_final_ack_replay (sample_manager n) = default_replay"
  "\<not> tm_activity_pending (sample_manager n)"
  by (simp_all add: sample_manager_def fresh_manager_def Let_def default_manager_def init_def
      default_options_def kMaxWindowFrames_def replicate_two)

lemma sample_ok: "n = 3 \<or> n = 5 \<Longrightarrow> manager_ok (sample_manager n)"
  unfolding sample_manager_def
  by (rule fresh_manager_ok) (auto simp: kMaxTransferBytes_def kMaxPayloadBytes_def)

lemma sample_frame_fields:
  "parse_decoded pattern_frame = Some sample_frame" "pf_crc_valid sample_frame"
  "pf_type sample_frame = Data" "pf_transfer_id sample_frame = 1" "pf_sequence sample_frame = 0"
  "pf_offset sample_frame = 0" "pf_payload_length sample_frame = 3"
  using pattern_frame_parses by (auto simp: sample_frame_def)

lemma sample_acceptable: "n = 3 \<or> n = 5 \<Longrightarrow> rx_acceptable (sample_manager n) sample_frame"
  by (auto simp: rx_acceptable_def sample_fields sample_frame_fields)

lemma sample_accepted_history:
  "tm_accepted_data_history_count (accept_rx_data (sample_manager n) sample_frame) = 1"
  "tm_accepted_data_history (accept_rx_data (sample_manager n) sample_frame) =
     [identity_of sample_frame, default_identity]"
  "tm_transferred_bytes (accept_rx_data (sample_manager n) sample_frame) = 3"
  by (simp_all add: accept_rx_data_def remember_accepted_data_def Let_def sample_fields
      sample_frame_fields)

lemma matches_own_identity: "matches_identity (identity_of frame) frame"
  by (simp add: matches_identity_def identity_of_def)

theorem rx_duplicate_idempotent_witness:
  "\<exists>wire. let m = accept_rx_data (sample_manager 5) sample_frame in
     handle_decoded_frame m pattern_frame 7 pattern_start =
       (m\<lparr>tm_activity_pending := True, tm_wire_frame := wire\<rparr>,
        pattern_start\<lparr>tw_wire := [wire_image Ack 1 1 3 0 []]\<rparr>)"
proof -
  let ?m = "accept_rx_data (sample_manager 5) sample_frame"
  note acc = sample_ok [of 5, simplified] sample_acceptable [of 5, simplified]
  have ok: "manager_ok ?m"
    by (rule accept_ok [OF acc]) (simp add: sample_accepted_history sample_fields)
  have seq: "tm_expected_sequence ?m = 1" "tm_expected_offset ?m = 3"
    using accept_data_facts(5,6) [OF acc] accept_rx_data_form [of "sample_manager 5" sample_frame]
    by (auto simp: sample_fields sample_frame_fields)
  show ?thesis
    unfolding Let_def
    by (rule rx_duplicate_idempotent [OF ok, where frame = sample_frame and emit = log_sink])
      (simp_all add: accept_fields [OF acc] sample_fields sample_frame_fields seq log_sink_def
        sample_accepted_history matches_own_identity pattern_start_def)
qed


theorem rx_timeout_exact_witness:
  "let m = (sample_manager 3)\<lparr>tm_last_activity_ms := 0xffffff00\<rparr> in
   poll m 9743 pattern_start = (m, pattern_start) \<and>
   tm_state (fst (poll m 9744 pattern_start)) = Aborted"
proof -
  let ?m = "(sample_manager 3)\<lparr>tm_last_activity_ms := 0xffffff00\<rparr>"
  have ok: "manager_ok ?m"
    using clock_ok [OF sample_ok [of 3], of False "0xffffff00"]
    by (simp add: sample_manager_def fresh_manager_def Let_def default_manager_def)
  have wrap: "(4294977039 :: u32) = 9743" "(4294977040 :: u32) = 9744" by simp_all
  show ?thesis
    using rx_timeout_exact [OF ok, of 9999 pattern_start]
      rx_timeout_exact [OF ok, of 10000 pattern_start]
    by (simp add: sample_fields closed_def wrap Let_def)
qed

subsection \<open>Bounded retransmission\<close>

definition awaiting :: "'w TransferManager \<Rightarrow> bool" where
  "awaiting m \<longleftrightarrow>
     manager_ok m \<and> tm_active m \<and> tm_direction m = DeviceToHost \<and> tm_tx_waiting_ack m"

lemma retry_ok:
  assumes "awaiting m" "tm_tx_retries m < kMaxRetransmissions"
  shows "manager_ok (m\<lparr>tm_tx_retries := tm_tx_retries m + 1\<rparr>)"
proof -
  have "tm_step (\<lambda>_. True) (m, w) (m\<lparr>tm_tx_retries := tm_tx_retries m + 1\<rparr>, w)" for w
    using assms by (intro Retry) (simp_all add: awaiting_def)
  from step_ok [OF this] assms(1) show ?thesis by (simp add: awaiting_def)
qed

lemma send_current_tx_result:
  assumes "manager_ok m" "tm_active m" "tm_direction m = DeviceToHost" "tm_tx_frame_ready m"
    and "send_current_tx m now_ms w = (m', w')"
  shows "tm_state m' = Aborted \<and> \<not> tm_active m' \<or>
    awaiting m' \<and> tm_tx_retries m' = tm_tx_retries m \<and> tm_tx_last_sent_ms m' = now_ms"
proof -
  obtain sent m1 w1 where wr: "write_wire m Data (tm_transfer_id m) (tm_tx_sequence m)
      (tm_tx_offset m) 0 (take (unat (tm_tx_length m)) (tm_tx_payload m)) w = (sent, m1, w1)"
    by (metis prod_cases3)
  have m1: "manager_ok m1" "tm_active m1" "tm_direction m1 = DeviceToHost" "tm_tx_frame_ready m1"
      "tm_tx_retries m1 = tm_tx_retries m"
    using wire_ok [OF assms(1) wr] write_wire_cases [OF wr] assms(2-4) by auto
  have m': "(m', w') = (if sent then (m1\<lparr>tm_tx_waiting_ack := True, tm_tx_last_sent_ms := now_ms\<rparr>, w1)
      else finish_active m1 Aborted OutputError w1)"
    using assms(2,4,5) wr by (simp add: send_current_tx_def split: if_splits)
  have ok: "manager_ok m'"
    using steps_ok [OF send_current_tx_steps [where F = "\<lambda>_. True"], of m w now_ms] assms by simp
  show ?thesis
  proof (cases sent)
    case True
    with m' m1 ok show ?thesis by (simp add: awaiting_def)
  next
    case False
    then have "m' = fst (finish_active m1 Aborted OutputError w1)" using m' by (metis fst_conv)
    then show ?thesis
      using m1 manager_ok_active [OF m1(1,2)] by (simp add: finish_active_closed closed_def)
  qed
qed

lemma poll_awaiting:
  assumes aw: "awaiting m" and due: "now_ms - tm_tx_last_sent_ms m \<ge> 1000"
    and eq: "poll m now_ms w = (m', w')"
  shows "tm_state m' = Aborted \<and> \<not> tm_active m' \<or>
    awaiting m' \<and> tm_tx_retries m < 3 \<and> tm_tx_retries m' = tm_tx_retries m + 1 \<and>
      tm_tx_last_sent_ms m' = now_ms"
proof -
  define t where "t = (let t = if tm_activity_pending m then now_ms else tm_last_activity_ms m
      in if t = 0 then now_ms else t)"
  have st: "tm_active m" "tm_direction m = DeviceToHost" "tm_tx_waiting_ack m"
    "\<not> tm_tx_pending_start m" using aw by (auto simp: awaiting_def ok_defs)
  have e: "elapsed now_ms (tm_tx_last_sent_ms m) kAckTimeoutMs"
    using due by (simp add: elapsed_def kAckTimeoutMs_def)
  have p: "poll m now_ms w =
      (let m = m\<lparr>tm_last_activity_ms := t, tm_activity_pending := False\<rparr> in
       if elapsed now_ms t kReceiverTimeoutMs then finish_active m Aborted ReceiverTimeout w
       else retry_current_tx m now_ms w)"
    using st e by (cases m) (auto simp: poll_def Let_def t_def)
  let ?m = "m\<lparr>tm_last_activity_ms := t, tm_activity_pending := False\<rparr>"
  have ok: "manager_ok ?m" "awaiting ?m" and act: "tm_active ?m"
    using aw clock_ok [of m False t] by (simp_all add: awaiting_def)
  have dead: "tm_state m' = Aborted \<and> \<not> tm_active m'"
    if "finish_active ?m Aborted reason w = (m', w')" for reason
  proof -
    have "m' = closed ?m Aborted"
      using that manager_ok_active [OF ok(1) act] act by (simp add: finish_active_closed)
    then show ?thesis by (simp add: closed_def)
  qed
  show ?thesis
  proof (cases "tm_tx_retries m < 3 \<and> \<not> elapsed now_ms t kReceiverTimeoutMs")
    case True
    let ?r = "?m\<lparr>tm_tx_retries := tm_tx_retries m + 1\<rparr>"
    have "manager_ok ?r" using retry_ok [OF ok(2)] True by (simp add: kMaxRetransmissions_def)
    moreover have "send_current_tx ?r now_ms w = (m', w')"
      using True eq p
      by (auto simp: retry_current_tx_def kMaxRetransmissions_def Let_def split: if_splits)
    ultimately show ?thesis
      using send_current_tx_result [of ?r now_ms w m' w'] aw True
      by (auto simp: awaiting_def ok_defs)
  next
    case False
    then show ?thesis
      using eq p dead
      by (auto simp: retry_current_tx_def kMaxRetransmissions_def Let_def split: if_splits)
  qed
qed

primrec spaced :: "u32 \<Rightarrow> u32 list \<Rightarrow> bool" where
  "spaced last_ms [] = True"
| "spaced last_ms (t # ts) = (t - last_ms \<ge> kAckTimeoutMs \<and> spaced t ts)"

lemma polls_inactive:
  "\<not> tm_active m \<Longrightarrow> manager_run (map PollEvent ts) (m, w) = (m, w)"
  by (induction ts) (simp_all add: manager_run_def poll_def)

lemma retries_exhausted:
  "awaiting m \<Longrightarrow> spaced (tm_tx_last_sent_ms m) ts \<Longrightarrow> 3 < length ts + unat (tm_tx_retries m) \<Longrightarrow>
   \<exists>m' w'. manager_run (map PollEvent ts) (m, w) = (m', w') \<and> tm_state m' = Aborted \<and> \<not> tm_active m'"
proof (induction ts arbitrary: m w)
  case Nil
  then have "tm_tx_retries m \<le> 3" by (auto simp: awaiting_def ok_defs kMaxRetransmissions_def)
  with Nil show ?case by (simp add: word_le_nat_alt)
next
  case (Cons t ts)
  obtain m1 w1 where p: "poll m t w = (m1, w1)" by force
  have run: "manager_run (map PollEvent (t # ts)) (m, w) = manager_run (map PollEvent ts) (m1, w1)"
    using p by (simp add: manager_run_def)
  have "t - tm_tx_last_sent_ms m \<ge> 1000" using Cons.prems(2) by (simp add: kAckTimeoutMs_def)
  from poll_awaiting [OF Cons.prems(1) this p]
  consider "tm_state m1 = Aborted" "\<not> tm_active m1"
    | "awaiting m1" "tm_tx_retries m < 3" "tm_tx_retries m1 = tm_tx_retries m + 1"
      "tm_tx_last_sent_ms m1 = t"
    by blast
  then show ?case
  proof cases
    case 1
    then show ?thesis using run polls_inactive by metis
  next
    case 2
    then have "unat (tm_tx_retries m1) = unat (tm_tx_retries m) + 1"
      by (simp add: unat_add_no_wrap word_less_nat_alt)
    with 2 Cons.prems Cons.IH [of m1 w1] run show ?thesis by simp
  qed
qed


definition waiting_manager :: "test_world TransferManager" where
  "waiting_manager = (fresh_manager (init default_manager (Some log_sink)) 3 DeviceToHost
     pattern_endpoint default_options)
     \<lparr>tm_tx_pending_start := False, tm_tx_frame_ready := True, tm_tx_waiting_ack := True,
      tm_tx_length := 3, tm_tx_last_sent_ms := 0xfffffff0\<rparr>"


end
