(* ===== verification/Control_Stream.thy ===== *)
theory Control_Stream
  imports Control_Framing Transfer_Sender
begin

section \<open>Demultiplexer of the serial link (control_stream.cpp)\<close>

text \<open>
  One serial byte stream carries text lines and binary frames: two zero bytes open a binary candidate,
  a zero byte closes it, and four consecutive zero bytes resynchronise the parser. The record
  \<open>ControlStream\<close> holds the demultiplexer state together with the framing state of the control plane it
  points to; the transfer manager it points to and the world are the state \<open>'w mstate\<close>. What the control
  plane does with a complete text line (\<^verbatim>\<open>protocol::handle_frame\<close>) is the argument \<open>handle_frame\<close>.
\<close>

definition kTransportSyncLength :: nat where "kTransportSyncLength = 4"

definition sync_feed :: "nat \<Rightarrow> u8 \<Rightarrow> bool \<times> nat" where
  "sync_feed consecutive_zeros byte =
     (if byte \<noteq> 0 then (False, 0)
      else if consecutive_zeros < kTransportSyncLength
      then (consecutive_zeros + 1 = kTransportSyncLength, consecutive_zeros + 1)
      else (False, consecutive_zeros))"

definition sync_active :: "nat \<Rightarrow> bool" where
  "sync_active consecutive_zeros \<longleftrightarrow> consecutive_zeros \<ge> kTransportSyncLength"

datatype StreamState = Text | StartZero | BinaryCollect | BinaryDiscard

record ControlStream =
  cs_control :: ControlPlane
  cs_state :: StreamState
  cs_encoded_length :: nat
  cs_encoded :: bytes
  cs_decoded :: bytes
  cs_consecutive_zeros :: nat

definition reset_binary :: "ControlStream \<Rightarrow> ControlStream" where
  "reset_binary cs = cs\<lparr>cs_encoded_length := 0, cs_state := Text\<rparr>"

definition reset_framing :: "ControlStream \<Rightarrow> ControlStream" where
  "reset_framing cs = (let cs = reset_binary cs in cs\<lparr>cs_control := reset_input (cs_control cs)\<rparr>)"

definition process_text_byte ::
  "(Frame \<Rightarrow> 's \<Rightarrow> 's) \<Rightarrow> ControlStream \<Rightarrow> u8 \<Rightarrow> 's \<Rightarrow> ControlStream \<times> 's" where
  "process_text_byte handle_frame cs byte s =
     (if byte = 0 then
        (cs\<lparr>cs_control := reset_input (cs_control cs), cs_state := StartZero\<rparr>, s)
      else
        let (control, s) = control_feed (cs_control cs) [byte] handle_frame s
        in (cs\<lparr>cs_control := control\<rparr>, s))"

definition finish_binary_candidate ::
  "ControlStream \<Rightarrow> u32 \<Rightarrow> 'w mstate \<Rightarrow> ControlStream \<times> 'w mstate" where
  "finish_binary_candidate cs now_ms s =
     (let (cs, s) =
        (if cs_encoded_length cs \<noteq> 0 then
           (case cobs_decode (take (cs_encoded_length cs) (cs_encoded cs)) (cs_decoded cs) of
              Some (Some (decoded, decoded_length)) \<Rightarrow>
                (cs\<lparr>cs_decoded := decoded\<rparr>,
                 handle_decoded_frame (fst s) (take decoded_length decoded) now_ms (snd s))
            | _ \<Rightarrow> (cs, s))
         else (cs, s))
      in (reset_binary cs, s))"

definition feed_byte ::
  "(Frame \<Rightarrow> 'w mstate \<Rightarrow> 'w mstate) \<Rightarrow> ControlStream \<Rightarrow> u8 \<Rightarrow> u32 \<Rightarrow> 'w mstate \<Rightarrow>
   ControlStream \<times> 'w mstate" where
  "feed_byte handle_frame cs byte now_ms s =
     (case cs_state cs of
        Text \<Rightarrow> process_text_byte handle_frame cs byte s
      | StartZero \<Rightarrow>
          if byte = 0 then (cs\<lparr>cs_encoded_length := 0, cs_state := BinaryCollect\<rparr>, s)
          else process_text_byte handle_frame (cs\<lparr>cs_state := Text\<rparr>) byte s
      | BinaryCollect \<Rightarrow>
          if byte = 0 then finish_binary_candidate cs now_ms s
          else if cs_encoded_length cs < kMaxEncodedBodyBytes
          then (cs\<lparr>cs_encoded := (cs_encoded cs)[cs_encoded_length cs := byte],
                   cs_encoded_length := cs_encoded_length cs + 1\<rparr>, s)
          else (cs\<lparr>cs_state := BinaryDiscard\<rparr>, s)
      | BinaryDiscard \<Rightarrow> (if byte = 0 then reset_binary cs else cs, s))"

definition feed_transport_byte ::
  "(Frame \<Rightarrow> 'w mstate \<Rightarrow> 'w mstate) \<Rightarrow> ControlStream \<Rightarrow> u8 \<Rightarrow> u32 \<Rightarrow> 'w mstate \<Rightarrow>
   ControlStream \<times> 'w mstate" where
  "feed_transport_byte handle_frame cs byte now_ms s =
     (let (sync_complete, zeros) = sync_feed (cs_consecutive_zeros cs) byte;
          cs = cs\<lparr>cs_consecutive_zeros := zeros\<rparr>
      in if sync_complete then (reset_framing cs, s)
         else if sync_active zeros then (cs, s)
         else feed_byte handle_frame cs byte now_ms s)"

definition stream_init :: "ControlPlane \<Rightarrow> ControlStream" where
  "stream_init control =
     \<lparr>cs_control = control, cs_state = Text, cs_encoded_length = 0,
      cs_encoded = replicate kMaxEncodedBodyBytes 0, cs_decoded = replicate kMaxDecodedFrameBytes 0,
      cs_consecutive_zeros = 0\<rparr>"

fun stream_feed ::
  "(Frame \<Rightarrow> 'w mstate \<Rightarrow> 'w mstate) \<Rightarrow> ControlStream \<Rightarrow> bytes \<Rightarrow> u32 \<Rightarrow> 'w mstate \<Rightarrow>
   ControlStream \<times> 'w mstate" where
  "stream_feed handle_frame cs [] now_ms s = (cs, s)"
| "stream_feed handle_frame cs (byte # data) now_ms s =
     (let (cs, s) = feed_transport_byte handle_frame cs byte now_ms s
      in stream_feed handle_frame cs data now_ms s)"

subsection \<open>Invariant\<close>

definition stream_ok :: "ControlStream \<Rightarrow> bool" where
  "stream_ok cs \<longleftrightarrow>
     control_ok (cs_control cs) \<and> length (cs_encoded cs) = kMaxEncodedBodyBytes \<and>
     length (cs_decoded cs) = kMaxDecodedFrameBytes \<and>
     cs_encoded_length cs \<le> kMaxEncodedBodyBytes \<and>
     cs_consecutive_zeros cs \<le> kTransportSyncLength \<and>
     (sync_active (cs_consecutive_zeros cs) \<longrightarrow>
        cs_state cs = Text \<and> cs_encoded_length cs = 0 \<and> holds (cs_control cs) [])"

lemma control_ok_reset: "control_ok c \<Longrightarrow> control_ok (reset_input c)"
  using holds_reset_input holds_ok by blast

lemma consume_byte_ok:
  assumes "control_ok c" "consume_byte c byte callback s = (c', s')"
  shows "control_ok c'"
  using assms
  by (auto simp: consume_byte_def emit_line_def framing_reset_def control_ok_def Let_def
      split: if_splits)

lemma process_text_byte_ok:
  assumes "stream_ok cs" "\<not> sync_active (cs_consecutive_zeros cs)"
    and "process_text_byte handle_frame cs byte s = (cs', s')"
  shows "stream_ok cs'"
proof (cases "byte = 0")
  case True
  with assms control_ok_reset show ?thesis by (auto simp: process_text_byte_def stream_ok_def)
next
  case False
  obtain c s1 where c: "consume_byte (cs_control cs) byte handle_frame s = (c, s1)" by force
  with False assms(3) have "cs' = cs\<lparr>cs_control := c\<rparr>"
    by (simp add: process_text_byte_def control_feed_def)
  with consume_byte_ok [OF _ c] assms(1,2) show ?thesis by (simp add: stream_ok_def)
qed

lemma finish_candidate_form:
  "\<exists>decoded s'. finish_binary_candidate cs now_ms s =
     (reset_binary (cs\<lparr>cs_decoded := decoded\<rparr>), s') \<and> length decoded = length (cs_decoded cs)"
proof (cases "cs_encoded_length cs = 0")
  case True
  then show ?thesis
    by (intro exI [of _ "cs_decoded cs"]) (simp add: finish_binary_candidate_def)
next
  case False
  let ?in = "take (cs_encoded_length cs) (cs_encoded cs)"
  obtain r where r: "cobs_decode ?in (cs_decoded cs) = Some r"
    "case r of None \<Rightarrow> True | Some (dec, k) \<Rightarrow> k \<le> length (cs_decoded cs) \<and>
      length dec = length (cs_decoded cs)"
    using cobs_decode_safe by blast
  show ?thesis
  proof (cases r)
    case None
    with False r show ?thesis
      by (intro exI [of _ "cs_decoded cs"]) (simp add: finish_binary_candidate_def)
  next
    case (Some p)
    with False r show ?thesis
      by (cases p) (auto simp: finish_binary_candidate_def)
  qed
qed

lemma feed_byte_ok:
  assumes "stream_ok cs" "\<not> sync_active (cs_consecutive_zeros cs)"
    and "feed_byte handle_frame cs byte now_ms s = (cs', s')"
  shows "stream_ok cs'"
proof (cases "cs_state cs")
  case Text
  with assms show ?thesis using process_text_byte_ok by (auto simp: feed_byte_def)
next
  case StartZero
  have t: "stream_ok (cs\<lparr>cs_state := Text\<rparr>)"
    and collect: "stream_ok (cs\<lparr>cs_encoded_length := 0, cs_state := BinaryCollect\<rparr>)"
    using assms(1,2) by (simp_all add: stream_ok_def)
  with StartZero assms(2,3) show ?thesis
    using process_text_byte_ok [OF t] by (auto simp: feed_byte_def split: if_splits)
next
  case BinaryCollect
  obtain decoded s1 where f: "finish_binary_candidate cs now_ms s =
      (reset_binary (cs\<lparr>cs_decoded := decoded\<rparr>), s1)" "length decoded = length (cs_decoded cs)"
    using finish_candidate_form [of cs now_ms s] by blast
  have "stream_ok (reset_binary (cs\<lparr>cs_decoded := decoded\<rparr>))"
    and "cs_encoded_length cs < kMaxEncodedBodyBytes \<Longrightarrow>
      stream_ok (cs\<lparr>cs_encoded := (cs_encoded cs)[cs_encoded_length cs := byte],
                   cs_encoded_length := cs_encoded_length cs + 1\<rparr>)"
    and "stream_ok (cs\<lparr>cs_state := BinaryDiscard\<rparr>)"
    using assms(1,2) f(2) by (simp_all add: stream_ok_def reset_binary_def)
  with BinaryCollect assms(3) f(1) show ?thesis by (auto simp: feed_byte_def split: if_splits)
next
  case BinaryDiscard
  with assms show ?thesis by (auto simp: feed_byte_def stream_ok_def reset_binary_def split: if_splits)
qed

lemma feed_transport_ok:
  assumes "stream_ok cs" "feed_transport_byte handle_frame cs byte now_ms s = (cs', s')"
  shows "stream_ok cs'"
proof -
  obtain fin z where z: "sync_feed (cs_consecutive_zeros cs) byte = (fin, z)" by force
  let ?cs = "cs\<lparr>cs_consecutive_zeros := z\<rparr>"
  have le: "z \<le> kTransportSyncLength" and act: "sync_active z \<Longrightarrow> \<not> fin \<Longrightarrow> z = cs_consecutive_zeros cs"
    using assms(1) z by (auto simp: stream_ok_def sync_feed_def sync_active_def kTransportSyncLength_def
        split: if_splits)
  consider "fin" | "\<not> fin" "sync_active z" | "\<not> fin" "\<not> sync_active z" by blast
  then show ?thesis
  proof cases
    case 1
    then have "cs' = reset_framing ?cs" using assms(2) z by (simp add: feed_transport_byte_def)
    then show ?thesis
      using assms(1) le control_ok_reset holds_reset_input
      by (simp add: stream_ok_def reset_framing_def reset_binary_def Let_def)
  next
    case 2
    then have "cs' = cs" using assms(2) z act by (simp add: feed_transport_byte_def)
    then show ?thesis using assms(1) by simp
  next
    case 3
    then have "feed_byte handle_frame ?cs byte now_ms s = (cs', s')"
      using assms(2) z by (simp add: feed_transport_byte_def)
    moreover have "stream_ok ?cs" using assms(1) le 3 by (simp add: stream_ok_def)
    ultimately show ?thesis using 3 by (auto intro: feed_byte_ok)
  qed
qed

lemma stream_feed_ok:
  "stream_ok cs \<Longrightarrow> stream_feed handle_frame cs data now_ms s = (cs', s') \<Longrightarrow> stream_ok cs'"
proof (induction data arbitrary: cs s)
  case (Cons b data)
  obtain cs1 s1 where "feed_transport_byte handle_frame cs b now_ms s = (cs1, s1)"
    by (cases "feed_transport_byte handle_frame cs b now_ms s")
  with Cons feed_transport_ok show ?case by (metis (no_types, lifting) case_prod_conv stream_feed.simps(2))
qed simp

subsection \<open>Delivery of frames\<close>

definition link_frame :: "bytes \<Rightarrow> bytes" where
  "link_frame img = [0, 0] @ cobs_stuff [] img @ [0]"

definition stream_ready :: "ControlStream \<Rightarrow> bool" where
  "stream_ready cs \<longleftrightarrow> stream_ok cs \<and> cs_state cs = Text \<and> cs_consecutive_zeros cs \<le> 1"

lemma stream_feed_append:
  "stream_feed handle_frame cs (xs @ ys) now_ms s =
   (let (cs, s) = stream_feed handle_frame cs xs now_ms s in stream_feed handle_frame cs ys now_ms s)"
  by (induction xs arbitrary: cs s) (auto split: prod.split)

lemma feed_nonzero:
  assumes "byte \<noteq> 0"
  shows "feed_transport_byte handle_frame cs byte now_ms s =
    feed_byte handle_frame (cs\<lparr>cs_consecutive_zeros := 0\<rparr>) byte now_ms s"
  using assms
  by (simp add: feed_transport_byte_def sync_feed_def sync_active_def kTransportSyncLength_def)

lemma stream_collects:
  assumes "cs_state cs = BinaryCollect" "length (cs_encoded cs) = kMaxEncodedBodyBytes"
    and "take (cs_encoded_length cs) (cs_encoded cs) = pre" "cs_encoded_length cs = length pre"
    and "0 \<notin> set xs" "length pre + length xs \<le> kMaxEncodedBodyBytes"
  shows "\<exists>enc. stream_feed handle_frame cs xs now_ms s =
      (cs\<lparr>cs_encoded := enc, cs_encoded_length := length (pre @ xs),
          cs_consecutive_zeros := (if xs = [] then cs_consecutive_zeros cs else 0)\<rparr>, s) \<and>
    take (length (pre @ xs)) enc = pre @ xs \<and> length enc = kMaxEncodedBodyBytes"
  using assms
proof (induction xs arbitrary: cs pre)
  case Nil
  then show ?case by (intro exI [of _ "cs_encoded cs"]) simp
next
  case (Cons b xs)
  let ?cs = "cs\<lparr>cs_consecutive_zeros := 0, cs_encoded := (cs_encoded cs)[length pre := b],
      cs_encoded_length := length (pre @ [b])\<rparr>"
  have room: "length pre < length (cs_encoded cs)" using Cons.prems by simp
  have "feed_transport_byte handle_frame cs b now_ms s = (?cs, s)"
    using Cons.prems by (simp add: feed_nonzero feed_byte_def)
  moreover have "take (length (pre @ [b])) (cs_encoded ?cs) = pre @ [b]"
    using Cons.prems(3,4) room by (simp add: take_update_snoc)
  ultimately show ?case
    using Cons.IH [of ?cs "pre @ [b]"] Cons.prems by (cases xs) auto
qed

lemma finish_candidate_delivers:
  assumes "take (cs_encoded_length cs) (cs_encoded cs) = cobs_stuff [] img"
    and "cs_encoded_length cs \<noteq> 0" "length img \<le> length (cs_decoded cs)"
  shows "\<exists>dec. finish_binary_candidate cs now_ms s =
    (reset_binary (cs\<lparr>cs_decoded := dec\<rparr>), handle_decoded_frame (fst s) img now_ms (snd s))"
  using assms by (auto simp: finish_binary_candidate_def cobs_decode_stuff overwrite_def)

lemma stream_delivers_one:
  assumes "stream_ready cs" "length img \<le> kMaxDecodedFrameBytes"
  shows "\<exists>cs'. stream_feed handle_frame cs (link_frame img) now_ms s =
      (cs', handle_decoded_frame (fst s) img now_ms (snd s)) \<and> stream_ready cs'"
proof -
  let ?z = "cs_consecutive_zeros cs" and ?body = "cobs_stuff [] img"
  have ok: "stream_ok cs" "cs_state cs = Text" "?z \<le> 1" using assms(1) by (auto simp: stream_ready_def)
  let ?cs2 = "cs\<lparr>cs_control := reset_input (cs_control cs), cs_state := BinaryCollect,
      cs_encoded_length := 0, cs_consecutive_zeros := ?z + 2\<rparr>"
  have two: "stream_feed handle_frame cs [0, 0] now_ms s = (?cs2, s)"
    using ok(2,3)
    by (simp add: feed_transport_byte_def sync_feed_def sync_active_def kTransportSyncLength_def
        feed_byte_def process_text_byte_def)
  have len: "length ?body \<le> kMaxEncodedBodyBytes"
    using length_cobs_stuff [of "[]" img] assms(2) div_le_mono [of "length img" 1056 254]
    by (simp add: codec_constants)
  have nz: "0 \<notin> set ?body" "?body \<noteq> []" using cobs_stuff_no_zero cobs_stuff_not_Nil by auto
  obtain enc where coll: "stream_feed handle_frame ?cs2 ?body now_ms s =
      (?cs2\<lparr>cs_encoded := enc, cs_encoded_length := length ?body, cs_consecutive_zeros := 0\<rparr>, s)"
    "take (length ?body) enc = ?body" "length enc = kMaxEncodedBodyBytes"
    using stream_collects [of ?cs2 "[]" ?body handle_frame now_ms s] ok(1) len nz
    by (auto simp: stream_ok_def)
  let ?cs3 = "?cs2\<lparr>cs_encoded := enc, cs_encoded_length := length ?body, cs_consecutive_zeros := 1\<rparr>"
  obtain dec where fin: "finish_binary_candidate ?cs3 now_ms s =
      (reset_binary (?cs3\<lparr>cs_decoded := dec\<rparr>), handle_decoded_frame (fst s) img now_ms (snd s))"
    using finish_candidate_delivers [of ?cs3 img now_ms s] coll(2) nz ok(1) assms(2)
    by (auto simp: stream_ok_def)
  let ?cs4 = "reset_binary (?cs3\<lparr>cs_decoded := dec\<rparr>)"
  have feed: "stream_feed handle_frame cs (link_frame img) now_ms s =
      (?cs4, handle_decoded_frame (fst s) img now_ms (snd s))"
    unfolding link_frame_def stream_feed_append two Let_def prod.case coll(1)
    using fin
    by (simp add: feed_transport_byte_def sync_feed_def sync_active_def kTransportSyncLength_def
        feed_byte_def)
  have "stream_ok ?cs4" by (rule stream_feed_ok [OF ok(1) feed])
  then have "stream_ready ?cs4" by (simp add: stream_ready_def reset_binary_def)
  with feed show ?thesis by blast
qed

lemma stream_delivers_all:
  assumes "stream_ready cs" "list_all (\<lambda>img. length img \<le> kMaxDecodedFrameBytes) imgs"
  shows "\<exists>cs'. stream_feed handle_frame cs (concat (map link_frame imgs)) now_ms s =
      (cs', manager_run (map (\<lambda>img. FrameEvent img now_ms) imgs) s) \<and> stream_ready cs'"
  using assms
proof (induction imgs arbitrary: cs s)
  case Nil
  then show ?case by (simp add: manager_run_def)
next
  case (Cons img imgs)
  obtain cs1 where "stream_feed handle_frame cs (link_frame img) now_ms s =
      (cs1, handle_decoded_frame (fst s) img now_ms (snd s))" "stream_ready cs1"
    using stream_delivers_one [of cs img handle_frame now_ms s] Cons.prems by auto
  moreover obtain cs2 where "stream_feed handle_frame cs1 (concat (map link_frame imgs)) now_ms
      (handle_decoded_frame (fst s) img now_ms (snd s)) =
      (cs2, manager_run (map (\<lambda>img. FrameEvent img now_ms) imgs)
        (handle_decoded_frame (fst s) img now_ms (snd s)))" "stream_ready cs2"
    using Cons.IH [of cs1 "handle_decoded_frame (fst s) img now_ms (snd s)"] Cons.prems calculation(2)
    by auto
  ultimately show ?case by (simp add: stream_feed_append manager_run_def)
qed

subsection \<open>Resynchronisation\<close>

lemma zero_advances:
  assumes "stream_ok cs" "cs_consecutive_zeros cs < kTransportSyncLength"
    and "feed_transport_byte handle_frame cs 0 now_ms s = (cs', s')"
  shows "stream_ok cs' \<and> cs_consecutive_zeros cs' = cs_consecutive_zeros cs + 1"
proof -
  have keep: "cs_consecutive_zeros (fst (feed_byte handle_frame x 0 now_ms s)) = cs_consecutive_zeros x" for x
    using finish_candidate_form [of x now_ms s]
    by (auto simp: feed_byte_def process_text_byte_def reset_binary_def split: StreamState.split)
  have "cs_consecutive_zeros cs' = cs_consecutive_zeros cs + 1"
    using assms(2,3) keep [of "cs\<lparr>cs_consecutive_zeros := cs_consecutive_zeros cs + 1\<rparr>"]
    by (auto simp: feed_transport_byte_def sync_feed_def sync_active_def reset_framing_def
        reset_binary_def Let_def kTransportSyncLength_def split: if_splits)
  with feed_transport_ok [OF assms(1,3)] show ?thesis by simp
qed

lemma zeros_sync:
  "stream_ok cs \<Longrightarrow> kTransportSyncLength \<le> cs_consecutive_zeros cs + n \<Longrightarrow>
   stream_feed handle_frame cs (replicate n 0) now_ms s = (cs', s') \<Longrightarrow>
   stream_ok cs' \<and> cs_consecutive_zeros cs' = kTransportSyncLength"
proof (induction n arbitrary: cs s)
  case 0
  then show ?case by (simp add: stream_ok_def)
next
  case (Suc n)
  obtain cs1 s1 where step: "feed_transport_byte handle_frame cs 0 now_ms s = (cs1, s1)"
    by (cases "feed_transport_byte handle_frame cs 0 now_ms s")
  have rest: "stream_feed handle_frame cs1 (replicate n 0) now_ms s1 = (cs', s')"
    using Suc.prems(3) step by simp
  show ?case
  proof (cases "cs_consecutive_zeros cs < kTransportSyncLength")
    case True
    from zero_advances [OF Suc.prems(1) True step] Suc.IH [OF _ _ rest] Suc.prems(2)
    show ?thesis by simp
  next
    case False
    then have "cs1 = cs"
      using step by (auto simp: feed_transport_byte_def sync_feed_def sync_active_def)
    with False Suc.IH [OF _ _ rest] Suc.prems(1) show ?thesis by simp
  qed
qed

lemma newline_after_sync:
  assumes "stream_ok cs" "cs_consecutive_zeros cs = kTransportSyncLength"
  shows "\<exists>cs'. stream_feed handle_frame cs [0x0a] now_ms s = (cs', handle_frame (line_frame []) s) \<and>
    stream_ready cs'"
proof -
  have st: "cs_state cs = Text" "holds (cs_control cs) []"
    using assms by (auto simp: stream_ok_def sync_active_def)
  obtain c s1 where c: "emit_line (cs_control cs) handle_frame s = (c, s1)"
    by (cases "emit_line (cs_control cs) handle_frame s")
  with emit_line_holds [OF st(2) c] have s1: "s1 = handle_frame (line_frame []) s" by simp
  have feed: "stream_feed handle_frame cs [0x0a] now_ms s =
      (cs\<lparr>cs_consecutive_zeros := 0, cs_control := c\<rparr>, s1)"
    using st c
    by (simp add: feed_nonzero feed_byte_def process_text_byte_def control_feed_def consume_byte_def)
  with stream_feed_ok [OF assms(1) feed] st s1 show ?thesis by (auto simp: stream_ready_def)
qed

subsection \<open>Properties\<close>

text \<open>
  (C23) The demultiplexer delivers binary frames intact: when the stream is between frames, feeding the
  link encoding of any sequence of decoded frames (two zero bytes, the COBS body, a closing zero byte
  each, back to back) calls the transfer manager with exactly those decoded frames, once each and in
  order, and leaves the stream ready for the next one; no byte leaks into the text side.
\<close>

theorem stream_delivers:
  assumes "stream_ready cs" "list_all (\<lambda>img. length img \<le> kMaxDecodedFrameBytes) imgs"
  shows "\<exists>cs'. stream_feed handle_frame cs (concat (map link_frame imgs)) now_ms s =
      (cs', manager_run (map (\<lambda>img. FrameEvent img now_ms) imgs) s) \<and> stream_ready cs'"
  using assms by (rule stream_delivers_all)

theorem stream_delivers_witness:
  "\<exists>cs'. stream_feed (\<lambda>_ s. s) (stream_init default_control)
       (concat (map link_frame [pattern_frame, pattern_frame])) 5 (sample_manager 5, pattern_start) =
     (cs', manager_run [FrameEvent pattern_frame 5, FrameEvent pattern_frame 5]
       (sample_manager 5, pattern_start)) \<and> stream_ready cs'"
proof -
  have ok: "stream_ready (stream_init default_control)"
    by (simp add: stream_ready_def stream_ok_def stream_init_def default_control_def control_ok_def
        sync_active_def kTransportSyncLength_def)
  have "list_all (\<lambda>img. length img \<le> kMaxDecodedFrameBytes) [pattern_frame, pattern_frame]"
    by (simp add: pattern_frame_def codec_constants)
  from stream_delivers [OF ok this, of "\<lambda>_ s. s" 5 "(sample_manager 5, pattern_start)"]
  show ?thesis by simp
qed

text \<open>
  (C24) Resynchronisation: from every state of the demultiplexer that can occur, in the middle of a
  frame, of an over-long candidate or of a text line, four zero bytes and a line feed bring it back:
  all binary frames that follow are delivered intact, once each and in order. (The line feed ends the
  synchronisation token; it produces one empty text line.)
\<close>

theorem stream_resynchronises:
  assumes "stream_ok cs" "list_all (\<lambda>img. length img \<le> kMaxDecodedFrameBytes) imgs"
  shows "\<exists>cs' s'. stream_feed handle_frame cs
      ([0, 0, 0, 0, 0x0a] @ concat (map link_frame imgs)) now_ms s =
      (cs', manager_run (map (\<lambda>img. FrameEvent img now_ms) imgs) (handle_frame (line_frame []) s')) \<and>
    stream_ready cs'"
proof -
  obtain cs1 s1 where z: "stream_feed handle_frame cs (replicate 4 0) now_ms s = (cs1, s1)"
    by (cases "stream_feed handle_frame cs (replicate 4 0) now_ms s")
  have "stream_ok cs1 \<and> cs_consecutive_zeros cs1 = kTransportSyncLength"
    by (rule zeros_sync [OF assms(1) _ z]) (simp add: kTransportSyncLength_def)
  then obtain cs2 where n: "stream_feed handle_frame cs1 [0x0a] now_ms s1 =
      (cs2, handle_frame (line_frame []) s1)" "stream_ready cs2"
    using newline_after_sync by blast
  obtain cs3 where f: "stream_feed handle_frame cs2 (concat (map link_frame imgs)) now_ms
      (handle_frame (line_frame []) s1) =
      (cs3, manager_run (map (\<lambda>img. FrameEvent img now_ms) imgs) (handle_frame (line_frame []) s1))"
      "stream_ready cs3"
    using stream_delivers_all [OF n(2) assms(2)] by blast
  have "[0, 0, 0, 0, 0x0a] @ concat (map link_frame imgs) =
      replicate 4 0 @ [0x0a] @ concat (map link_frame imgs)" by (simp add: eval_nat_numeral)
  then have "stream_feed handle_frame cs ([0, 0, 0, 0, 0x0a] @ concat (map link_frame imgs)) now_ms s =
      (cs3, manager_run (map (\<lambda>img. FrameEvent img now_ms) imgs) (handle_frame (line_frame []) s1))"
    by (simp only: stream_feed_append z n(1) f(1) Let_def prod.case)
  with f(2) show ?thesis by blast
qed

theorem stream_resynchronises_witness:
  "\<exists>cs' s'. stream_feed (\<lambda>_ s. s) ((stream_init default_control)\<lparr>cs_state := BinaryDiscard\<rparr>)
      ([0, 0, 0, 0, 0x0a] @ concat (map link_frame [pattern_frame])) 5 (sample_manager 5, pattern_start) =
      (cs', manager_run [FrameEvent pattern_frame 5] s') \<and> stream_ready cs'"
proof -
  have ok: "stream_ok ((stream_init default_control)\<lparr>cs_state := BinaryDiscard\<rparr>)"
    by (simp add: stream_ok_def stream_init_def default_control_def control_ok_def
        sync_active_def kTransportSyncLength_def)
  have "list_all (\<lambda>img. length img \<le> kMaxDecodedFrameBytes) [pattern_frame]"
    by (simp add: pattern_frame_def codec_constants)
  from stream_resynchronises [OF ok this, of "\<lambda>_ s. s" 5 "(sample_manager 5, pattern_start)"]
  show ?thesis by simp
qed

text \<open>
  (C25) The serial parsers never leave their buffers: whatever bytes arrive, in whatever pieces and
  whatever the callbacks do, the collected candidate stays within the 1061-byte array and the text line
  within its 512 bytes, and the zero counter never exceeds four.
\<close>

theorem stream_bounds:
  assumes "stream_ok cs" "stream_feed handle_frame cs data now_ms s = (cs', s')"
  shows "stream_ok cs'"
  using assms by (rule stream_feed_ok)

theorem stream_bounds_witness:
  "\<exists>cs' s'. stream_feed (\<lambda>_ s. s) (stream_init default_control) (replicate 2000 7) 5
     (sample_manager 5, pattern_start) = (cs', s') \<and> stream_ok cs'"
proof -
  have ok: "stream_ok (stream_init default_control)"
    by (simp add: stream_ok_def stream_init_def default_control_def control_ok_def
        sync_active_def kTransportSyncLength_def)
  obtain cs' s' where "stream_feed (\<lambda>_ s. s) (stream_init default_control) (replicate 2000 7) 5
      (sample_manager 5, pattern_start) = (cs', s')"
    by (cases "stream_feed (\<lambda>_ s. s) (stream_init default_control) (replicate 2000 7) 5
      (sample_manager 5, pattern_start)")
  with stream_bounds [OF ok this] show ?thesis by blast
qed

end
