(* ===== verification/Storage.thy ===== *)
theory Storage
  imports Prelude
begin

section \<open>Storage interface (storage/storage.hpp, storage.cpp)\<close>

text \<open>
  The interface between the file service and a storage backend: error codes, metadata, and the tables
  of callbacks of a backend and of its read and write sessions. The object behind the \<^verbatim>\<open>context\<close>
  pointers is a value of the type parameter \<open>'b\<close> that every callback takes and returns; a callback
  field is \<open>None\<close> for the null pointer. Out-parameters are results: \<^verbatim>\<open>stat\<close> returns the metadata it
  stores (if it stores any), \<^verbatim>\<open>read\<close> the bytes it stored from the start of the buffer and the count,
  \<^verbatim>\<open>list_page\<close> the entries it stored and the \<^verbatim>\<open>more\<close> flag.
\<close>

datatype StorageError =
  StOk | StNotFound | StAlreadyExists | StInvalidPath | StNotAFile | StNotADirectory
  | StParentNotFound | StNoSpace | StReadFailed | StWriteFailed | StCommitFailed | StBusy
  | StOutOfRange | StUnsupported

datatype EntryType = FileEntry | DirectoryEntry

record Metadata =
  md_type :: EntryType
  md_size_bytes :: u64

definition default_metadata :: Metadata where
  "default_metadata = \<lparr>md_type = FileEntry, md_size_bytes = 0\<rparr>"

record DirEntry =
  de_name :: bytes
  de_metadata :: Metadata

record 'b ReadSession =
  rs_read :: "(u64 \<Rightarrow> nat \<Rightarrow> 'b \<Rightarrow> StorageError \<times> bytes \<times> 'b) option"
  rs_close :: "('b \<Rightarrow> 'b) option"

record 'b WriteSession =
  ws_write :: "(u64 \<Rightarrow> bytes \<Rightarrow> 'b \<Rightarrow> StorageError \<times> 'b) option"
  ws_commit :: "('b \<Rightarrow> StorageError \<times> 'b) option"
  ws_abort :: "('b \<Rightarrow> 'b) option"

definition null_read_session :: "'b ReadSession" where
  "null_read_session = \<lparr>rs_read = None, rs_close = None\<rparr>"

definition null_write_session :: "'b WriteSession" where
  "null_write_session = \<lparr>ws_write = None, ws_commit = None, ws_abort = None\<rparr>"

record 'b Storage =
  st_stat :: "(bytes \<Rightarrow> 'b \<Rightarrow> StorageError \<times> Metadata option) option"
  st_list_page :: "(bytes \<Rightarrow> bytes \<Rightarrow> nat \<Rightarrow> nat \<Rightarrow> 'b \<Rightarrow> StorageError \<times> DirEntry list \<times> bool) option"
  st_begin_read :: "(bytes \<Rightarrow> 'b \<Rightarrow> StorageError \<times> 'b ReadSession \<times> 'b) option"
  st_begin_write ::
    "(bytes \<Rightarrow> u64 \<Rightarrow> bool \<Rightarrow> 'b \<Rightarrow> StorageError \<times> 'b WriteSession \<times> 'b) option"

primrec storage_error_code :: "StorageError \<Rightarrow> string" where
  "storage_error_code StOk = ''OK''"
| "storage_error_code StNotFound = ''NOT_FOUND''"
| "storage_error_code StAlreadyExists = ''ALREADY_EXISTS''"
| "storage_error_code StInvalidPath = ''INVALID_PATH''"
| "storage_error_code StNotAFile = ''NOT_A_FILE''"
| "storage_error_code StNotADirectory = ''NOT_A_DIRECTORY''"
| "storage_error_code StParentNotFound = ''PARENT_NOT_FOUND''"
| "storage_error_code StNoSpace = ''NO_SPACE''"
| "storage_error_code StReadFailed = ''READ_FAILED''"
| "storage_error_code StWriteFailed = ''WRITE_FAILED''"
| "storage_error_code StCommitFailed = ''COMMIT_FAILED''"
| "storage_error_code StBusy = ''BUSY''"
| "storage_error_code StOutOfRange = ''OUT_OF_RANGE''"
| "storage_error_code StUnsupported = ''UNSUPPORTED''"

end
