(* ===== verification/File_Path.thy ===== *)
theory File_Path
  imports Prelude
begin

section \<open>Validation of file paths (file_transfer/path.cpp)\<close>

text \<open>
  Paths arrive from the host as byte strings. \<open>valid_utf8\<close> walks over the characters as the source
  does, here on the rest of the string instead of an index; \<open>validate_path\<close> (\<^verbatim>\<open>path::validate\<close>) checks
  the path component by component.
\<close>

definition kMaxPathBytes :: nat where "kMaxPathBytes = 192"
definition kMaxComponentBytes :: nat where "kMaxComponentBytes = 128"

definition utf8_lead :: "u8 \<Rightarrow> (nat \<times> u32) option" where
  "utf8_lead c =
     (if c \<le> 0x7f then Some (1, ucast c)
      else if c \<ge> 0xc2 \<and> c \<le> 0xdf then Some (2, ucast (c AND 0x1f))
      else if c \<ge> 0xe0 \<and> c \<le> 0xef then Some (3, ucast (c AND 0x0f))
      else if c \<ge> 0xf0 \<and> c \<le> 0xf4 then Some (4, ucast (c AND 0x07))
      else None)"

fun utf8_continue :: "u32 \<Rightarrow> bytes \<Rightarrow> u32 option" where
  "utf8_continue code [] = Some code"
| "utf8_continue code (nxt # rest) =
     (if nxt AND 0xc0 \<noteq> 0x80 then None
      else utf8_continue (push_bit 6 code OR ucast (nxt AND 0x3f)) rest)"

definition utf8_bad :: "nat \<Rightarrow> u32 \<Rightarrow> bool" where
  "utf8_bad count code \<longleftrightarrow>
     (count = 2 \<and> code < 0x80) \<or> (count = 3 \<and> code < 0x800) \<or> (count = 4 \<and> code < 0x10000) \<or>
     code > 0x10ffff \<or> (code \<ge> 0xd800 \<and> code \<le> 0xdfff)"

function valid_utf8 :: "bytes \<Rightarrow> bool" where
  "valid_utf8 [] = True"
| "valid_utf8 (c # rest) =
     (case utf8_lead c of
        None \<Rightarrow> False
      | Some (count, code) \<Rightarrow>
          if count > length (c # rest) then False
          else case utf8_continue code (take (count - 1) rest) of
            None \<Rightarrow> False
          | Some code \<Rightarrow> if utf8_bad count code then False else valid_utf8 (drop (count - 1) rest))"
  by pat_completeness auto
termination by (relation "measure length") auto

definition valid_component :: "bytes \<Rightarrow> bool" where
  "valid_component v =
     (if v = [] \<or> length v > kMaxComponentBytes \<or> \<not> valid_utf8 v then False
      else if v = ascii ''.'' \<or> v = ascii ''..'' then False
      else list_all (\<lambda>c. \<not> (c = 0x2f \<or> c = 0x5c \<or> c = 0x7f \<or> c < 0x20)) v)"

function validate_components :: "bytes \<Rightarrow> bool" where
  "validate_components rest =
     (if rest = [] then True
      else
        let component = takeWhile (\<lambda>c. c \<noteq> 0x2f) rest;
            after = dropWhile (\<lambda>c. c \<noteq> 0x2f) rest
        in if \<not> valid_component component then False
           else if after = [] then True
           else validate_components (tl after))"
  by pat_completeness auto
termination
proof (relation "measure length")
  fix rest component after :: bytes
  assume "after = dropWhile (\<lambda>c. c \<noteq> 0x2f) rest" "after \<noteq> []"
  then have "length (tl after) < length after" and le: "length after \<le> length rest"
    by (simp, metis length_dropWhile_le)
  with le show "(tl after, rest) \<in> measure length" by simp
qed simp

declare validate_components.simps [simp del]

definition validate_path :: "bytes \<Rightarrow> bool \<Rightarrow> bool" where
  "validate_path v allow_root =
     (if v = [] \<or> length v > kMaxPathBytes \<or> hd v \<noteq> 0x2f \<or> \<not> valid_utf8 v then False
      else if v = ascii ''/'' then allow_root
      else if last v = 0x2f then False
      else validate_components (tl v))"

subsection \<open>The shape of an accepted path\<close>

definition join_path :: "bytes list \<Rightarrow> bytes" where
  "join_path components = concat (map (\<lambda>c. 0x2f # c) components)"

lemma ascii_simps [simp]: "ascii ''.'' = [0x2e]" "ascii ''..'' = [0x2e, 0x2e]" "ascii ''/'' = [0x2f]"
  by (simp_all add: ascii_def byte_of_char_def)

lemma valid_component_no_slash: "valid_component c \<Longrightarrow> 0x2f \<notin> set c"
  by (auto simp: valid_component_def list_all_iff split: if_splits)

lemma valid_component_not_Nil: "valid_component c \<Longrightarrow> c \<noteq> []"
  by (auto simp: valid_component_def)

lemma validate_components_join:
  assumes "validate_components rest" "rest \<noteq> []" "last rest \<noteq> 0x2f"
  shows "\<exists>components. components \<noteq> [] \<and> list_all valid_component components \<and>
    0x2f # rest = join_path components"
  using assms
proof (induction rest rule: validate_components.induct)
  case (1 rest)
  let ?c = "takeWhile (\<lambda>c. c \<noteq> 0x2f) rest" and ?a = "dropWhile (\<lambda>c. c \<noteq> 0x2f) rest"
  have split: "rest = ?c @ ?a" by (rule takeWhile_dropWhile_id [symmetric])
  have c: "valid_component ?c" and rec: "?a \<noteq> [] \<Longrightarrow> validate_components (tl ?a)"
    using "1.prems"(1,2) by (subst (asm) validate_components.simps, simp add: Let_def split: if_splits)+
  show ?case
  proof (cases "?a = []")
    case True
    then have "rest = ?c" using split by (metis append_Nil2)
    with c show ?thesis by (intro exI [of _ "[?c]"]) (simp add: join_path_def)
  next
    case False
    then have hd: "?a = 0x2f # tl ?a" using hd_dropWhile [OF False] by (cases ?a) auto
    then have eq: "rest = ?c @ 0x2f # tl ?a" using split by metis
    have ne: "tl ?a \<noteq> []" "last (tl ?a) \<noteq> 0x2f"
      using "1.prems"(3) eq by (metis last.simps last_appendR list.distinct(1))+
    with "1.IH" [OF "1.prems"(2) refl refl] c False rec obtain cs where
      "cs \<noteq> []" "list_all valid_component cs" "0x2f # tl ?a = join_path cs" by auto
    with c eq show ?thesis
      by (intro exI [of _ "?c # cs"]) (simp add: join_path_def)
  qed
qed

lemma validate_components_of_join:
  assumes "components \<noteq> []" "list_all valid_component components" "0x2f # rest = join_path components"
  shows "validate_components rest \<and> last rest \<noteq> 0x2f \<and> rest \<noteq> []"
  using assms
proof (induction components arbitrary: rest)
  case (Cons c cs)
  have c: "valid_component c" "0x2f \<notin> set c" "c \<noteq> []"
    using Cons.prems(2) valid_component_no_slash valid_component_not_Nil by simp_all
  show ?case
  proof (cases "cs = []")
    case True
    then have "rest = c" using Cons.prems(3) by (simp add: join_path_def)
    moreover have "takeWhile (\<lambda>c. c \<noteq> 0x2f) c = c" "dropWhile (\<lambda>c. c \<noteq> 0x2f) c = []"
      using c(2) by (auto simp: takeWhile_eq_all_conv dropWhile_eq_Nil_conv)
    moreover have "last c \<noteq> 0x2f" using c(2) last_in_set [OF c(3)] by metis
    ultimately show ?thesis
      using c(1,3) by (subst validate_components.simps) (simp only: Let_def, simp)
  next
    case False
    then obtain c2 cs' where cs: "cs = c2 # cs'" by (cases cs) auto
    let ?rest = "c2 @ join_path cs'"
    have rest: "rest = c @ 0x2f # ?rest" using Cons.prems(3) cs by (simp add: join_path_def)
    have IH: "validate_components ?rest \<and> last ?rest \<noteq> 0x2f \<and> ?rest \<noteq> []"
      using Cons.IH [of ?rest] Cons.prems(2) cs False by (simp add: join_path_def)
    have "takeWhile (\<lambda>c. c \<noteq> 0x2f) rest = c" "dropWhile (\<lambda>c. c \<noteq> 0x2f) rest = 0x2f # ?rest"
      using c(2) rest
      by (simp_all add: takeWhile_append dropWhile_append takeWhile_eq_all_conv dropWhile_eq_Nil_conv)
    then show ?thesis
      using c IH rest by (subst validate_components.simps) (auto simp: Let_def)
  qed
qed simp


end
