(* ===== verification/Zero_Rle.thy ===== *)
theory Zero_Rle
  imports Prelude
begin

section \<open>Zero-run decoder of file uploads (file_transfer/zero_rle_v1.cpp)\<close>

text \<open>
  A compressed upload is a sequence of records: a tag byte (zero run or literal), a 32-bit
  little-endian length, and for a literal the bytes. The decoder is fed with arbitrary pieces of the
  stream and emits the decoded bytes through a callback on the world \<open>'s\<close>. Every member function takes
  the decoder record and the world and returns its result with both. \<open>rl_zero_buffer\<close> is the array of
  zeroes that runs are emitted from (\<open>[]\<close> for the null pointer).
\<close>

datatype RleResult = RleOk | RleMalformed | RleOutputFailed

datatype RleError =
  RleNone | OffsetMismatch | WireOverrun | UnknownTag | ZeroLength | LogicalOverrun | Truncated
  | TrailingBytes

datatype RleState = ExpectTag | ReadLength | EmitZero | ReadLiteral | Failed

record 's Decoder =
  rl_logical_size :: u64
  rl_wire_size :: u64
  rl_logical_produced :: u64
  rl_wire_consumed :: u64
  rl_record_remaining :: u64
  rl_record_length :: u32
  rl_length_bytes :: nat
  rl_tag :: u8
  rl_state :: RleState
  rl_error :: RleError
  rl_emit :: "(u64 \<Rightarrow> bytes \<Rightarrow> 's \<Rightarrow> bool \<times> 's) option"
  rl_zero_buffer :: bytes

definition kZeroRun :: u8 where "kZeroRun = 0"
definition kLiteral :: u8 where "kLiteral = 1"

definition default_decoder :: "'s Decoder" where
  "default_decoder = \<lparr>rl_logical_size = 0, rl_wire_size = 0, rl_logical_produced = 0,
     rl_wire_consumed = 0, rl_record_remaining = 0, rl_record_length = 0, rl_length_bytes = 0,
     rl_tag = 0, rl_state = ExpectTag, rl_error = RleNone, rl_emit = None, rl_zero_buffer = []\<rparr>"

definition rle_init ::
  "u64 \<Rightarrow> u64 \<Rightarrow> (u64 \<Rightarrow> bytes \<Rightarrow> 's \<Rightarrow> bool \<times> 's) option \<Rightarrow> bytes \<Rightarrow> 's Decoder" where
  "rle_init logical_size wire_size emit zero_buffer =
     default_decoder\<lparr>rl_logical_size := logical_size, rl_wire_size := wire_size, rl_emit := emit,
       rl_zero_buffer := zero_buffer\<rparr>"

definition rle_fail :: "'s Decoder \<Rightarrow> RleError \<Rightarrow> RleResult \<times> 's Decoder" where
  "rle_fail d error = (RleMalformed, d\<lparr>rl_state := Failed, rl_error := error\<rparr>)"

type_synonym 's rle_step = "RleResult \<times> 's Decoder \<times> 's"

definition rle_emit :: "'s Decoder \<Rightarrow> bytes \<Rightarrow> 's \<Rightarrow> 's rle_step" where
  "rle_emit d data s =
     (if length data = 0 \<or> rl_emit d = None \<or> rl_logical_produced d > rl_logical_size d \<or>
         length data > unat (rl_logical_size d - rl_logical_produced d)
      then let (r, d) = rle_fail d LogicalOverrun in (r, d, s)
      else
        let (ok, s) = the (rl_emit d) (rl_logical_produced d) data s in
        if \<not> ok then (RleOutputFailed, d\<lparr>rl_state := Failed, rl_error := RleNone\<rparr>, s)
        else (RleOk, d\<lparr>rl_logical_produced := rl_logical_produced d + word_of_nat (length data)\<rparr>, s))"

lemma rle_emit_Ok:
  assumes "rle_emit d data s = (RleOk, d', s')"
  shows "d' = d\<lparr>rl_logical_produced := rl_logical_produced d + word_of_nat (length data)\<rparr>"
    "data \<noteq> []"
  using assms by (auto simp: rle_emit_def rle_fail_def Let_def split: if_splits prod.splits)

function emit_zeroes_loop :: "'s Decoder \<Rightarrow> 's \<Rightarrow> 's rle_step" where
  "emit_zeroes_loop d s =
     (if rl_record_remaining d = 0 then (RleOk, d\<lparr>rl_state := ExpectTag\<rparr>, s)
      else
        let count = min (unat (rl_record_remaining d)) (length (rl_zero_buffer d));
            (result, d, s) = rle_emit d (take count (rl_zero_buffer d)) s
        in if result \<noteq> RleOk then (result, d, s)
           else emit_zeroes_loop
             (d\<lparr>rl_record_remaining := rl_record_remaining d - word_of_nat count\<rparr>) s)"
  by pat_completeness auto

lemma remaining_decreases:
  assumes "0 < n" "n \<le> unat (r :: u64)"
  shows "unat (r - word_of_nat n) < unat r"
proof -
  have n: "unat (word_of_nat n :: u64) = n" using assms(2) by (rule unat_of_nat_bounded)
  then have "word_of_nat n \<le> r" using assms(2) by (simp add: word_le_nat_alt)
  then show ?thesis using n assms by (simp add: unat_sub_le)
qed

termination emit_zeroes_loop
proof (relation "measure (\<lambda>(d, s). unat (rl_record_remaining d))")
  fix d :: "'s Decoder" and s count x result y d' s'
  assume r: "rl_record_remaining d \<noteq> 0"
    and c: "count = min (unat (rl_record_remaining d)) (length (rl_zero_buffer d))"
    and e: "x = rle_emit d (take count (rl_zero_buffer d)) s" "(result, y) = x" "(d', s') = y"
      "\<not> result \<noteq> RleOk"
  then have "rle_emit d (take count (rl_zero_buffer d)) s = (RleOk, d', s')" by auto
  from rle_emit_Ok [OF this] have "rl_record_remaining d' = rl_record_remaining d"
      "count \<noteq> 0" by auto
  with c show "((d'\<lparr>rl_record_remaining := rl_record_remaining d' - word_of_nat count\<rparr>, s'), d, s)
      \<in> measure (\<lambda>(d, s). unat (rl_record_remaining d))"
    using remaining_decreases [of count "rl_record_remaining d"] by simp
qed simp

declare emit_zeroes_loop.simps [simp del]

definition emit_zeroes :: "'s Decoder \<Rightarrow> 's \<Rightarrow> 's rle_step" where
  "emit_zeroes d s =
     (if rl_zero_buffer d = [] then
        (RleOutputFailed, d\<lparr>rl_state := Failed, rl_error := RleNone\<rparr>, s)
      else emit_zeroes_loop d s)"

lemma emit_zeroes_Ok:
  assumes "emit_zeroes d s = (RleOk, d', s')"
  shows "rl_state d' = ExpectTag"
proof -
  have "emit_zeroes_loop d s = (RleOk, d', s') \<Longrightarrow> rl_state d' = ExpectTag"
  proof (induction d s rule: emit_zeroes_loop.induct)
    case (1 d s)
    show ?case
    proof (cases "rl_record_remaining d = 0")
      case True
      then show ?thesis using "1.prems" by (auto simp: emit_zeroes_loop.simps [of d s])
    next
      case False
      then show ?thesis
        using "1.prems" "1.IH" [OF False refl refl]
        by (auto simp: emit_zeroes_loop.simps [of d s] Let_def split: prod.splits if_splits)
    qed
  qed
  then show ?thesis using assms by (auto simp: emit_zeroes_def split: if_splits)
qed

definition failed_result :: "'s Decoder \<Rightarrow> RleResult" where
  "failed_result d = (if rl_error d = RleNone then RleOutputFailed else RleMalformed)"

text \<open>One byte of the tag or of the length.\<close>

definition take_tag :: "'s Decoder \<Rightarrow> u8 \<Rightarrow> RleResult \<times> 's Decoder" where
  "take_tag d byte =
     (let d = d\<lparr>rl_tag := byte, rl_wire_consumed := rl_wire_consumed d + 1\<rparr>
      in if rl_tag d \<noteq> kZeroRun \<and> rl_tag d \<noteq> kLiteral then rle_fail d UnknownTag
         else (RleOk, d\<lparr>rl_record_length := 0, rl_length_bytes := 0, rl_state := ReadLength\<rparr>))"

definition take_length :: "'s Decoder \<Rightarrow> u8 \<Rightarrow> RleResult \<times> 's Decoder" where
  "take_length d byte =
     (let d = d\<lparr>rl_record_length := rl_record_length d OR
                  push_bit (rl_length_bytes d * 8) (ucast byte),
                rl_wire_consumed := rl_wire_consumed d + 1,
                rl_length_bytes := rl_length_bytes d + 1\<rparr>
      in if rl_length_bytes d \<noteq> 4 then (RleOk, d)
         else if rl_record_length d = 0 then rle_fail d ZeroLength
         else if rl_logical_produced d > rl_logical_size d \<or>
                 ucast (rl_record_length d) > rl_logical_size d - rl_logical_produced d
         then rle_fail d LogicalOverrun
         else (RleOk, d\<lparr>rl_record_remaining := ucast (rl_record_length d),
                rl_state := (if rl_tag d = kZeroRun then EmitZero else ReadLiteral)\<rparr>))"

function rle_consume_loop :: "'s Decoder \<Rightarrow> bytes \<Rightarrow> 's \<Rightarrow> 's rle_step" where
  "rle_consume_loop d data s =
     (if data = [] then (if rl_state d = EmitZero then emit_zeroes d s else (RleOk, d, s))
      else case rl_state d of
        EmitZero \<Rightarrow>
          let (result, d, s) = emit_zeroes d s in
          if result \<noteq> RleOk then (result, d, s) else rle_consume_loop d data s
      | ExpectTag \<Rightarrow>
          let (result, d) = take_tag d (hd data) in
          if result \<noteq> RleOk then (result, d, s) else rle_consume_loop d (tl data) s
      | ReadLength \<Rightarrow>
          let (result, d) = take_length d (hd data) in
          if result \<noteq> RleOk then (result, d, s) else rle_consume_loop d (tl data) s
      | ReadLiteral \<Rightarrow>
          let count = min (unat (rl_record_remaining d)) (length data);
              (result, d, s) = rle_emit d (take count data) s
          in if result \<noteq> RleOk then (result, d, s)
             else
               let d = d\<lparr>rl_wire_consumed := rl_wire_consumed d + word_of_nat count,
                         rl_record_remaining := rl_record_remaining d - word_of_nat count\<rparr>;
                   d = (if rl_record_remaining d = 0 then d\<lparr>rl_state := ExpectTag\<rparr> else d)
               in rle_consume_loop d (drop count data) s
      | Failed \<Rightarrow> (failed_result d, d, s))"
  by pat_completeness auto
termination
proof (relation "measure (\<lambda>(d, data, s). 2 * length data + (if rl_state d = EmitZero then 1 else 0))",
    goal_cases)
  case 1
  show ?case by simp
next
  case (2 d data s x result d')
  then show ?case by (cases data) auto
next
  case (3 d data s x result d')
  then show ?case by (cases data) auto
next
  case (4 d data s x result y d' s')
  then have "rl_state d' = ExpectTag" using emit_zeroes_Ok [of d s d' s'] by auto
  then show ?case using 4 by simp
next
  case (5 d data s count x result y d' s' d1 d2)
  then have "take count data \<noteq> []" using rle_emit_Ok(2) [of d "take count data" s d' s'] by auto
  then have "0 < count" "0 < length data" by auto
  then have "length (drop count data) < length data" by simp
  then show ?case by simp
qed

declare rle_consume_loop.simps [simp del]

definition rle_consume :: "'s Decoder \<Rightarrow> u64 \<Rightarrow> bytes \<Rightarrow> 's \<Rightarrow> 's rle_step" where
  "rle_consume d wire_offset encoded s =
     (if rl_state d = Failed then (failed_result d, d, s)
      else if wire_offset \<noteq> rl_wire_consumed d then
        let (r, d) = rle_fail d OffsetMismatch in (r, d, s)
      else if rl_wire_consumed d > rl_wire_size d \<or>
              length encoded > unat (rl_wire_size d - rl_wire_consumed d) then
        let (r, d) = rle_fail d WireOverrun in (r, d, s)
      else rle_consume_loop d encoded s)"

definition rle_finish_checks :: "'s Decoder \<Rightarrow> RleResult \<times> 's Decoder" where
  "rle_finish_checks d =
     (if rl_wire_consumed d \<noteq> rl_wire_size d then rle_fail d Truncated
      else if rl_state d \<noteq> ExpectTag then rle_fail d Truncated
      else if rl_logical_produced d \<noteq> rl_logical_size d then rle_fail d TrailingBytes
      else (RleOk, d))"

definition rle_finish :: "'s Decoder \<Rightarrow> 's \<Rightarrow> 's rle_step" where
  "rle_finish d s =
     (if rl_state d = Failed then (failed_result d, d, s)
      else if rl_state d = EmitZero then
        let (result, d, s) = emit_zeroes d s in
        if result \<noteq> RleOk then (result, d, s)
        else let (r, d) = rle_finish_checks d in (r, d, s)
      else let (r, d) = rle_finish_checks d in (r, d, s))"

subsection \<open>Reference: the meaning of a complete stream\<close>

primrec rle_length :: "nat \<Rightarrow> u32 \<Rightarrow> bytes \<Rightarrow> (u32 \<times> bytes) option" where
  "rle_length 0 acc data = Some (acc, data)"
| "rle_length (Suc m) acc data =
     (case data of [] \<Rightarrow> None
      | b # rest \<Rightarrow> rle_length m (acc OR push_bit ((4 - Suc m) * 8) (ucast b)) rest)"

lemma rle_length_le: "rle_length m acc data = Some (n, rest) \<Longrightarrow> length rest \<le> length data"
  by (induction m arbitrary: acc data) (force split: list.splits)+

function rle_decode :: "bytes \<Rightarrow> bytes option" where
  "rle_decode [] = Some []"
| "rle_decode (tag # data) =
     (case rle_length 4 0 data of
        None \<Rightarrow> None
      | Some (n, rest) \<Rightarrow>
          if (tag \<noteq> kZeroRun \<and> tag \<noteq> kLiteral) \<or> n = 0 then None
          else if tag = kZeroRun then map_option ((@) (replicate (unat n) 0)) (rle_decode rest)
          else if length rest < unat n then None
          else map_option ((@) (take (unat n) rest)) (rle_decode (drop (unat n) rest)))"
  by pat_completeness auto
termination
  by (relation "measure length") (auto dest: rle_length_le)

definition rle_record :: "u8 \<Rightarrow> u32 \<Rightarrow> bytes \<Rightarrow> bytes option" where
  "rle_record tag n rest =
     (if (tag \<noteq> kZeroRun \<and> tag \<noteq> kLiteral) \<or> n = 0 then None
      else if tag = kZeroRun then map_option ((@) (replicate (unat n) 0)) (rle_decode rest)
      else if length rest < unat n then None
      else map_option ((@) (take (unat n) rest)) (rle_decode (drop (unat n) rest)))"

text \<open>What the bytes still to come must decode to, given the state of the decoder.\<close>

definition residual :: "'s Decoder \<Rightarrow> bytes \<Rightarrow> bytes option" where
  "residual d data =
     (case rl_state d of
        ExpectTag \<Rightarrow> rle_decode data
      | ReadLength \<Rightarrow>
          (case rle_length (4 - rl_length_bytes d) (rl_record_length d) data of
             None \<Rightarrow> None | Some (n, rest) \<Rightarrow> rle_record (rl_tag d) n rest)
      | EmitZero \<Rightarrow>
          map_option ((@) (replicate (unat (rl_record_remaining d)) 0)) (rle_decode data)
      | ReadLiteral \<Rightarrow>
          if length data < unat (rl_record_remaining d) then None
          else map_option ((@) (take (unat (rl_record_remaining d)) data))
            (rle_decode (drop (unat (rl_record_remaining d)) data))
      | Failed \<Rightarrow> None)"

subsection \<open>Soundness\<close>

lemma ucast_u32_zero: "(ucast (x :: u32) :: u64) = 0 \<longleftrightarrow> x = 0"
  by (metis ucast_u32_u64 unat_eq_zero)

text \<open>
  The contract of the emit callback: \<open>holds s xs\<close> says that the target has taken in the bytes \<open>xs\<close>. A
  successful call appends to them, provided the offset is their length; the decoder never calls it otherwise.
  Whatever the outcome, a call keeps \<open>safe\<close>.
\<close>

locale rle_target =
  fixes emit :: "u64 \<Rightarrow> bytes \<Rightarrow> 's \<Rightarrow> bool \<times> 's"
    and holds :: "'s \<Rightarrow> bytes \<Rightarrow> bool" and safe :: "'s \<Rightarrow> bool"
  assumes emit_appends: "\<lbrakk>holds s xs; unat offset = length xs; emit offset data s = (True, s')\<rbrakk> \<Longrightarrow>
      holds s' (xs @ data)"
    and emit_safe: "\<lbrakk>safe s; emit offset data s = (ok, s')\<rbrakk> \<Longrightarrow> safe s'"
begin

definition tracks :: "u64 \<Rightarrow> 's Decoder \<Rightarrow> 's \<Rightarrow> bytes \<Rightarrow> bool" where
  "tracks ls d s xs \<longleftrightarrow>
     rl_logical_size d = ls \<and> rl_emit d = Some emit \<and> set (rl_zero_buffer d) \<subseteq> {0} \<and> holds s xs \<and>
     unat (rl_logical_produced d) = length xs \<and>
     rl_logical_produced d \<le> rl_logical_size d \<and>
     (rl_state d = ReadLength \<longrightarrow> rl_length_bytes d < 4 \<and> (rl_tag d = kZeroRun \<or> rl_tag d = kLiteral)) \<and>
     (rl_state d = ReadLiteral \<longrightarrow> rl_record_remaining d \<noteq> 0)"

lemma emit_tracks:
  assumes "tracks ls d s xs" "rle_emit d data s = (RleOk, d', s')"
  shows "tracks ls d' s' (xs @ data) \<and>
    d' = d\<lparr>rl_logical_produced := rl_logical_produced d + word_of_nat (length data)\<rparr>"
proof -
  let ?p = "rl_logical_produced d" and ?n = "length data"
  have e: "emit ?p data s = (True, s')" and le: "?p \<le> rl_logical_size d"
    "?n \<le> unat (rl_logical_size d - ?p)"
    using assms
    by (auto simp: rle_emit_def rle_fail_def tracks_def Let_def split: if_splits prod.splits)
  have d': "d' = d\<lparr>rl_logical_produced := ?p + word_of_nat ?n\<rparr>"
    using rle_emit_Ok(1) [OF assms(2)] .
  have n: "unat (word_of_nat ?n :: u64) = ?n" using le(2) by (rule unat_of_nat_bounded)
  then have "word_of_nat ?n \<le> rl_logical_size d - ?p" using le(2) by (simp add: word_le_nat_alt)
  then have "unat (?p + word_of_nat ?n) = unat ?p + ?n" "?p + word_of_nat ?n \<le> rl_logical_size d"
    using add_within [OF le(1)] n by simp_all
  with assms(1) d' emit_appends [OF _ _ e, of xs] show ?thesis by (auto simp: tracks_def)
qed

lemma emit_zeroes_loop_tracks:
  "tracks ls d s xs \<Longrightarrow> rl_state d = EmitZero \<Longrightarrow> emit_zeroes_loop d s = (RleOk, d', s') \<Longrightarrow>
   tracks ls d' s' (xs @ replicate (unat (rl_record_remaining d)) 0) \<and> rl_state d' = ExpectTag"
proof (induction d s arbitrary: xs rule: emit_zeroes_loop.induct)
  case (1 d s)
  show ?case
  proof (cases "rl_record_remaining d = 0")
    case True
    then show ?thesis
      using "1.prems" by (auto simp: emit_zeroes_loop.simps [of d s] tracks_def)
  next
    case False
    let ?c = "min (unat (rl_record_remaining d)) (length (rl_zero_buffer d))"
    let ?z = "take ?c (rl_zero_buffer d)"
    obtain r d1 s1 where e: "rle_emit d ?z s = (r, d1, s1)" by (metis prod_cases3)
    have r: "r = RleOk" and rest: "emit_zeroes_loop
        (d1\<lparr>rl_record_remaining := rl_record_remaining d1 - word_of_nat ?c\<rparr>) s1 = (RleOk, d', s')"
      using "1.prems"(3) False e
      by (auto simp: emit_zeroes_loop.simps [of d s] Let_def split: if_splits)
    have "tracks ls d1 s1 (xs @ ?z) \<and>
        d1 = d\<lparr>rl_logical_produced := rl_logical_produced d + word_of_nat (length ?z)\<rparr>"
      using e r by (intro emit_tracks [OF "1.prems"(1)]) simp
    then have t: "tracks ls d1 s1 (xs @ ?z)" "rl_state d1 = EmitZero"
        "rl_record_remaining d1 = rl_record_remaining d"
      using "1.prems"(2) by auto
    have "set ?z \<subseteq> {0}" using "1.prems"(1) set_take_subset [of ?c "rl_zero_buffer d"]
      by (auto simp: tracks_def)
    then have z: "?z = replicate ?c 0" by (intro replicate_eqI) auto
    let ?d2 = "d1\<lparr>rl_record_remaining := rl_record_remaining d1 - word_of_nat ?c\<rparr>"
    have c: "unat (word_of_nat ?c :: u64) = ?c"
      by (rule unat_of_nat_bounded [of _ "rl_record_remaining d"]) simp
    then have "word_of_nat ?c \<le> rl_record_remaining d" by (simp add: word_le_nat_alt)
    then have rem: "unat (rl_record_remaining ?d2) = unat (rl_record_remaining d) - ?c"
      using c t(3) by (simp add: unat_sub_le)
    have "tracks ls ?d2 s1 (xs @ ?z)" "rl_state ?d2 = EmitZero" using t by (auto simp: tracks_def)
    with "1.IH" [OF False refl e [symmetric] refl, where xs = "xs @ ?z"] r rest
    have IH: "tracks ls d' s' ((xs @ ?z) @ replicate (unat (rl_record_remaining ?d2)) 0)" "rl_state d' = ExpectTag"
      by auto
    have "?z @ replicate (unat (rl_record_remaining d) - ?c) 0 =
        replicate (unat (rl_record_remaining d)) (0 :: u8)"
      by (simp only: z replicate_add [symmetric]) simp
    with IH rem show ?thesis by simp
  qed
qed

lemma take_tag_residual:
  assumes "tracks ls d s xs" "rl_state d = ExpectTag" "take_tag d b = (RleOk, d')"
  shows "tracks ls d' s xs" "residual d (b # rest) = residual d' rest"
  using assms
  by (auto simp: take_tag_def tracks_def rle_fail_def Let_def residual_def rle_record_def
      split: if_splits option.splits)

lemma take_length_residual:
  assumes t: "tracks ls d s xs" and st: "rl_state d = ReadLength" and ok: "take_length d b = (RleOk, d')"
  shows "tracks ls d' s xs" "residual d (b # rest) = residual d' rest"
proof -
  let ?k = "rl_length_bytes d"
  let ?acc = "rl_record_length d OR push_bit (?k * 8) (ucast b)"
  have k: "?k < 4" and tag: "rl_tag d = kZeroRun \<or> rl_tag d = kLiteral"
    using t st by (auto simp: tracks_def)
  then have m: "4 - ?k = Suc (3 - ?k)" "4 - Suc (3 - ?k) = ?k" "3 - (3 - ?k) = ?k" by auto
  have step: "rle_length (4 - ?k) (rl_record_length d) (b # rest) = rle_length (3 - ?k) ?acc rest"
    unfolding m(1) using k by (simp add: m(3))
  have res: "residual d (b # rest) =
      (case rle_length (3 - ?k) ?acc rest of None \<Rightarrow> None | Some (n, r) \<Rightarrow> rle_record (rl_tag d) n r)"
    by (simp only: residual_def st RleState.case step)
  show "tracks ls d' s xs" "residual d (b # rest) = residual d' rest"
  proof -
    show "residual d (b # rest) = residual d' rest"
    proof (cases "?k = 3")
      case True
      with ok have d': "?acc \<noteq> 0" "rl_record_remaining d' = ucast ?acc"
          "rl_state d' = (if rl_tag d = kZeroRun then EmitZero else ReadLiteral)"
        by (auto simp: take_length_def rle_fail_def Let_def split: if_splits)
      have "rle_length (3 - ?k) ?acc rest = Some (?acc, rest)" using True by simp
      then have R: "residual d (b # rest) = rle_record (rl_tag d) ?acc rest" by (simp only: res option.case prod.case)
      define acc where "acc = ?acc"
      have "residual d' rest = rle_record (rl_tag d) acc rest"
        using tag d' unfolding acc_def [symmetric]
        by (cases "rl_tag d = kZeroRun")
          (simp_all add: residual_def rle_record_def ucast_u32_u64)
      with R show ?thesis by (simp only: acc_def)
    next
      case False
      with ok k have "rl_state d' = ReadLength" "rl_length_bytes d' = Suc ?k"
          "rl_record_length d' = ?acc" "rl_tag d' = rl_tag d" "4 - Suc ?k = 3 - ?k"
        using st by (auto simp: take_length_def rle_fail_def Let_def split: if_splits)
      then show ?thesis by (subst res) (simp add: residual_def split: option.split)
    qed
    show "tracks ls d' s xs"
      using t st ok k tag
      by (auto simp: take_length_def rle_fail_def Let_def tracks_def ucast_u32_zero split: if_splits)
  qed
qed

lemma literal_residual:
  assumes t: "tracks ls d s xs" and st: "rl_state d = ReadLiteral" and ne: "data \<noteq> []"
    and c: "c = min (unat (rl_record_remaining d)) (length data)"
    and e: "rle_emit d (take c data) s = (RleOk, d1, s1)"
  defines "d2 \<equiv> d1\<lparr>rl_wire_consumed := rl_wire_consumed d1 + word_of_nat c,
      rl_record_remaining := rl_record_remaining d1 - word_of_nat c\<rparr>"
  defines "d3 \<equiv> if rl_record_remaining d2 = 0 then d2\<lparr>rl_state := ExpectTag\<rparr> else d2"
  shows "tracks ls d3 s1 (xs @ take c data)"
    "residual d (data @ rest) = map_option ((@) (take c data)) (residual d3 (drop c data @ rest))"
proof -
  let ?r = "rl_record_remaining d"
  have et: "tracks ls d1 s1 (xs @ take c data) \<and>
      d1 = d\<lparr>rl_logical_produced := rl_logical_produced d + word_of_nat (length (take c data))\<rparr>"
    using emit_tracks [OF t e] .
  have st1: "rl_state d1 = ReadLiteral" "rl_record_remaining d1 = ?r" using et st by auto
  have cu: "unat (word_of_nat c :: u64) = c"
    by (rule unat_of_nat_bounded [of _ ?r]) (simp add: c)
  then have "word_of_nat c \<le> ?r" by (simp add: word_le_nat_alt c)
  then have rem: "unat (rl_record_remaining d2) = unat ?r - c"
    using cu st1 by (simp add: d2_def unat_sub_le)
  show "tracks ls d3 s1 (xs @ take c data)"
    using et st1 by (auto simp: d3_def d2_def tracks_def)
  have zero: "rl_record_remaining d2 = 0 \<longleftrightarrow> c = unat ?r"
    using rem c by (auto simp: unat_eq_zero [symmetric])
  show "residual d (data @ rest) = map_option ((@) (take c data)) (residual d3 (drop c data @ rest))"
  proof (cases "c = unat ?r")
    case True
    then have "unat ?r \<le> length data" using c by simp
    then show ?thesis
      using True zero st by (simp add: residual_def d3_def)
  next
    case False
    then have cl: "c = length data" "length data < unat ?r" using c by auto
    then have tk: "take (unat ?r) (data @ rest) = data @ take (unat ?r - c) rest"
      "drop (unat ?r) (data @ rest) = drop (unat ?r - c) rest" by simp_all
    have "rl_state d3 = ReadLiteral" using False zero st1 by (simp add: d3_def d2_def)
    moreover have "unat (rl_record_remaining d3) = unat ?r - c" using False zero rem by (simp add: d3_def)
    ultimately show ?thesis
      using cl tk st by (auto simp: residual_def map_option_append)
  qed
qed

lemma consume_loop_residual:
  "tracks ls d s xs \<Longrightarrow> rl_state d \<noteq> Failed \<Longrightarrow> rle_consume_loop d data s = (RleOk, d', s') \<Longrightarrow>
   rl_state d' \<noteq> Failed \<and> rl_state d' \<noteq> EmitZero \<and>
   (\<exists>out. tracks ls d' s' (xs @ out) \<and>
      (\<forall>rest. residual d (data @ rest) = map_option ((@) out) (residual d' rest)))"
proof (induction d data s arbitrary: xs rule: rle_consume_loop.induct)
  case (1 d data s)
  show ?case
  proof (cases "rl_state d")
    case Failed
    with "1.prems" show ?thesis by simp
  next
    case EmitZero
    obtain r d1 s1 where e: "emit_zeroes d s = (r, d1, s1)" by (metis prod_cases3)
    have r: "r = RleOk" and run: "rle_consume_loop d1 data s1 = (RleOk, d', s')"
      using "1.prems"(3) EmitZero e emit_zeroes_Ok [of d s d1 s1]
      by (auto simp: rle_consume_loop.simps [of d] rle_consume_loop.simps [of d1] split: if_splits)
    have z: "tracks ls d1 s1 (xs @ replicate (unat (rl_record_remaining d)) 0)" "rl_state d1 = ExpectTag"
      using emit_zeroes_loop_tracks [OF "1.prems"(1) EmitZero, of d1 s1] e r
      by (auto simp: emit_zeroes_def split: if_splits)
    have res: "residual d x = map_option ((@) (replicate (unat (rl_record_remaining d)) 0)) (residual d1 x)"
      for x using EmitZero z(2) by (simp add: residual_def)
    show ?thesis
    proof (cases "data = []")
      case True
      then have "d' = d1" "s' = s1" using run z(2) by (auto simp: rle_consume_loop.simps [of d1])
      with z res True show ?thesis by (auto intro!: exI [of _ "replicate (unat (rl_record_remaining d)) 0"])
    next
      case False
      from "1.IH"(3) [OF False EmitZero e [symmetric] refl refl _ z(1)] r z run obtain out where
        "tracks ls d' s' ((xs @ replicate (unat (rl_record_remaining d)) 0) @ out)"
        "rl_state d' \<noteq> Failed" "rl_state d' \<noteq> EmitZero"
        "\<And>rest. residual d1 (data @ rest) = map_option ((@) out) (residual d' rest)"
        by auto
      with res show ?thesis
        by (intro conjI exI [of _ "replicate (unat (rl_record_remaining d)) 0 @ out"])
          (simp_all add: option.map_comp comp_def)
    qed
  next
    case ExpectTag
    show ?thesis
    proof (cases data)
      case Nil
      with "1.prems" ExpectTag show ?thesis
        by (auto simp: rle_consume_loop.simps [of d] intro!: exI [of _ "[]"])
    next
      case (Cons b bs)
      obtain r d1 where e: "take_tag d b = (r, d1)" by force
      have r: "r = RleOk" and run: "rle_consume_loop d1 bs s = (RleOk, d', s')"
        using "1.prems"(3) ExpectTag e Cons
        by (auto simp: rle_consume_loop.simps [of d] split: if_splits)
      have t: "tracks ls d1 s xs" "residual d (b # x) = residual d1 x" for x
        using take_tag_residual [OF "1.prems"(1) ExpectTag] e r by auto
      have "rl_state d1 \<noteq> Failed" using e r by (auto simp: take_tag_def rle_fail_def Let_def split: if_splits)
      with "1.IH"(1) [of "(r, d1)" r d1] Cons ExpectTag e r t run show ?thesis by auto
    qed
  next
    case ReadLength
    show ?thesis
    proof (cases data)
      case Nil
      with "1.prems" ReadLength show ?thesis
        by (auto simp: rle_consume_loop.simps [of d] intro!: exI [of _ "[]"])
    next
      case (Cons b bs)
      obtain r d1 where e: "take_length d b = (r, d1)" by force
      have r: "r = RleOk" and run: "rle_consume_loop d1 bs s = (RleOk, d', s')"
        using "1.prems"(3) ReadLength e Cons
        by (auto simp: rle_consume_loop.simps [of d] split: if_splits)
      have t: "tracks ls d1 s xs" "residual d (b # x) = residual d1 x" for x
        using take_length_residual [OF "1.prems"(1) ReadLength] e r by auto
      have "rl_state d1 \<noteq> Failed"
        using e r ReadLength by (auto simp: take_length_def rle_fail_def Let_def split: if_splits)
      with "1.IH"(2) [of "(r, d1)" r d1] Cons ReadLength e r t run show ?thesis by auto
    qed
  next
    case ReadLiteral
    show ?thesis
    proof (cases "data = []")
      case True
      with "1.prems" ReadLiteral show ?thesis
        by (auto simp: rle_consume_loop.simps [of d] intro!: exI [of _ "[]"])
    next
      case False
      define c where "c = min (unat (rl_record_remaining d)) (length data)"
      obtain r d1 s1 where e: "rle_emit d (take c data) s = (r, d1, s1)" by (metis prod_cases3)
      define d2 where "d2 = d1\<lparr>rl_wire_consumed := rl_wire_consumed d1 + word_of_nat c,
          rl_record_remaining := rl_record_remaining d1 - word_of_nat c\<rparr>"
      define d3 where "d3 = (if rl_record_remaining d2 = 0 then d2\<lparr>rl_state := ExpectTag\<rparr> else d2)"
      have r: "r = RleOk" and run: "rle_consume_loop d3 (drop c data) s1 = (RleOk, d', s')"
        using "1.prems"(3) ReadLiteral e False
        by (auto simp: rle_consume_loop.simps [of d] Let_def c_def [symmetric] d2_def d3_def
            split: if_splits)
      note l = literal_residual [OF "1.prems"(1) ReadLiteral False c_def e [unfolded r],
          folded d2_def, folded d3_def]
      have "rl_state d1 = ReadLiteral" using rle_emit_Ok(1) [OF e [unfolded r]] ReadLiteral by simp
      then have "rl_state d3 \<noteq> Failed" by (simp add: d3_def d2_def)
      with "1.IH"(4) [OF False ReadLiteral c_def refl e [symmetric] refl _ d2_def d3_def l(1)] r run
      obtain out where o: "tracks ls d' s' ((xs @ take c data) @ out)" "rl_state d' \<noteq> Failed" "rl_state d' \<noteq> EmitZero"
          "\<And>rest. residual d3 (drop c data @ rest) = map_option ((@) out) (residual d' rest)"
        by auto
      with l(2) show ?thesis
        by (intro conjI exI [of _ "take c data @ out"]) (simp_all add: option.map_comp comp_def)
    qed
  qed
qed

lemma consume_residual:
  assumes "tracks ls d s xs" "rle_consume d offset data s = (RleOk, d', s')"
  shows "rl_state d' \<noteq> Failed \<and> rl_state d' \<noteq> EmitZero \<and>
   (\<exists>out. tracks ls d' s' (xs @ out) \<and>
      (\<forall>rest. residual d (data @ rest) = map_option ((@) out) (residual d' rest)))"
proof -
  have "rl_state d \<noteq> Failed" "rle_consume_loop d data s = (RleOk, d', s')"
    using assms(2)
    by (auto simp: rle_consume_def failed_result_def rle_fail_def split: if_splits)
  then show ?thesis using consume_loop_residual [OF assms(1)] by blast
qed

text \<open>
  \<open>received ls d s wire\<close>: the decoder has taken in the wire bytes and the target holds their decoding so far,
  in the sense that every continuation of the stream decodes to it followed by the residual.
\<close>

definition received :: "u64 \<Rightarrow> 's Decoder \<Rightarrow> 's \<Rightarrow> bytes \<Rightarrow> bool" where
  "received ls d s wire \<longleftrightarrow> rl_state d \<noteq> EmitZero \<and>
     (\<exists>out. tracks ls d s out \<and> (\<forall>rest. rle_decode (wire @ rest) = map_option ((@) out) (residual d rest)))"

lemma received_init:
  assumes "holds s []" "set zero_buffer \<subseteq> {0}"
  shows "received ls (rle_init ls wire_size (Some emit) zero_buffer) s []"
  using assms
  by (simp add: received_def tracks_def rle_init_def default_decoder_def residual_def)

lemma received_consume:
  assumes "received ls d s wire" "rle_consume d offset data s = (RleOk, d', s')"
  shows "received ls d' s' (wire @ data)"
proof -
  from assms(1) obtain xs where xs: "tracks ls d s xs"
      "\<And>rest. rle_decode (wire @ rest) = map_option ((@) xs) (residual d rest)"
    by (auto simp: received_def)
  from consume_residual [OF xs(1) assms(2)] obtain out where
    "rl_state d' \<noteq> EmitZero" "tracks ls d' s' (xs @ out)"
    "\<And>rest. residual d (data @ rest) = map_option ((@) out) (residual d' rest)" by blast
  moreover have "(@) (xs @ out) = (\<lambda>x. xs @ out @ x)" by (rule ext) simp
  ultimately show ?thesis
    unfolding received_def using xs(2)
    by (intro conjI exI [of _ "xs @ out"]) (simp_all add: option.map_comp comp_def)
qed

lemma received_finish:
  assumes "received ls d s wire" "rle_finish d s = (RleOk, d', s')"
  shows "s' = s \<and> (\<exists>out. holds s out \<and> rle_decode wire = Some out \<and> length out = unat ls)"
proof -
  from assms(1) obtain xs where xs: "tracks ls d s xs" "rl_state d \<noteq> EmitZero"
      "\<And>rest. rle_decode (wire @ rest) = map_option ((@) xs) (residual d rest)"
    by (auto simp: received_def)
  have "s' = s \<and> rl_state d = ExpectTag \<and> rl_logical_produced d = rl_logical_size d"
    using xs(2) assms(2)
    by (auto simp: rle_finish_def rle_finish_checks_def rle_fail_def failed_result_def Let_def split: if_splits)
  with xs(1) xs(3) [of "[]"] show ?thesis by (auto simp: residual_def tracks_def)
qed

text \<open>Whatever the stream, the target stays safe and the decoder keeps its callback.\<close>

lemma rle_emit_safe:
  assumes "rle_emit d data s = (r, d', s')" "rl_emit d = Some emit" "safe s"
  shows "safe s'" "rl_emit d' = Some emit"
  using assms emit_safe
  by (auto simp: rle_emit_def rle_fail_def Let_def split: if_splits prod.splits)

lemma emit_zeroes_safe:
  assumes "emit_zeroes d s = (r, d', s')" "rl_emit d = Some emit" "safe s"
  shows "safe s' \<and> rl_emit d' = Some emit"
proof -
  have "emit_zeroes_loop d s = (r, d', s') \<Longrightarrow> rl_emit d = Some emit \<Longrightarrow> safe s \<Longrightarrow> safe s' \<and> rl_emit d' = Some emit"
  proof (induction d s rule: emit_zeroes_loop.induct)
    case (1 d s)
    show ?case
    proof (cases "rl_record_remaining d = 0")
      case True
      then show ?thesis using "1.prems" by (auto simp: emit_zeroes_loop.simps [of d s])
    next
      case False
      let ?c = "min (unat (rl_record_remaining d)) (length (rl_zero_buffer d))"
      obtain r1 d1 s1 where e: "rle_emit d (take ?c (rl_zero_buffer d)) s = (r1, d1, s1)" by (metis prod_cases3)
      note es = rle_emit_safe [OF e "1.prems"(2,3)]
      show ?thesis
      proof (cases "r1 = RleOk")
        case True
        then show ?thesis
          using "1.prems"(1) False e es "1.IH" [OF False refl e [symmetric] refl]
          by (simp add: emit_zeroes_loop.simps [of d s])
      next
        case r1: False
        then show ?thesis using "1.prems"(1) False e es by (simp add: emit_zeroes_loop.simps [of d s])
      qed
    qed
  qed
  then show ?thesis using assms by (auto simp: emit_zeroes_def split: if_splits)
qed

lemma take_tag_emit [simp]: "take_tag d b = (r, d') \<Longrightarrow> rl_emit d' = rl_emit d"
  by (auto simp: take_tag_def rle_fail_def Let_def split: if_splits)

lemma take_length_emit [simp]: "take_length d b = (r, d') \<Longrightarrow> rl_emit d' = rl_emit d"
  by (auto simp: take_length_def rle_fail_def Let_def split: if_splits)

lemma consume_loop_safe:
  "rle_consume_loop d data s = (r, d', s') \<Longrightarrow> rl_emit d = Some emit \<Longrightarrow> safe s \<Longrightarrow> safe s' \<and> rl_emit d' = Some emit"
proof (induction d data s rule: rle_consume_loop.induct)
  case (1 d data s)
  note run = "1.prems"(1) [unfolded rle_consume_loop.simps [of d data s]]
  show ?case
  proof (cases "data = []")
    case True
    then show ?thesis using run "1.prems"(2,3) emit_zeroes_safe [of d s r d' s'] by (auto split: if_splits)
  next
    case ne: False
    show ?thesis
    proof (cases "rl_state d")
      case EmitZero
      obtain r1 d1 s1 where e: "emit_zeroes d s = (r1, d1, s1)" by (metis prod_cases3)
      have es: "safe s1" "rl_emit d1 = Some emit" using emit_zeroes_safe [OF e "1.prems"(2,3)] by auto
      have split: "if r1 \<noteq> RleOk then (r1, d1, s1) = (r, d', s') else rle_consume_loop d1 data s1 = (r, d', s')"
        using run ne EmitZero e by (simp split: if_split_asm)
      show ?thesis
      proof (cases "r1 = RleOk")
        case True
        then show ?thesis
          using split "1.IH"(3) [OF ne EmitZero e [symmetric] refl refl _ _ es(2,1)] by simp
      qed (use split es in auto)
    next
      case ExpectTag
      obtain r1 d1 where e: "take_tag d (hd data) = (r1, d1)" by force
      have es: "rl_emit d1 = Some emit" using take_tag_emit [OF e] "1.prems"(2) by simp
      have split: "if r1 \<noteq> RleOk then (r1, d1, s) = (r, d', s') else rle_consume_loop d1 (tl data) s = (r, d', s')"
        using run ne ExpectTag e by (simp split: if_split_asm)
      show ?thesis
      proof (cases "r1 = RleOk")
        case True
        then show ?thesis
          using split "1.IH"(1) [OF ne ExpectTag e [symmetric] refl _ _ es "1.prems"(3)] by simp
      qed (use split es "1.prems"(3) in auto)
    next
      case ReadLength
      obtain r1 d1 where e: "take_length d (hd data) = (r1, d1)" by force
      have es: "rl_emit d1 = Some emit" using take_length_emit [OF e] "1.prems"(2) by simp
      have split: "if r1 \<noteq> RleOk then (r1, d1, s) = (r, d', s') else rle_consume_loop d1 (tl data) s = (r, d', s')"
        using run ne ReadLength e by (simp split: if_split_asm)
      show ?thesis
      proof (cases "r1 = RleOk")
        case True
        then show ?thesis
          using split "1.IH"(2) [OF ne ReadLength e [symmetric] refl _ _ es "1.prems"(3)] by simp
      qed (use split es "1.prems"(3) in auto)
    next
      case ReadLiteral
      define c where "c = min (unat (rl_record_remaining d)) (length data)"
      obtain r1 d1 s1 where e: "rle_emit d (take c data) s = (r1, d1, s1)" by (metis prod_cases3)
      define d2 where "d2 = d1\<lparr>rl_wire_consumed := rl_wire_consumed d1 + word_of_nat c,
          rl_record_remaining := rl_record_remaining d1 - word_of_nat c\<rparr>"
      define d3 where "d3 = (if rl_record_remaining d2 = 0 then d2\<lparr>rl_state := ExpectTag\<rparr> else d2)"
      note es = rle_emit_safe [OF e "1.prems"(2,3)]
      have e3: "rl_emit d3 = Some emit" using es(2) by (simp add: d3_def d2_def)
      have split: "if r1 \<noteq> RleOk then (r1, d1, s1) = (r, d', s') else rle_consume_loop d3 (drop c data) s1 = (r, d', s')"
        using run ne ReadLiteral e
        by (simp add: Let_def c_def [symmetric] d2_def [symmetric] d3_def [symmetric] split: if_split_asm)
      show ?thesis
      proof (cases "r1 = RleOk")
        case True
        then show ?thesis
          using split "1.IH"(4) [OF ne ReadLiteral c_def refl e [symmetric] refl _ d2_def d3_def _ e3 es(1)] by simp
      qed (use split es in auto)
    next
      case Failed
      then show ?thesis using run ne "1.prems"(2,3) by simp
    qed
  qed
qed

lemma consume_safe:
  assumes "rle_consume d offset data s = (r, d', s')" "rl_emit d = Some emit" "safe s"
  shows "safe s' \<and> rl_emit d' = Some emit"
  using assms consume_loop_safe
  by (auto simp: rle_consume_def rle_fail_def Let_def split: if_splits)

lemma finish_safe:
  assumes "rle_finish d s = (r, d', s')" "rl_emit d = Some emit" "safe s"
  shows "safe s' \<and> rl_emit d' = Some emit"
  using assms emit_zeroes_safe
  by (auto simp: rle_finish_def rle_finish_checks_def rle_fail_def Let_def split: if_splits prod.splits)

end

end
