(* ===== verification/File_Transfer.thy ===== *)
theory File_Transfer
  imports Transfer_Sender Storage File_Path Zero_Rle
begin

section \<open>File service (file_transfer.cpp)\<close>

text \<open>
  The service behind the file commands. It validates paths, opens sessions of the storage backend and is
  the endpoint of the transfer manager for uploads and downloads. Conventions:
  \<^item> the object behind \<^verbatim>\<open>storage.context\<close> is a value of the type parameter \<open>'b\<close>; the world of the transfer
    manager is \<open>'b FileWorld\<close>, the service together with the backend;
  \<^item> \<^verbatim>\<open>EndpointContext\<close> is split into the decoder and all other fields (\<open>ContextCore\<close>), since the decoder's
    callback works on those other fields and the backend;
  \<^item> the pointers \<^verbatim>\<open>binary\<close> and \<^verbatim>\<open>ctx->service\<close> are flags (non-null), as they are only ever null or the
    one manager and service; the null checks of out-parameters have no counterpart, since out-parameters
    are results;
  \<^item> paths are the C strings of the arrays they are copied to;
  \<^item> the SHA-256 functions of mbedTLS are the parameter \<open>sha\<close> of the one operation that uses them.
\<close>

definition kSha256ChunkBytes :: nat where "kSha256ChunkBytes = 4096"
definition kZeroRunBufferBytes :: nat where "kZeroRunBufferBytes = 4096"
definition kHex :: string where "kHex = ''0123456789abcdef''"
definition zero_run_buffer :: bytes where "zero_run_buffer = replicate kZeroRunBufferBytes 0"

definition format_sha256 :: "bytes \<Rightarrow> string" where
  "format_sha256 digest =
     concat (map (\<lambda>b. [kHex ! unat (drop_bit 4 b), kHex ! unat (b AND 0x0f)]) digest)"

datatype FileError =
  FtOk | FtInvalidPath | FtBusy | FtNotFound | FtAlreadyExists | FtNotAFile | FtNotADirectory
  | FtParentNotFound | FtNoSpace | FtReadFailed | FtWriteFailed | FtCommitFailed | FtOutOfRange
  | FtUnsupported | FtResponseTooLarge | FtUnknownTransfer | FtInternalError

datatype Encoding = Raw | ZeroRleV1
datatype CodecError = CodecNone | MalformedEncoding
datatype FileState = FileActive | FileCompleted | FileFailed | FileAborted

primrec file_error_code :: "FileError \<Rightarrow> string" where
  "file_error_code FtOk = ''OK''"
| "file_error_code FtInvalidPath = ''INVALID_PATH''"
| "file_error_code FtBusy = ''BUSY''"
| "file_error_code FtNotFound = ''NOT_FOUND''"
| "file_error_code FtAlreadyExists = ''ALREADY_EXISTS''"
| "file_error_code FtNotAFile = ''NOT_A_FILE''"
| "file_error_code FtNotADirectory = ''NOT_A_DIRECTORY''"
| "file_error_code FtParentNotFound = ''PARENT_NOT_FOUND''"
| "file_error_code FtNoSpace = ''NO_SPACE''"
| "file_error_code FtReadFailed = ''READ_FAILED''"
| "file_error_code FtWriteFailed = ''WRITE_FAILED''"
| "file_error_code FtCommitFailed = ''COMMIT_FAILED''"
| "file_error_code FtOutOfRange = ''OUT_OF_RANGE''"
| "file_error_code FtUnsupported = ''UNSUPPORTED''"
| "file_error_code FtResponseTooLarge = ''RESPONSE_TOO_LARGE''"
| "file_error_code FtUnknownTransfer = ''UNKNOWN_TRANSFER''"
| "file_error_code FtInternalError = ''INTERNAL_ERROR''"

primrec encoding_name :: "Encoding \<Rightarrow> string" where
  "encoding_name Raw = ''raw''"
| "encoding_name ZeroRleV1 = ''zero-rle-v1''"

primrec transport_name :: "TransportMode \<Rightarrow> string" where
  "transport_name StopAndWait = ''stop-and-wait-v1''"
| "transport_name WindowedGbnV1 = ''windowed-gbn-v1''"

primrec codec_error_code :: "CodecError \<Rightarrow> string" where
  "codec_error_code CodecNone = ''OK''"
| "codec_error_code MalformedEncoding = ''MALFORMED_ENCODING''"

primrec codec_error_message :: "CodecError \<Rightarrow> string" where
  "codec_error_message CodecNone = ''encoding is valid''"
| "codec_error_message MalformedEncoding = ''zero-rle-v1 stream is malformed''"

primrec file_state_name :: "FileState \<Rightarrow> string" where
  "file_state_name FileActive = ''active''"
| "file_state_name FileCompleted = ''completed''"
| "file_state_name FileFailed = ''failed''"
| "file_state_name FileAborted = ''aborted''"

primrec terminal_error_code :: "TerminalReason \<Rightarrow> string" where
  "terminal_error_code ReasonCompleted = ''OK''"
| "terminal_error_code ExplicitAbort = ''TRANSFER_ABORTED''"
| "terminal_error_code ReceiverTimeout = ''RECEIVER_TIMEOUT''"
| "terminal_error_code RetryExhausted = ''RETRY_EXHAUSTED''"
| "terminal_error_code ProtocolError = ''PROTOCOL_ERROR''"
| "terminal_error_code OutputError = ''OUTPUT_ERROR''"
| "terminal_error_code EndpointIoError = ''ENDPOINT_IO_ERROR''"
| "terminal_error_code EndpointFinishError = ''ENDPOINT_FINISH_ERROR''"

primrec terminal_error_message :: "TerminalReason \<Rightarrow> string" where
  "terminal_error_message ReasonCompleted = ''transfer completed''"
| "terminal_error_message ExplicitAbort = ''transfer was explicitly aborted''"
| "terminal_error_message ReceiverTimeout = ''receiver activity timed out''"
| "terminal_error_message RetryExhausted = ''retransmission budget was exhausted''"
| "terminal_error_message ProtocolError = ''binary transport protocol error''"
| "terminal_error_message OutputError = ''machine output failed''"
| "terminal_error_message EndpointIoError = ''storage data operation failed''"
| "terminal_error_message EndpointFinishError = ''storage finalization failed''"

subsection \<open>State\<close>

record WriteOptions =
  wo_logical_size_bytes :: u64
  wo_wire_size_bytes :: u64
  wo_replace :: bool
  wo_encoding :: Encoding
  wo_transport :: TransportMode
  wo_window_frames :: u8

record BeginResult =
  br_info :: TransferInfo
  br_synchronous :: bool
  br_file_offset :: u64
  br_encoding :: Encoding
  br_logical_size_bytes :: u64
  br_wire_size_bytes :: u64
  br_transport :: TransportMode
  br_window_frames :: u8

definition default_begin_result :: BeginResult where
  "default_begin_result = \<lparr>br_info = default_info, br_synchronous = False, br_file_offset = 0,
     br_encoding = Raw, br_logical_size_bytes = 0, br_wire_size_bytes = 0,
     br_transport = StopAndWait, br_window_frames = 1\<rparr>"

record Summary =
  su_valid :: bool
  su_transfer_id :: u32
  su_path :: bytes
  su_direction :: Direction
  su_transport_state :: TransferState
  su_file_state :: FileState
  su_size_bytes :: u64
  su_transferred_bytes :: u64
  su_encoding :: Encoding
  su_wire_size_bytes :: u64
  su_wire_transferred_bytes :: u64
  su_crc32 :: u32
  su_has_crc32 :: bool
  su_storage_error :: StorageError
  su_codec_error :: CodecError
  su_terminal_reason :: TerminalReason

definition default_summary :: Summary where
  "default_summary = \<lparr>su_valid = False, su_transfer_id = 0, su_path = [], su_direction = HostToDevice,
     su_transport_state = Idle, su_file_state = FileActive, su_size_bytes = 0,
     su_transferred_bytes = 0, su_encoding = Raw, su_wire_size_bytes = 0,
     su_wire_transferred_bytes = 0, su_crc32 = 0, su_has_crc32 = False, su_storage_error = StOk,
     su_codec_error = CodecNone, su_terminal_reason = ReasonCompleted\<rparr>"

record 'b ContextCore =
  ec_service :: bool
  ec_write :: bool
  ec_replace :: bool
  ec_path :: bytes
  ec_file_offset :: u64
  ec_logical_size :: u64
  ec_wire_size :: u64
  ec_encoding :: Encoding
  ec_read :: "'b ReadSession"
  ec_write_session :: "'b WriteSession"
  ec_storage_error :: StorageError
  ec_codec_error :: CodecError
  ec_decoder_initialized :: bool
  ec_session_open :: bool
  ec_finish_succeeded :: bool
  ec_failed :: bool

definition default_core :: "'b ContextCore" where
  "default_core = \<lparr>ec_service = False, ec_write = False, ec_replace = False, ec_path = [],
     ec_file_offset = 0, ec_logical_size = 0, ec_wire_size = 0, ec_encoding = Raw,
     ec_read = null_read_session, ec_write_session = null_write_session, ec_storage_error = StOk,
     ec_codec_error = CodecNone, ec_decoder_initialized = False, ec_session_open = False,
     ec_finish_succeeded = False, ec_failed = False\<rparr>"

type_synonym 'b emit_world = "'b ContextCore \<times> 'b"

record 'b EndpointContext =
  cx_core :: "'b ContextCore"
  cx_decoder :: "'b emit_world Decoder"

record 'b Service =
  sv_storage :: "'b Storage"
  sv_binary :: bool
  sv_max_file_bytes :: u64
  sv_current :: Summary
  sv_terminal :: Summary
  sv_endpoint :: "'b EndpointContext"

record 'b FileWorld =
  fw_service :: "'b Service"
  fw_backend :: 'b

type_synonym 'b file_manager = "'b FileWorld TransferManager"
type_synonym 'b file_state = "'b file_manager \<times> 'b FileWorld"

definition default_context :: "'b EndpointContext" where
  "default_context = \<lparr>cx_core = default_core, cx_decoder = default_decoder\<rparr>"

abbreviation core_of :: "'b FileWorld \<Rightarrow> 'b ContextCore" where
  "core_of w \<equiv> cx_core (sv_endpoint (fw_service w))"

abbreviation decoder_of :: "'b FileWorld \<Rightarrow> 'b emit_world Decoder" where
  "decoder_of w \<equiv> cx_decoder (sv_endpoint (fw_service w))"

definition put_core :: "'b ContextCore \<Rightarrow> 'b FileWorld \<Rightarrow> 'b FileWorld" where
  "put_core c w = w\<lparr>fw_service := (fw_service w)
     \<lparr>sv_endpoint := (sv_endpoint (fw_service w))\<lparr>cx_core := c\<rparr>\<rparr>\<rparr>"

definition put_decoder :: "'b emit_world Decoder \<Rightarrow> 'b FileWorld \<Rightarrow> 'b FileWorld" where
  "put_decoder d w = w\<lparr>fw_service := (fw_service w)
     \<lparr>sv_endpoint := (sv_endpoint (fw_service w))\<lparr>cx_decoder := d\<rparr>\<rparr>\<rparr>"

definition put_backend :: "'b \<Rightarrow> 'b FileWorld \<Rightarrow> 'b FileWorld" where
  "put_backend b w = w\<lparr>fw_backend := b\<rparr>"

lemma put_fields [simp]:
  "core_of (put_core c w) = c" "decoder_of (put_core c w) = decoder_of w" "fw_backend (put_core c w) = fw_backend w"
  "core_of (put_decoder d w) = core_of w" "decoder_of (put_decoder d w) = d" "fw_backend (put_decoder d w) = fw_backend w"
  "core_of (put_backend b w) = core_of w" "decoder_of (put_backend b w) = decoder_of w" "fw_backend (put_backend b w) = b"
  "sv_storage (fw_service (put_core c w)) = sv_storage (fw_service w)"
  "sv_storage (fw_service (put_decoder d w)) = sv_storage (fw_service w)"
  "sv_storage (fw_service (put_backend b w)) = sv_storage (fw_service w)"
  "sv_current (fw_service (put_core c w)) = sv_current (fw_service w)"
  "sv_current (fw_service (put_decoder d w)) = sv_current (fw_service w)"
  "sv_current (fw_service (put_backend b w)) = sv_current (fw_service w)"
  by (simp_all add: put_core_def put_decoder_def put_backend_def)

subsection \<open>Endpoint callbacks\<close>

definition decoder_emit :: "u64 \<Rightarrow> bytes \<Rightarrow> 'b emit_world \<Rightarrow> bool \<times> 'b emit_world" where
  "decoder_emit offset data s =
     (let (ctx, b) = s in
      case ws_write (ec_write_session ctx) of
        None \<Rightarrow> (False, ctx, b)
      | Some write \<Rightarrow>
          if \<not> ec_session_open ctx then (False, ctx, b)
          else
            let (error, b) = write offset data b in
            if error \<noteq> StOk then (False, ctx\<lparr>ec_storage_error := error, ec_failed := True\<rparr>, b)
            else (True, ctx, b))"

definition file_endpoint_begin ::
  "Direction \<Rightarrow> u64 \<Rightarrow> 'b FileWorld \<Rightarrow> EndpointResult \<times> 'b FileWorld" where
  "file_endpoint_begin direction size_bytes w =
     (let ctx = core_of w; storage = sv_storage (fw_service w) in
      if \<not> ec_service ctx then (EndpointFailed, w)
      else if ec_write ctx then
        (case st_begin_write storage of
           None \<Rightarrow> (EndpointFailed, put_core (ctx\<lparr>ec_storage_error := StWriteFailed\<rparr>) w)
         | Some begin_write \<Rightarrow>
             let (error, session, b) =
                   begin_write (ec_path ctx) (ec_logical_size ctx) (ec_replace ctx) (fw_backend w);
                 ctx = ctx\<lparr>ec_write_session := session, ec_storage_error := error,
                           ec_session_open := (error = StOk)\<rparr>;
                 w = put_backend b w
             in if error = StOk \<and> ec_encoding ctx = ZeroRleV1
                then (EndpointOk,
                  put_decoder (rle_init (ec_logical_size ctx) (ec_wire_size ctx) (Some decoder_emit) zero_run_buffer)
                    (put_core (ctx\<lparr>ec_decoder_initialized := True\<rparr>) w))
                else (if error = StOk then EndpointOk else EndpointFailed, put_core ctx w))
      else
        case st_begin_read storage of
          None \<Rightarrow> (EndpointFailed, put_core (ctx\<lparr>ec_storage_error := StReadFailed\<rparr>) w)
        | Some begin_read \<Rightarrow>
            let (error, session, b) = begin_read (ec_path ctx) (fw_backend w)
            in (if error = StOk then EndpointOk else EndpointFailed,
                put_core (ctx\<lparr>ec_read := session, ec_storage_error := error,
                              ec_session_open := (error = StOk)\<rparr>) (put_backend b w)))"

text \<open>The decoder runs on the other fields of the context and the backend.\<close>

definition run_decoder ::
  "('b emit_world Decoder \<Rightarrow> 'b emit_world \<Rightarrow> 'b emit_world rle_step) \<Rightarrow> 'b FileWorld \<Rightarrow>
   RleResult \<times> 'b FileWorld" where
  "run_decoder f w =
     (let (r, d, ctx, b) = f (decoder_of w) (core_of w, fw_backend w)
      in (r, put_decoder d (put_core ctx (put_backend b w))))"

definition file_endpoint_consume ::
  "u64 \<Rightarrow> bytes \<Rightarrow> 'b FileWorld \<Rightarrow> EndpointResult \<times> 'b FileWorld" where
  "file_endpoint_consume offset data w =
     (let ctx = core_of w in
      case ws_write (ec_write_session ctx) of
        None \<Rightarrow> (EndpointFailed, w)
      | Some write \<Rightarrow>
          if \<not> ec_session_open ctx then (EndpointFailed, w)
          else if ec_encoding ctx = ZeroRleV1 \<and>
                  (\<not> ec_decoder_initialized ctx \<or> offset \<noteq> rl_wire_consumed (decoder_of w))
          then (EndpointFailed, put_core (ctx\<lparr>ec_codec_error := MalformedEncoding, ec_failed := True\<rparr>) w)
          else if ec_encoding ctx = ZeroRleV1 then
            let (result, w) = run_decoder (\<lambda>d s. rle_consume d offset data s) w in
            case result of
              RleMalformed \<Rightarrow>
                (EndpointFailed,
                 put_core ((core_of w)\<lparr>ec_codec_error := MalformedEncoding, ec_failed := True\<rparr>) w)
            | RleOutputFailed \<Rightarrow> (EndpointFailed, put_core ((core_of w)\<lparr>ec_failed := True\<rparr>) w)
            | RleOk \<Rightarrow> (EndpointOk, w)
          else
            let (error, b) = write offset data (fw_backend w); w = put_backend b w in
            if error \<noteq> StOk
            then (EndpointFailed, put_core (ctx\<lparr>ec_storage_error := error, ec_failed := True\<rparr>) w)
            else (EndpointOk, w))"

definition file_endpoint_produce ::
  "u64 \<Rightarrow> nat \<Rightarrow> 'b FileWorld \<Rightarrow> EndpointResult \<times> bytes \<times> nat \<times> 'b FileWorld" where
  "file_endpoint_produce offset requested w =
     (let ctx = core_of w in
      case rs_read (ec_read ctx) of
        None \<Rightarrow> (EndpointFailed, [], 0, w)
      | Some read \<Rightarrow>
          if \<not> ec_session_open ctx then (EndpointFailed, [], 0, w)
          else
            let (error, data, b) = read (ec_file_offset ctx + offset) requested (fw_backend w);
                w = put_backend b w
            in if error \<noteq> StOk \<or> length data \<noteq> requested
               then (EndpointFailed, data, length data,
                 put_core (ctx\<lparr>ec_storage_error := (if error = StOk then StReadFailed else error),
                               ec_failed := True\<rparr>) w)
               else (EndpointOk, data, length data, w))"

definition abort_session :: "'b FileWorld \<Rightarrow> 'b FileWorld" where
  "abort_session w =
     (case ws_abort (ec_write_session (core_of w)) of
        None \<Rightarrow> w
      | Some abort_write \<Rightarrow> put_backend (abort_write (fw_backend w)) w)"

definition close_session :: "'b FileWorld \<Rightarrow> 'b FileWorld" where
  "close_session w =
     (case rs_close (ec_read (core_of w)) of
        None \<Rightarrow> w
      | Some close \<Rightarrow> put_backend (close (fw_backend w)) w)"

definition commit_session :: "'b FileWorld \<Rightarrow> StorageError \<times> 'b FileWorld" where
  "commit_session w =
     (case ws_commit (ec_write_session (core_of w)) of
        None \<Rightarrow> (StCommitFailed, w)
      | Some commit \<Rightarrow> let (error, b) = commit (fw_backend w) in (error, put_backend b w))"

definition finish_with :: "StorageError \<Rightarrow> 'b FileWorld \<Rightarrow> EndpointResult \<times> 'b FileWorld" where
  "finish_with error w =
     (if error = StOk then EndpointOk else EndpointFailed,
      put_core ((core_of w)\<lparr>ec_session_open := False, ec_storage_error := error,
        ec_failed := (error \<noteq> StOk), ec_finish_succeeded := (error = StOk)\<rparr>) w)"

definition finish_write :: "'b FileWorld \<Rightarrow> EndpointResult \<times> 'b FileWorld" where
  "finish_write w =
     (let (error, w) = commit_session w;
          w = (if error \<noteq> StOk then abort_session w else w)
      in finish_with error w)"

definition file_endpoint_finish :: "'b FileWorld \<Rightarrow> EndpointResult \<times> 'b FileWorld" where
  "file_endpoint_finish w =
     (let ctx = core_of w in
      if \<not> ec_session_open ctx then (EndpointFailed, w)
      else if ec_write ctx then
        if ec_encoding ctx = ZeroRleV1 \<and> ec_decoder_initialized ctx then
          let (decoded, w) = run_decoder rle_finish w in
          case decoded of
            RleMalformed \<Rightarrow>
              let w = abort_session (put_core ((core_of w)\<lparr>ec_codec_error := MalformedEncoding, ec_failed := True\<rparr>) w)
              in (EndpointFailed, put_core ((core_of w)\<lparr>ec_session_open := False, ec_storage_error := StOk,
                    ec_finish_succeeded := False\<rparr>) w)
          | RleOutputFailed \<Rightarrow>
              let w = abort_session (put_core ((core_of w)\<lparr>ec_failed := True\<rparr>) w)
              in (EndpointFailed, put_core ((core_of w)\<lparr>ec_session_open := False, ec_finish_succeeded := False\<rparr>) w)
          | RleOk \<Rightarrow> finish_write w
        else finish_write w
      else finish_with StOk (close_session w))"

definition file_endpoint_abort :: "TerminalReason \<Rightarrow> 'b FileWorld \<Rightarrow> 'b FileWorld" where
  "file_endpoint_abort reason w =
     (let ctx = core_of w;
          w = (if ec_session_open ctx then
                 let w = (if ec_write ctx then abort_session w else w);
                     w = (if \<not> ec_write ctx then close_session w else w)
                 in put_core ((core_of w)\<lparr>ec_session_open := False\<rparr>) w
               else w)
      in if \<not> ec_failed ctx then put_core ((core_of w)\<lparr>ec_storage_error := StOk\<rparr>) w else w)"

definition file_endpoint_terminal :: "TransferInfo \<Rightarrow> TerminalReason \<Rightarrow> 'b FileWorld \<Rightarrow> 'b FileWorld" where
  "file_endpoint_terminal binary_terminal reason w =
     (let ctx = core_of w; service = fw_service w in
      if \<not> ec_service ctx \<or> \<not> sv_binary service then w
      else
        let summary = (sv_current service)
              \<lparr>su_transport_state := ti_state binary_terminal,
               su_wire_transferred_bytes := ti_transferred_bytes binary_terminal,
               su_transferred_bytes :=
                 (if ec_encoding ctx = ZeroRleV1 \<and> ec_decoder_initialized ctx
                  then rl_logical_produced (decoder_of w) else ti_transferred_bytes binary_terminal),
               su_encoding := ec_encoding ctx, su_size_bytes := ec_logical_size ctx,
               su_wire_size_bytes := ec_wire_size ctx, su_crc32 := ti_crc32 binary_terminal,
               su_has_crc32 := ti_has_crc32 binary_terminal,
               su_file_state :=
                 (if ec_finish_succeeded ctx then FileCompleted
                  else if ec_failed ctx then FileFailed
                  else if reason = ReasonCompleted then FileCompleted else FileAborted),
               su_storage_error := ec_storage_error ctx, su_codec_error := ec_codec_error ctx,
               su_terminal_reason := reason, su_valid := True\<rparr>
        in w\<lparr>fw_service := service\<lparr>sv_terminal := summary,
               sv_current := (sv_current service)\<lparr>su_valid := False\<rparr>\<rparr>\<rparr>)"

definition make_endpoint :: "'b FileWorld TransferEndpoint" where
  "make_endpoint =
     \<lparr>ep_context = True, ep_begin = Some file_endpoint_begin, ep_consume = Some file_endpoint_consume,
      ep_produce = Some file_endpoint_produce, ep_finish = Some file_endpoint_finish,
      ep_abort = Some file_endpoint_abort, ep_terminal = Some file_endpoint_terminal\<rparr>"

subsection \<open>Commands\<close>

definition service_init :: "'b Storage \<Rightarrow> bool \<Rightarrow> u64 \<Rightarrow> 'b Service" where
  "service_init backend manager max_file_bytes =
     \<lparr>sv_storage = backend, sv_binary = manager, sv_max_file_bytes = max_file_bytes,
      sv_current = default_summary, sv_terminal = default_summary, sv_endpoint = default_context\<rparr>"

definition service_active :: "'b file_manager \<Rightarrow> 'b FileWorld \<Rightarrow> bool" where
  "service_active m w \<longleftrightarrow> sv_binary (fw_service w) \<and> tm_active m"

primrec map_storage :: "StorageError \<Rightarrow> FileError" where
  "map_storage StOk = FtOk"
| "map_storage StNotFound = FtNotFound"
| "map_storage StAlreadyExists = FtAlreadyExists"
| "map_storage StInvalidPath = FtInvalidPath"
| "map_storage StNotAFile = FtNotAFile"
| "map_storage StNotADirectory = FtNotADirectory"
| "map_storage StParentNotFound = FtParentNotFound"
| "map_storage StNoSpace = FtNoSpace"
| "map_storage StReadFailed = FtReadFailed"
| "map_storage StWriteFailed = FtWriteFailed"
| "map_storage StCommitFailed = FtCommitFailed"
| "map_storage StBusy = FtBusy"
| "map_storage StOutOfRange = FtOutOfRange"
| "map_storage StUnsupported = FtUnsupported"

definition service_stat :: "bytes \<Rightarrow> 'b FileWorld \<Rightarrow> FileError \<times> Metadata option" where
  "service_stat path w =
     (if \<not> validate_path path True then (FtInvalidPath, None)
      else case st_stat (sv_storage (fw_service w)) of
        None \<Rightarrow> (FtInternalError, None)
      | Some stat \<Rightarrow> let (e, metadata) = stat path (fw_backend w) in (map_storage e, metadata))"

definition service_list ::
  "bytes \<Rightarrow> bytes \<Rightarrow> nat \<Rightarrow> 'b file_state \<Rightarrow> FileError \<times> DirEntry list \<times> bool" where
  "service_list path cursor limit s =
     (let (m, w) = s in
      if service_active m w then (FtBusy, [], False)
      else if \<not> validate_path path True \<or> (cursor \<noteq> [] \<and> \<not> valid_component cursor) \<or> limit = 0 \<or> limit > 16
      then (FtInvalidPath, [], False)
      else case st_list_page (sv_storage (fw_service w)) of
        None \<Rightarrow> (FtInternalError, [], False)
      | Some list_page \<Rightarrow>
          let (e, entries, more) = list_page path cursor limit 16 (fw_backend w)
          in (map_storage e, entries, more))"

definition copy_current ::
  "bytes \<Rightarrow> Direction \<Rightarrow> Encoding \<Rightarrow> u64 \<Rightarrow> u64 \<Rightarrow> 'b Service \<Rightarrow> 'b Service" where
  "copy_current path direction encoding logical_size wire_size service =
     service\<lparr>sv_terminal := default_summary,
       sv_current := default_summary\<lparr>su_valid := True, su_direction := direction,
         su_size_bytes := logical_size, su_encoding := encoding, su_wire_size_bytes := wire_size,
         su_file_state := FileActive,
         su_path := (if length path \<le> kMaxPathBytes then takeWhile (\<lambda>c. c \<noteq> 0) path else [])\<rparr>\<rparr>"

text \<open>The common end of \<^verbatim>\<open>begin_read\<close> and \<^verbatim>\<open>begin_write\<close> when the manager refuses the transfer.\<close>

definition begin_refused :: "ManagerError \<Rightarrow> 'b FileWorld \<Rightarrow> FileError" where
  "begin_refused error w =
     (if ec_storage_error (core_of w) \<noteq> StOk then map_storage (ec_storage_error (core_of w))
      else if error = Busy then FtBusy else FtInternalError)"

definition put_endpoint :: "'b EndpointContext \<Rightarrow> 'b FileWorld \<Rightarrow> 'b FileWorld" where
  "put_endpoint c w = w\<lparr>fw_service := (fw_service w)\<lparr>sv_endpoint := c\<rparr>\<rparr>"

definition put_summaries :: "Summary \<Rightarrow> Summary \<Rightarrow> 'b FileWorld \<Rightarrow> 'b FileWorld" where
  "put_summaries current terminal w =
     w\<lparr>fw_service := (fw_service w)\<lparr>sv_current := current, sv_terminal := terminal\<rparr>\<rparr>"

definition begin_empty_read ::
  "bytes \<Rightarrow> u64 \<Rightarrow> 'b FileWorld \<Rightarrow> (FileError \<times> BeginResult option) \<times> 'b FileWorld" where
  "begin_empty_read path offset w =
     (case st_begin_read (sv_storage (fw_service w)) of
        None \<Rightarrow> ((FtInternalError, None), w)
      | Some begin_read \<Rightarrow>
          let (error, session, b) = begin_read path (fw_backend w); w = put_backend b w in
          if error \<noteq> StOk then ((map_storage error, None), w)
          else
            let w = (case rs_close session of None \<Rightarrow> w | Some close \<Rightarrow> put_backend (close (fw_backend w)) w)
            in ((FtOk, Some (default_begin_result\<lparr>br_synchronous := True, br_file_offset := offset,
                  br_info := default_info\<lparr>ti_direction := DeviceToHost, ti_state := Completed\<rparr>\<rparr>)),
                put_summaries default_summary default_summary w))"

definition service_begin_read ::
  "bytes \<Rightarrow> u64 \<Rightarrow> u64 option \<Rightarrow> 'b file_state \<Rightarrow> (FileError \<times> BeginResult option) \<times> 'b file_state" where
  "service_begin_read path offset len s =
     (let (m, w) = s in
      if \<not> validate_path path False then ((FtInvalidPath, None), m, w)
      else if service_active m w \<or> \<not> sv_binary (fw_service w) then ((FtBusy, None), m, w)
      else case service_stat path w of
        (e, metadata) \<Rightarrow>
          if e \<noteq> FtOk then ((e, None), m, w)
          else
            let md = (case metadata of None \<Rightarrow> default_metadata | Some md \<Rightarrow> md) in
            if md_type md \<noteq> FileEntry then ((FtNotAFile, None), m, w)
            else if offset > md_size_bytes md then ((FtOutOfRange, None), m, w)
            else
              let remaining = md_size_bytes md - offset;
                  selected = (case len of None \<Rightarrow> remaining | Some n \<Rightarrow> n)
              in if selected > remaining then ((FtOutOfRange, None), m, w)
                 else if selected = 0 then
                   let (r, w) = begin_empty_read path offset w in (r, m, w)
                 else
                   let core = default_core\<lparr>ec_service := True, ec_write := False,
                         ec_file_offset := offset, ec_logical_size := selected, ec_wire_size := selected,
                         ec_encoding := Raw, ec_path := takeWhile (\<lambda>c. c \<noteq> 0) path\<rparr>;
                       w = put_endpoint \<lparr>cx_core = core, cx_decoder = default_decoder\<rparr> w;
                       ((error, info), m, w) = begin_tx m selected make_endpoint w
                   in if error \<noteq> ManagerOk then ((begin_refused error w, None), m, w)
                      else
                        let info = the info;
                            service = copy_current path DeviceToHost Raw selected selected (fw_service w);
                            service = service\<lparr>sv_current := (sv_current service)
                              \<lparr>su_transfer_id := ti_transfer_id info\<rparr>\<rparr>
                        in ((FtOk, Some (default_begin_result\<lparr>br_info := info, br_synchronous := False,
                              br_file_offset := offset, br_encoding := Raw,
                              br_logical_size_bytes := selected, br_wire_size_bytes := selected\<rparr>)),
                            m, w\<lparr>fw_service := service\<rparr>))"

definition write_options_unsupported :: "WriteOptions \<Rightarrow> bool" where
  "write_options_unsupported options \<longleftrightarrow>
     (wo_transport options = StopAndWait \<and> wo_window_frames options \<noteq> 1) \<or>
     (wo_transport options = WindowedGbnV1 \<and> unat (wo_window_frames options) \<noteq> kMaxWindowFrames)"

definition begin_empty_write ::
  "bytes \<Rightarrow> WriteOptions \<Rightarrow> 'b FileWorld \<Rightarrow> (FileError \<times> BeginResult option) \<times> 'b FileWorld" where
  "begin_empty_write path options w =
     (case st_begin_write (sv_storage (fw_service w)) of
        None \<Rightarrow> ((FtInternalError, None), w)
      | Some begin_write \<Rightarrow>
          let (error, session, b) = begin_write path 0 (wo_replace options) (fw_backend w);
              w = put_backend b w
          in if error \<noteq> StOk then ((map_storage error, None), w)
             else
               let (committed, w) = (case ws_commit session of
                       None \<Rightarrow> (StCommitFailed, w)
                     | Some commit \<Rightarrow> let (e, b) = commit (fw_backend w) in (e, put_backend b w))
               in if committed \<noteq> StOk then
                    ((map_storage committed, None),
                     case ws_abort session of None \<Rightarrow> w
                     | Some abort_write \<Rightarrow> put_backend (abort_write (fw_backend w)) w)
                  else
                    ((FtOk, Some (default_begin_result\<lparr>br_synchronous := True,
                        br_info := default_info\<lparr>ti_direction := HostToDevice, ti_state := Completed\<rparr>,
                        br_encoding := wo_encoding options, br_transport := wo_transport options,
                        br_window_frames := wo_window_frames options\<rparr>)),
                     put_summaries default_summary default_summary w))"

definition service_begin_write ::
  "bytes \<Rightarrow> WriteOptions \<Rightarrow> 'b file_state \<Rightarrow> (FileError \<times> BeginResult option) \<times> 'b file_state" where
  "service_begin_write path options s =
     (let (m, w) = s; logical = wo_logical_size_bytes options; wire = wo_wire_size_bytes options in
      if \<not> validate_path path False then ((FtInvalidPath, None), m, w)
      else if service_active m w \<or> \<not> sv_binary (fw_service w) then ((FtBusy, None), m, w)
      else if write_options_unsupported options then ((FtUnsupported, None), m, w)
      else if logical > sv_max_file_bytes (fw_service w) \<or> wire > sv_max_file_bytes (fw_service w)
      then ((FtNoSpace, None), m, w)
      else if (logical = 0) \<noteq> (wire = 0) then ((FtInvalidPath, None), m, w)
      else if wo_encoding options = Raw \<and> logical \<noteq> wire then ((FtInvalidPath, None), m, w)
      else if logical = 0 then
        let (r, w) = begin_empty_write path options w in (r, m, w)
      else
        let core = default_core\<lparr>ec_service := True, ec_write := True, ec_replace := wo_replace options,
              ec_logical_size := logical, ec_wire_size := wire, ec_encoding := wo_encoding options,
              ec_path := takeWhile (\<lambda>c. c \<noteq> 0) path\<rparr>;
            w = put_endpoint \<lparr>cx_core = core, cx_decoder = default_decoder\<rparr> w;
            ((error, info), m, w) = begin_rx m wire make_endpoint
              \<lparr>to_transport = wo_transport options, to_window_frames = wo_window_frames options\<rparr> w
        in if error \<noteq> ManagerOk then ((begin_refused error w, None), m, w)
           else
             let info = the info;
                 service = copy_current path HostToDevice (wo_encoding options) logical wire (fw_service w);
                 service = service\<lparr>sv_current := (sv_current service)\<lparr>su_transfer_id := ti_transfer_id info\<rparr>\<rparr>
             in ((FtOk, Some (default_begin_result\<lparr>br_info := info, br_synchronous := False,
                   br_encoding := wo_encoding options, br_logical_size_bytes := logical,
                   br_wire_size_bytes := wire, br_transport := wo_transport options,
                   br_window_frames := wo_window_frames options\<rparr>)),
                 m, w\<lparr>fw_service := service\<rparr>))"

definition service_status :: "u32 \<Rightarrow> 'b file_state \<Rightarrow> FileError \<times> Summary option" where
  "service_status transfer_id s =
     (let (m, w) = s; service = fw_service w in
      if \<not> sv_binary service then (FtInternalError, None)
      else if su_valid (sv_terminal service) \<and> su_transfer_id (sv_terminal service) = transfer_id
      then (FtOk, Some (sv_terminal service))
      else if \<not> su_valid (sv_current service) \<or> su_transfer_id (sv_current service) \<noteq> transfer_id
      then (FtUnknownTransfer, None)
      else case get_status m transfer_id of
        (error, info) \<Rightarrow>
          if error \<noteq> ManagerOk then (FtUnknownTransfer, None)
          else
            let info = the info in
            (FtOk, Some ((sv_current service)
              \<lparr>su_transport_state := ti_state info, su_wire_transferred_bytes := ti_transferred_bytes info,
               su_transferred_bytes :=
                 (if su_encoding (sv_current service) = ZeroRleV1 \<and> ec_decoder_initialized (core_of w)
                  then rl_logical_produced (decoder_of w) else ti_transferred_bytes info),
               su_crc32 := ti_crc32 info, su_has_crc32 := ti_has_crc32 info\<rparr>)))"

subsection \<open>File digest\<close>

text \<open>The functions of mbedTLS that \<^verbatim>\<open>sha256\<close> calls, on a digest context \<open>'h\<close>; the code is 0 on success.\<close>

record 'h sha256_api =
  sha_init :: 'h
  sha_starts :: "'h \<Rightarrow> int \<times> 'h"
  sha_update :: "'h \<Rightarrow> bytes \<Rightarrow> int \<times> 'h"
  sha_finish :: "'h \<Rightarrow> int \<times> bytes"

function sha256_loop ::
  "'h sha256_api \<Rightarrow> (u64 \<Rightarrow> nat \<Rightarrow> 'b \<Rightarrow> StorageError \<times> bytes \<times> 'b) \<Rightarrow> u64 \<Rightarrow> u64 \<Rightarrow> 'h \<Rightarrow> 'b \<Rightarrow>
   FileError \<times> 'h \<times> 'b" where
  "sha256_loop sha read size_bytes offset h b =
     (if \<not> offset < size_bytes then (FtOk, h, b)
      else
        let requested = min (unat (size_bytes - offset)) kSha256ChunkBytes;
            (error, data, b) = read offset requested b
        in if error \<noteq> StOk then (map_storage error, h, b)
           else if length data \<noteq> requested then (FtReadFailed, h, b)
           else
             let (code, h) = sha_update sha h data in
             if code \<noteq> 0 then (FtReadFailed, h, b)
             else sha256_loop sha read size_bytes (offset + word_of_nat (length data)) h b)"
  by pat_completeness auto

lemma chunk_advances:
  assumes "offset < size_bytes" "n = min (unat (size_bytes - offset)) kSha256ChunkBytes"
  shows "unat (size_bytes - (offset + word_of_nat n)) = unat (size_bytes - offset) - n"
    "0 < n" "n \<le> unat (size_bytes - offset)" "offset + word_of_nat n \<le> (size_bytes :: u64)"
    "unat (offset + word_of_nat n) = unat offset + n"
proof -
  have "0 < unat (size_bytes - offset)" using assms(1) by (metis not_gr_zero unat_eq_zero right_minus_eq less_irrefl)
  then show n: "0 < n" "n \<le> unat (size_bytes - offset)"
    using assms(2) by (auto simp: kSha256ChunkBytes_def)
  then have u: "unat (word_of_nat n :: u64) = n" by (intro unat_of_nat_bounded)
  then have le: "word_of_nat n \<le> size_bytes - offset" using n(2) by (simp add: word_le_nat_alt)
  have e: "size_bytes - (offset + word_of_nat n) = size_bytes - offset - word_of_nat n" by (simp add: algebra_simps)
  show "unat (size_bytes - (offset + word_of_nat n)) = unat (size_bytes - offset) - n"
    unfolding e using unat_sub_le [OF le] u by simp
  show "offset + word_of_nat n \<le> size_bytes" "unat (offset + word_of_nat n) = unat offset + n"
    using add_within [OF _ le] assms(1) u by simp_all
qed

termination sha256_loop
  by (relation "measure (\<lambda>(sha, read, size_bytes, offset, h, b). unat (size_bytes - offset))")
    (use chunk_advances in \<open>auto\<close>)

declare sha256_loop.simps [simp del]

definition sha256_session ::
  "'h sha256_api \<Rightarrow> 'b ReadSession \<Rightarrow> u64 \<Rightarrow> 'b \<Rightarrow> FileError \<times> bytes \<times> 'b" where
  "sha256_session sha session size_bytes b =
     (case rs_read session of
        None \<Rightarrow> (FtReadFailed, [], b)
      | Some read \<Rightarrow>
          if rs_close session = None then (FtReadFailed, [], b)
          else
            let (code, h) = sha_starts sha (sha_init sha) in
            if code \<noteq> 0 then (FtReadFailed, [], b)
            else
              let (operation, h, b) = sha256_loop sha read size_bytes 0 h b in
              if operation \<noteq> FtOk then (operation, [], b)
              else
                let (code, digest) = sha_finish sha h in
                if code \<noteq> 0 then (FtReadFailed, [], b) else (FtOk, digest, b))"

definition service_sha256 ::
  "'h sha256_api \<Rightarrow> bytes \<Rightarrow> 'b file_state \<Rightarrow> FileError \<times> (u64 \<times> string) option \<times> 'b file_state" where
  "service_sha256 sha path s =
     (let (m, w) = s; storage = sv_storage (fw_service w) in
      if \<not> validate_path path False then (FtInvalidPath, None, m, w)
      else if service_active m w then (FtBusy, None, m, w)
      else case (st_stat storage, st_begin_read storage) of
        (Some _, Some begin_read) \<Rightarrow>
          (case service_stat path w of
             (e, metadata) \<Rightarrow>
               if e \<noteq> FtOk then (e, None, m, w)
               else
                 let md = (case metadata of None \<Rightarrow> default_metadata | Some md \<Rightarrow> md) in
                 if md_type md \<noteq> FileEntry then (FtNotAFile, None, m, w)
                 else
                   let (open_error, session, b) = begin_read path (fw_backend w) in
                   if open_error \<noteq> StOk then (map_storage open_error, None, m, put_backend b w)
                   else
                     let (operation, digest, b) = sha256_session sha session (md_size_bytes md) b;
                         b = (case rs_close session of None \<Rightarrow> b | Some close \<Rightarrow> close b);
                         w = put_backend b w
                     in if operation \<noteq> FtOk then (operation, None, m, w)
                        else (FtOk, Some (md_size_bytes md, format_sha256 digest), m, w))
      | _ \<Rightarrow> (FtInternalError, None, m, w))"

end
