(* ===== verification/Storage_Blocks.thy ===== *)
theory Storage_Blocks
  imports Prelude
begin

section \<open>Block allocator of the RAM storage (storage_ram.cpp)\<close>

text \<open>
  The arena of the RAM storage is cut into at most 64 blocks, kept in an unsorted table in which a block
  of size 0 is a free slot of the table. An \<^verbatim>\<open>int\<close> index that is -1 for \<^emph>\<open>none\<close> is an option here. A block
  is allocated by first fit with a split, and released with repeated merging passes over the table.
  The invariant \<open>blocks_ok\<close> says that the blocks cut the arena exactly: every address belongs to one
  block and no block leaves the arena.
\<close>

definition kArenaBytes :: nat where "kArenaBytes = 256 * 1024"
definition kMaxBlocks :: nat where "kMaxBlocks = 64"

record Block =
  bl_offset :: nat
  bl_size :: nat
  bl_used :: bool

definition default_block :: Block where
  "default_block = \<lparr>bl_offset = 0, bl_size = 0, bl_used = False\<rparr>"

lemma default_block_fields [simp]:
  "bl_offset default_block = 0" "bl_size default_block = 0" "\<not> bl_used default_block"
  by (simp_all add: default_block_def)

definition split_slot :: "Block list \<Rightarrow> nat option" where
  "split_slot blocks = first_index (\<lambda>b. bl_size b = 0) blocks"

fun allocate_from :: "nat list \<Rightarrow> nat \<Rightarrow> Block list \<Rightarrow> nat option \<times> Block list" where
  "allocate_from [] n blocks = (None, blocks)"
| "allocate_from (i # rest) n blocks =
     (let block = blocks ! i in
      if bl_size block = 0 \<or> bl_used block \<or> bl_size block < n then allocate_from rest n blocks
      else if bl_size block = n then (Some i, blocks[i := block\<lparr>bl_used := True\<rparr>])
      else case split_slot blocks of
        None \<Rightarrow> allocate_from rest n blocks
      | Some j \<Rightarrow>
          (Some i, blocks[j := \<lparr>bl_offset = bl_offset block + n, bl_size = bl_size block - n,
                                bl_used = False\<rparr>,
                          i := block\<lparr>bl_size := n, bl_used := True\<rparr>]))"

definition allocate_block :: "nat \<Rightarrow> Block list \<Rightarrow> nat option \<times> Block list" where
  "allocate_block n blocks =
     (if n = 0 \<or> n > kArenaBytes then (None, blocks) else allocate_from [0..<kMaxBlocks] n blocks)"

text \<open>
  One comparison of the merging passes. The inner loop goes on with \<^verbatim>\<open>blocks_[i]\<close> as it is after the
  comparison, also when that slot has just been emptied.
\<close>

definition merge_pair :: "nat \<Rightarrow> nat \<Rightarrow> Block list \<times> bool \<Rightarrow> Block list \<times> bool" where
  "merge_pair i j s =
     (let (blocks, merged) = s; a = blocks ! i; b = blocks ! j in
      if bl_size b = 0 \<or> bl_used b then (blocks, merged)
      else if bl_offset a + bl_size a = bl_offset b
      then (blocks[i := a\<lparr>bl_size := bl_size a + bl_size b\<rparr>, j := default_block], True)
      else if bl_offset b + bl_size b = bl_offset a
      then (blocks[j := b\<lparr>bl_size := bl_size b + bl_size a\<rparr>, i := default_block], True)
      else (blocks, merged))"

definition merge_row :: "nat \<Rightarrow> Block list \<times> bool \<Rightarrow> Block list \<times> bool" where
  "merge_row i s =
     (if bl_size (fst s ! i) = 0 \<or> bl_used (fst s ! i) then s
      else fold (merge_pair i) [i + 1..<kMaxBlocks] s)"

definition merge_pass :: "Block list \<Rightarrow> Block list \<times> bool" where
  "merge_pass blocks = fold merge_row [0..<kMaxBlocks] (blocks, False)"

primrec merge_passes :: "nat \<Rightarrow> Block list \<Rightarrow> Block list" where
  "merge_passes 0 blocks = blocks"
| "merge_passes (Suc n) blocks =
     (let (blocks, merged) = merge_pass blocks in if \<not> merged then blocks else merge_passes n blocks)"

definition release_block :: "nat option \<Rightarrow> Block list \<Rightarrow> Block list" where
  "release_block index blocks =
     (case index of
        None \<Rightarrow> blocks
      | Some i \<Rightarrow>
          if i \<ge> kMaxBlocks \<or> bl_size (blocks ! i) = 0 then blocks
          else merge_passes kMaxBlocks (blocks[i := (blocks ! i)\<lparr>bl_used := False\<rparr>]))"

subsection \<open>The blocks cut the arena\<close>

definition span :: "Block \<Rightarrow> nat set" where
  "span b = {bl_offset b..<bl_offset b + bl_size b}"

definition covers :: "Block list \<Rightarrow> nat \<Rightarrow> nat" where
  "covers blocks a = (\<Sum>b\<leftarrow>blocks. of_bool (a \<in> span b))"

definition blocks_ok :: "Block list \<Rightarrow> bool" where
  "blocks_ok blocks \<longleftrightarrow>
     length blocks = kMaxBlocks \<and>
     (\<forall>b\<in>set blocks. bl_size b = 0 \<longrightarrow> b = default_block) \<and>
     (\<forall>a. covers blocks a = of_bool (a < kArenaBytes))"

lemma span_default [simp]: "span default_block = {}"
  by (simp add: span_def)

lemma covers_update:
  assumes "i < length blocks"
  shows "covers (blocks[i := b]) a + of_bool (a \<in> span (blocks ! i)) = covers blocks a + of_bool (a \<in> span b)"
  using assms
proof (induction blocks arbitrary: i)
  case (Cons c cs)
  then show ?case by (cases i) (auto simp: covers_def)
qed simp

lemma covers_update2:
  assumes "i < length blocks" "j < length blocks" "i \<noteq> j"
    and "of_bool (a \<in> span b) + of_bool (a \<in> span c) =
      (of_bool (a \<in> span (blocks ! i)) + of_bool (a \<in> span (blocks ! j)) :: nat)"
  shows "covers (blocks[i := b, j := c]) a = covers blocks a"
  using covers_update [of i blocks b a] covers_update [of j "blocks[i := b]" c a] assms by auto

lemma covers_disjoint:
  assumes "covers blocks a \<le> 1" "i < length blocks" "j < length blocks" "i \<noteq> j"
    "a \<in> span (blocks ! i)"
  shows "a \<notin> span (blocks ! j)"
proof
  assume "a \<in> span (blocks ! j)"
  moreover have "covers (blocks[i := default_block]) a + 1 = covers blocks a"
    using covers_update [of i blocks default_block a] assms by simp
  moreover have "covers (blocks[i := default_block, j := default_block]) a + 1 = covers (blocks[i := default_block]) a"
    if "a \<in> span (blocks ! j)"
    using covers_update [of j "blocks[i := default_block]" default_block a] assms that by simp
  ultimately show False using assms(1) by simp
qed

lemma span_in_arena:
  assumes "blocks_ok blocks" "i < kMaxBlocks"
  shows "span (blocks ! i) \<subseteq> {..<kArenaBytes}"
proof
  fix a assume "a \<in> span (blocks ! i)"
  with covers_update [of i blocks default_block a] assms have "covers blocks a \<noteq> 0"
    by (simp add: blocks_ok_def del: of_bool_eq_0_iff)
  moreover have "covers blocks a = of_bool (a < kArenaBytes)" using assms by (simp add: blocks_ok_def)
  ultimately show "a \<in> {..<kArenaBytes}" by (simp split: if_splits)
qed

lemma block_in_arena:
  assumes "blocks_ok blocks" "i < kMaxBlocks"
  shows "bl_offset (blocks ! i) + bl_size (blocks ! i) \<le> kArenaBytes"
proof (cases "bl_size (blocks ! i) = 0")
  case True
  with assms have "blocks ! i = default_block" by (simp add: blocks_ok_def)
  then show ?thesis by simp
next
  case False
  then have "bl_offset (blocks ! i) + bl_size (blocks ! i) - 1 \<in> span (blocks ! i)"
    by (simp add: span_def)
  with span_in_arena [OF assms] show ?thesis by auto
qed

lemma spans_disjoint:
  assumes "blocks_ok blocks" "i < kMaxBlocks" "j < kMaxBlocks" "i \<noteq> j"
  shows "span (blocks ! i) \<inter> span (blocks ! j) = {}"
  using covers_disjoint [of blocks _ i j] assms by (auto simp: blocks_ok_def)

lemma blocks_ok_update2:
  assumes "blocks_ok blocks" "i < kMaxBlocks" "j < kMaxBlocks" "i \<noteq> j"
    and "\<And>a. of_bool (a \<in> span b) + of_bool (a \<in> span c) =
      (of_bool (a \<in> span (blocks ! i)) + of_bool (a \<in> span (blocks ! j)) :: nat)"
    and "bl_size b = 0 \<Longrightarrow> b = default_block" "bl_size c = 0 \<Longrightarrow> c = default_block"
  shows "blocks_ok (blocks[i := b, j := c])"
proof -
  have "set (blocks[i := b, j := c]) \<subseteq> insert b (insert c (set blocks))"
    using set_update_subset_insert [of "blocks[i := b]" j c] set_update_subset_insert [of blocks i b]
    by blast
  moreover have "covers (blocks[i := b, j := c]) a = covers blocks a" for a
    using assms(1-5) by (intro covers_update2) (simp_all add: blocks_ok_def)
  ultimately show ?thesis using assms(1,6,7) unfolding blocks_ok_def by fastforce
qed

lemma blocks_ok_mark:
  assumes "blocks_ok blocks" "i < kMaxBlocks" "bl_size (blocks ! i) \<noteq> 0"
  shows "blocks_ok (blocks[i := (blocks ! i)\<lparr>bl_used := u\<rparr>])"
proof -
  have "span ((blocks ! i)\<lparr>bl_used := u\<rparr>) = span (blocks ! i)" by (simp add: span_def)
  then have "covers (blocks[i := (blocks ! i)\<lparr>bl_used := u\<rparr>]) a = covers blocks a" for a
    using covers_update [of i blocks "(blocks ! i)\<lparr>bl_used := u\<rparr>" a] assms by (simp add: blocks_ok_def)
  then show ?thesis
    using assms set_update_subset_insert [of blocks i "(blocks ! i)\<lparr>bl_used := u\<rparr>"]
    by (auto simp: blocks_ok_def)
qed

subsection \<open>Allocation\<close>

text \<open>What an allocation does to the table: the block it returns was free, is now used and has exactly
  the requested size; every other used block is as before and no other block becomes used.\<close>

definition allocated :: "nat \<Rightarrow> nat \<Rightarrow> Block list \<Rightarrow> Block list \<Rightarrow> bool" where
  "allocated n i blocks blocks' \<longleftrightarrow>
     i < kMaxBlocks \<and> \<not> bl_used (blocks ! i) \<and> bl_used (blocks' ! i) \<and> bl_size (blocks' ! i) = n \<and>
     blocks_ok blocks' \<and>
     (\<forall>k<kMaxBlocks. k \<noteq> i \<longrightarrow> (bl_used (blocks ! k) \<longrightarrow> blocks' ! k = blocks ! k) \<and>
        (bl_used (blocks' ! k) \<longrightarrow> bl_used (blocks ! k)))"

lemma split_span:
  assumes "n < bl_size b"
  shows "of_bool (a \<in> span \<lparr>bl_offset = bl_offset b + n, bl_size = bl_size b - n, bl_used = False\<rparr>) +
      of_bool (a \<in> span (b\<lparr>bl_size := n, bl_used := True\<rparr>)) = (of_bool (a \<in> span b) :: nat)"
  using assms by (auto simp: span_def)

lemma allocate_from_allocated:
  assumes "blocks_ok blocks" "0 < n" "set idx \<subseteq> {..<kMaxBlocks}"
    "allocate_from idx n blocks = (r, blocks')"
  shows "case r of None \<Rightarrow> blocks' = blocks | Some i \<Rightarrow> allocated n i blocks blocks'"
  using assms(3,4)
proof (induction idx)
  case (Cons i rest)
  have i: "i < kMaxBlocks" and len: "length blocks = kMaxBlocks"
    using Cons.prems(1) assms(1) by (auto simp: blocks_ok_def)
  let ?b = "blocks ! i"
  consider (skip) "allocate_from rest n blocks = (r, blocks')"
    | (exact) "r = Some i" "blocks' = blocks[i := ?b\<lparr>bl_used := True\<rparr>]" "bl_size ?b = n" "\<not> bl_used ?b"
    | (split) j where "r = Some i" "split_slot blocks = Some j" "n < bl_size ?b" "\<not> bl_used ?b"
      "blocks' = blocks[j := \<lparr>bl_offset = bl_offset ?b + n, bl_size = bl_size ?b - n, bl_used = False\<rparr>,
        i := ?b\<lparr>bl_size := n, bl_used := True\<rparr>]"
    using Cons.prems(2) that
    by (cases "bl_size ?b = 0 \<or> bl_used ?b \<or> bl_size ?b < n"; cases "bl_size ?b = n"; cases "split_slot blocks")
      (simp_all add: Let_def)
  then show ?case
  proof cases
    case skip
    then show ?thesis using Cons by auto
  next
    case exact
    then have "blocks_ok blocks'" using blocks_ok_mark [OF assms(1) i, of True] assms(2) by simp
    then show ?thesis using exact i len by (simp add: allocated_def nth_list_update)
  next
    case split
    have j: "j < kMaxBlocks" "bl_size (blocks ! j) = 0"
      using first_index_Some [of _ blocks j] split(2) len by (auto simp: split_slot_def)
    then have ji: "j \<noteq> i" "span (blocks ! j) = {}" using split(3) by (auto simp: span_def)
    have "blocks_ok blocks'"
      unfolding split(5)
      by (rule blocks_ok_update2 [OF assms(1) j(1) i ji(1)])
        (use split_span [OF split(3)] ji(2) split(3) assms(2) in simp_all)
    moreover have "\<not> bl_used (blocks ! j)"
      using assms(1) j len by (metis blocks_ok_def default_block_fields(3) nth_mem)
    ultimately show ?thesis using split i j ji len by (simp add: allocated_def nth_list_update)
  qed
qed simp

lemma allocate_block_cases:
  assumes "blocks_ok blocks" "allocate_block n blocks = (r, blocks')"
  shows "case r of None \<Rightarrow> blocks' = blocks | Some i \<Rightarrow> allocated n i blocks blocks'"
proof (cases "n = 0 \<or> n > kArenaBytes")
  case True
  with assms(2) show ?thesis by (auto simp: allocate_block_def)
next
  case False
  with assms(2) have "allocate_from [0..<kMaxBlocks] n blocks = (r, blocks')" by (simp add: allocate_block_def)
  moreover have "set [0..<kMaxBlocks] \<subseteq> {..<kMaxBlocks}" by auto
  ultimately show ?thesis using allocate_from_allocated [OF assms(1)] False by blast
qed

subsection \<open>Release\<close>

definition released :: "Block list \<Rightarrow> Block list \<Rightarrow> bool" where
  "released blocks blocks' \<longleftrightarrow>
     blocks_ok blocks' \<and>
     (\<forall>k<kMaxBlocks. (bl_used (blocks ! k) \<longrightarrow> blocks' ! k = blocks ! k) \<and>
        (bl_used (blocks' ! k) \<longrightarrow> bl_used (blocks ! k)))"

lemma released_refl: "blocks_ok blocks \<Longrightarrow> released blocks blocks"
  by (simp add: released_def)

lemma released_trans: "released a b \<Longrightarrow> released b c \<Longrightarrow> released a c"
  unfolding released_def by metis

lemma merge_pair_released:
  assumes ok: "blocks_ok (fst s)" and ij: "i < kMaxBlocks" "j < kMaxBlocks" "i \<noteq> j"
    and free: "\<not> bl_used (fst s ! i)"
  shows "released (fst s) (fst (merge_pair i j s))"
proof -
  obtain bs m where s: "s = (bs, m)" by (cases s)
  let ?a = "bs ! i" and ?b = "bs ! j"
  let ?ab = "?a\<lparr>bl_size := bl_size ?a + bl_size ?b\<rparr>" and ?ba = "?b\<lparr>bl_size := bl_size ?b + bl_size ?a\<rparr>"
  have len: "length bs = kMaxBlocks" using ok s by (simp add: blocks_ok_def)
  consider (keep) "fst (merge_pair i j s) = bs"
    | (up) "bl_size ?b \<noteq> 0" "\<not> bl_used ?b" "bl_offset ?a + bl_size ?a = bl_offset ?b"
      "fst (merge_pair i j s) = bs[i := ?ab, j := default_block]"
    | (down) "bl_size ?b \<noteq> 0" "\<not> bl_used ?b" "bl_offset ?b + bl_size ?b = bl_offset ?a"
      "fst (merge_pair i j s) = bs[j := ?ba, i := default_block]"
    by (cases "bl_size ?b = 0 \<or> bl_used ?b"; cases "bl_offset ?a + bl_size ?a = bl_offset ?b";
        cases "bl_offset ?b + bl_size ?b = bl_offset ?a") (simp_all add: merge_pair_def s Let_def)
  then show ?thesis
  proof cases
    case keep
    then show ?thesis using ok s by (simp add: released_refl)
  next
    case up
    have "blocks_ok (bs[i := ?ab, j := default_block])"
      by (rule blocks_ok_update2) (use ok ij s up in \<open>auto simp: span_def\<close>)
    then show ?thesis using up s ij free len by (auto simp: released_def nth_list_update)
  next
    case down
    have "blocks_ok (bs[j := ?ba, i := default_block])"
      by (rule blocks_ok_update2) (use ok ij s down in \<open>auto simp: span_def\<close>)
    then show ?thesis using down s ij free len by (auto simp: released_def nth_list_update)
  qed
qed

lemma released_keeps:
  assumes "released a b" "blocks_ok a" "i < kMaxBlocks"
  shows "blocks_ok b" "\<not> bl_used (a ! i) \<Longrightarrow> \<not> bl_used (b ! i)"
  using assms by (auto simp: released_def)

lemma merge_row_fold:
  "blocks_ok (fst s) \<Longrightarrow> i < kMaxBlocks \<Longrightarrow> \<not> bl_used (fst s ! i) \<Longrightarrow> set js \<subseteq> {i<..<kMaxBlocks} \<Longrightarrow>
   released (fst s) (fst (fold (merge_pair i) js s))"
proof (induction js arbitrary: s)
  case (Cons j js)
  have r: "released (fst s) (fst (merge_pair i j s))"
    using Cons.prems by (intro merge_pair_released) auto
  have "released (fst (merge_pair i j s)) (fst (fold (merge_pair i) js (merge_pair i j s)))"
    using Cons.prems released_keeps [OF r Cons.prems(1,2)] by (intro Cons.IH) auto
  with r show ?case by (simp add: released_trans [of "fst s"])
qed (simp add: released_refl)

lemma merge_rows_released:
  "blocks_ok (fst s) \<Longrightarrow> set is \<subseteq> {..<kMaxBlocks} \<Longrightarrow> released (fst s) (fst (fold merge_row is s))"
proof (induction "is" arbitrary: s)
  case (Cons i ks)
  have r: "released (fst s) (fst (merge_row i s))"
  proof -
    have "set [i + 1..<kMaxBlocks] \<subseteq> {i<..<kMaxBlocks}" by auto
    then show ?thesis
      using Cons.prems merge_row_fold [of s i "[i + 1..<kMaxBlocks]"]
      by (simp add: merge_row_def released_refl)
  qed
  have "released (fst (merge_row i s)) (fst (fold merge_row ks (merge_row i s)))"
    using Cons.prems r by (intro Cons.IH) (auto simp: released_def)
  with r show ?case by (simp add: released_trans [of "fst s"])
qed (simp add: released_refl)

lemma merge_passes_released: "blocks_ok blocks \<Longrightarrow> released blocks (merge_passes n blocks)"
proof (induction n arbitrary: blocks)
  case (Suc n)
  have r: "released blocks (fst (merge_pass blocks))"
  proof -
    have "set [0..<kMaxBlocks] \<subseteq> {..<kMaxBlocks}" by auto
    then show ?thesis
      using merge_rows_released [of "(blocks, False)" "[0..<kMaxBlocks]"] Suc.prems
      by (simp add: merge_pass_def)
  qed
  then have "blocks_ok (fst (merge_pass blocks))" by (simp add: released_def)
  with Suc.IH have "released (fst (merge_pass blocks)) (merge_passes n (fst (merge_pass blocks)))" .
  with r have "released blocks (merge_passes n (fst (merge_pass blocks)))" by (rule released_trans)
  with r show ?case by (simp add: case_prod_unfold Let_def)
qed (simp add: released_refl)

lemma release_block_keeps:
  assumes "blocks_ok blocks"
  shows "blocks_ok (release_block index blocks)"
    "\<lbrakk>k < kMaxBlocks; index \<noteq> Some k; bl_used (blocks ! k)\<rbrakk> \<Longrightarrow> release_block index blocks ! k = blocks ! k"
    "\<lbrakk>k < kMaxBlocks; bl_used (release_block index blocks ! k)\<rbrakk> \<Longrightarrow> bl_used (blocks ! k) \<and> index \<noteq> Some k"
proof -
  let ?marked = "\<lambda>i. blocks[i := (blocks ! i)\<lparr>bl_used := False\<rparr>]"
  have r: "released (?marked i) (merge_passes kMaxBlocks (?marked i))"
    if "i < kMaxBlocks" "bl_size (blocks ! i) \<noteq> 0" for i
    using blocks_ok_mark [OF assms that] by (rule merge_passes_released)
  have len: "length blocks = kMaxBlocks" using assms by (simp add: blocks_ok_def)
  have empty: "\<not> bl_used (blocks ! i)" if "i < kMaxBlocks" "bl_size (blocks ! i) = 0" for i
    using assms that len by (metis blocks_ok_def default_block_fields(3) nth_mem)
  show "blocks_ok (release_block index blocks)"
    using assms r by (auto simp: release_block_def released_def split: option.split)
  show "release_block index blocks ! k = blocks ! k"
    if "k < kMaxBlocks" "index \<noteq> Some k" "bl_used (blocks ! k)"
  proof (cases index)
    case None
    then show ?thesis by (simp add: release_block_def)
  next
    case (Some i)
    then show ?thesis using that r [of i] len
      by (cases "i \<ge> kMaxBlocks \<or> bl_size (blocks ! i) = 0")
        (auto simp: release_block_def released_def nth_list_update)
  qed
  show "bl_used (blocks ! k) \<and> index \<noteq> Some k"
    if k: "k < kMaxBlocks" "bl_used (release_block index blocks ! k)"
  proof (cases index)
    case None
    then show ?thesis using k by (simp add: release_block_def)
  next
    case (Some i)
    then show ?thesis using k r [of i] empty [of k] len
      by (cases "i \<ge> kMaxBlocks \<or> bl_size (blocks ! i) = 0")
        (auto simp: release_block_def released_def nth_list_update split: if_splits)
  qed
qed

end
