(* ===== verification/Storage_Ram.thy ===== *)
theory Storage_Ram
  imports Storage Storage_Blocks File_Path
begin

section \<open>RAM storage (storage_ram.cpp)\<close>

text \<open>
  A flat table of entries (directories and files, each with its full path), the block table and the
  arena, and the two session contexts. Conventions:
  \<^item> an \<^verbatim>\<open>int\<close> index or block number that is -1 for \<^emph>\<open>none\<close> is an option;
  \<^item> a path array is the C string it holds, since the code only reads it up to its first NUL;
  \<^item> the arena is a function from addresses; \<open>blocks_ok\<close> bounds every address that is used;
  \<^item> the \<^verbatim>\<open>owner\<close> pointer of a context is only ever null or the storage itself, so it is a flag. A
    session callback dereferences it without a check: \<open>None\<close> is that undefined behaviour;
  \<^item> the record is extensible, so that a larger world can hold the storage beside other devices.
\<close>

definition kMaxEntries :: nat where "kMaxEntries = 32"
definition kMaxFileBytes :: u64 where "kMaxFileBytes = 192 * 1024"

record Entry =
  en_used :: bool
  en_committed :: bool
  en_type :: EntryType
  en_path :: bytes
  en_size :: u64
  en_block :: "nat option"

definition default_entry :: Entry where
  "default_entry = \<lparr>en_used = False, en_committed = False, en_type = FileEntry, en_path = [],
     en_size = 0, en_block = None\<rparr>"

record ReadContext =
  rc_owner :: bool
  rc_entry :: "nat option"

record WriteContext =
  wc_owner :: bool
  wc_staging :: "nat option"
  wc_target :: "nat option"
  wc_committed :: bool

definition null_read_context :: ReadContext where
  "null_read_context = \<lparr>rc_owner = False, rc_entry = None\<rparr>"

definition null_write_context :: WriteContext where
  "null_write_context = \<lparr>wc_owner = False, wc_staging = None, wc_target = None, wc_committed = False\<rparr>"

type_synonym arena = "nat \<Rightarrow> u8"

record StorageRam =
  sr_entries :: "Entry list"
  sr_blocks :: "Block list"
  sr_arena :: arena
  sr_read_context :: ReadContext
  sr_write_context :: WriteContext

definition arena_read :: "arena \<Rightarrow> nat \<Rightarrow> nat \<Rightarrow> bytes" where
  "arena_read arena a n = map arena [a..<a + n]"

definition arena_write :: "arena \<Rightarrow> nat \<Rightarrow> bytes \<Rightarrow> arena" where
  "arena_write arena a data = (\<lambda>x. if a \<le> x \<and> x < a + length data then data ! (x - a) else arena x)"

definition c_string :: "bytes \<Rightarrow> bytes" where
  "c_string data = takeWhile (\<lambda>c. c \<noteq> 0) data"

definition starts_with :: "bytes \<Rightarrow> bytes \<Rightarrow> bool" where
  "starts_with v prefix \<longleftrightarrow> length v \<ge> length prefix \<and> take (length prefix) v = prefix"

text \<open>\<open>copy_path\<close> returns the new content of the array, \<open>None\<close> when it refuses.\<close>

definition copy_path :: "bytes \<Rightarrow> bytes option" where
  "copy_path path = (if path = [] \<or> length path > kMaxPathBytes then None else Some (c_string path))"

subsection \<open>Lookup\<close>

definition sr_find :: "bytes \<Rightarrow> 'x StorageRam_scheme \<Rightarrow> nat option" where
  "sr_find path st = first_index (\<lambda>e. en_used e \<and> en_committed e \<and> en_path e = path) (sr_entries st)"

definition find_free_entry :: "'x StorageRam_scheme \<Rightarrow> nat option" where
  "find_free_entry st = first_index (\<lambda>e. \<not> en_used e) (sr_entries st)"

definition parent_path :: "bytes \<Rightarrow> bytes" where
  "parent_path path =
     (if 0x2f \<notin> set path then path
      else
        let parent = rev (tl (dropWhile (\<lambda>c. c \<noteq> 0x2f) (rev path)))
        in if parent = [] then ascii ''/'' else parent)"

definition parent_exists :: "bytes \<Rightarrow> 'x StorageRam_scheme \<Rightarrow> bool" where
  "parent_exists path st =
     (if path = ascii ''/'' then False
      else case sr_find (parent_path path) st of
        None \<Rightarrow> False
      | Some index \<Rightarrow> en_type (sr_entries st ! index) = DirectoryEntry)"

definition add_entry ::
  "bytes \<Rightarrow> EntryType \<Rightarrow> 'x StorageRam_scheme \<Rightarrow> nat option \<times> 'x StorageRam_scheme" where
  "add_entry path type st =
     (case find_free_entry st of
        None \<Rightarrow> (None, st)
      | Some index \<Rightarrow>
          case copy_path path of
            None \<Rightarrow> (None, st)
          | Some stored \<Rightarrow>
              (Some index,
               st\<lparr>sr_entries := (sr_entries st)
                    [index := default_entry\<lparr>en_used := True, en_committed := True,
                       en_type := type, en_path := stored\<rparr>]\<rparr>))"

subsection \<open>Sessions\<close>

definition sr_stat :: "bytes \<Rightarrow> 'x StorageRam_scheme \<Rightarrow> StorageError \<times> Metadata option" where
  "sr_stat path st =
     (case sr_find path st of
        None \<Rightarrow> (StNotFound, None)
      | Some index \<Rightarrow>
          let e = sr_entries st ! index in
          (StOk, Some \<lparr>md_type = en_type e,
                       md_size_bytes = (if en_type e = FileEntry then en_size e else 0)\<rparr>))"

definition read_impl ::
  "u64 \<Rightarrow> nat \<Rightarrow> 'x StorageRam_scheme \<Rightarrow> StorageError \<times> bytes" where
  "read_impl offset requested st =
     (case rc_entry (sr_read_context st) of
        None \<Rightarrow> (StReadFailed, [])
      | Some index \<Rightarrow>
          let e = sr_entries st ! index in
          if offset > en_size e then (StOutOfRange, [])
          else
            let available = unat (en_size e - offset);
                amount = min requested available
            in if amount \<noteq> 0 \<and> en_block e = None then (StReadFailed, [])
               else if amount = 0 then (StOk, [])
               else (StOk, arena_read (sr_arena st)
                 (bl_offset (sr_blocks st ! the (en_block e)) + unat offset) amount))"

definition write_impl ::
  "u64 \<Rightarrow> bytes \<Rightarrow> 'x StorageRam_scheme \<Rightarrow> StorageError \<times> 'x StorageRam_scheme" where
  "write_impl offset data st =
     (case wc_staging (sr_write_context st) of
        None \<Rightarrow> (StWriteFailed, st)
      | Some index \<Rightarrow>
          let e = sr_entries st ! index in
          if offset > en_size e \<or> length data > unat (en_size e - offset) \<or>
             (length data \<noteq> 0 \<and> en_block e = None)
          then (StOutOfRange, st)
          else if length data = 0 then (StOk, st)
          else (StOk, st\<lparr>sr_arena := arena_write (sr_arena st)
                 (bl_offset (sr_blocks st ! the (en_block e)) + unat offset) data\<rparr>))"

definition commit_impl :: "'x StorageRam_scheme \<Rightarrow> StorageError \<times> 'x StorageRam_scheme" where
  "commit_impl st =
     (let wc = sr_write_context st in
      case wc_staging wc of
        None \<Rightarrow> (StCommitFailed, st)
      | Some s \<Rightarrow>
          if \<not> wc_owner wc \<or> wc_committed wc then (StCommitFailed, st)
          else
            let staging = sr_entries st ! s;
                st = (case wc_target wc of
                    Some t \<Rightarrow>
                      let target = sr_entries st ! t in
                      st\<lparr>sr_blocks := release_block (en_block target) (sr_blocks st),
                         sr_entries := (sr_entries st)
                           [t := target\<lparr>en_block := en_block staging, en_size := en_size staging\<rparr>,
                            s := staging\<lparr>en_block := None, en_used := False\<rparr>]\<rparr>
                  | None \<Rightarrow>
                      st\<lparr>sr_entries := (sr_entries st)[s := staging\<lparr>en_committed := True\<rparr>]\<rparr>)
            in (StOk, st\<lparr>sr_write_context := null_write_context\<rparr>))"

definition abort_impl :: "'x StorageRam_scheme \<Rightarrow> 'x StorageRam_scheme" where
  "abort_impl st =
     (let wc = sr_write_context st in
      if \<not> wc_owner wc then st
      else
        let st = (case wc_staging wc of
                None \<Rightarrow> st
              | Some s \<Rightarrow>
                  if en_used (sr_entries st ! s)
                  then st\<lparr>sr_blocks := release_block (en_block (sr_entries st ! s)) (sr_blocks st),
                          sr_entries := (sr_entries st)[s := default_entry]\<rparr>
                  else st)
        in st\<lparr>sr_write_context := null_write_context\<rparr>)"

text \<open>The callbacks of a session: undefined (\<open>None\<close>) on a context whose owner is null.\<close>

definition read_cb ::
  "u64 \<Rightarrow> nat \<Rightarrow> 'x StorageRam_scheme \<Rightarrow> (StorageError \<times> bytes) option" where
  "read_cb offset requested st =
     (if rc_owner (sr_read_context st) then Some (read_impl offset requested st) else None)"

definition write_cb ::
  "u64 \<Rightarrow> bytes \<Rightarrow> 'x StorageRam_scheme \<Rightarrow> (StorageError \<times> 'x StorageRam_scheme) option" where
  "write_cb offset data st =
     (if wc_owner (sr_write_context st) then Some (write_impl offset data st) else None)"

definition commit_cb ::
  "'x StorageRam_scheme \<Rightarrow> (StorageError \<times> 'x StorageRam_scheme) option" where
  "commit_cb st = (if wc_owner (sr_write_context st) then Some (commit_impl st) else None)"

definition close_read_cb :: "'x StorageRam_scheme \<Rightarrow> 'x StorageRam_scheme" where
  "close_read_cb st =
     (if rc_owner (sr_read_context st) then st\<lparr>sr_read_context := null_read_context\<rparr> else st)"

definition abort_cb :: "'x StorageRam_scheme \<Rightarrow> 'x StorageRam_scheme" where
  "abort_cb st = (if wc_owner (sr_write_context st) then abort_impl st else st)"

text \<open>\<open>begin_read_impl\<close> and \<open>begin_write_impl\<close> return whether they filled in the session.\<close>

definition begin_read_impl ::
  "bytes \<Rightarrow> 'x StorageRam_scheme \<Rightarrow> StorageError \<times> 'x StorageRam_scheme" where
  "begin_read_impl path st =
     (if rc_owner (sr_read_context st) then (StBusy, st)
      else case sr_find path st of
        None \<Rightarrow> (StNotFound, st)
      | Some index \<Rightarrow>
          if en_type (sr_entries st ! index) \<noteq> FileEntry then (StNotAFile, st)
          else (StOk, st\<lparr>sr_read_context := \<lparr>rc_owner = True, rc_entry = Some index\<rparr>\<rparr>))"

definition open_staging ::
  "bytes \<Rightarrow> u64 \<Rightarrow> nat option \<Rightarrow> nat \<Rightarrow> nat option \<Rightarrow> 'x StorageRam_scheme \<Rightarrow> 'x StorageRam_scheme" where
  "open_staging path size_bytes target staging block st =
     st\<lparr>sr_entries := (sr_entries st)
          [staging := default_entry\<lparr>en_used := True, en_committed := False, en_type := FileEntry,
             en_size := size_bytes, en_block := block,
             en_path := (case copy_path path of None \<Rightarrow> [] | Some stored \<Rightarrow> stored)\<rparr>],
        sr_write_context :=
          \<lparr>wc_owner = True, wc_staging = Some staging, wc_target = target, wc_committed = False\<rparr>\<rparr>"

definition begin_write_impl ::
  "bytes \<Rightarrow> u64 \<Rightarrow> bool \<Rightarrow> 'x StorageRam_scheme \<Rightarrow> StorageError \<times> 'x StorageRam_scheme" where
  "begin_write_impl path size_bytes replace st =
     (if wc_owner (sr_write_context st) then (StBusy, st)
      else if size_bytes > kMaxFileBytes then (StNoSpace, st)
      else if \<not> parent_exists path st then (StParentNotFound, st)
      else
        let target = sr_find path st in
        if target \<noteq> None \<and> en_type (sr_entries st ! the target) \<noteq> FileEntry then (StNotAFile, st)
        else if target \<noteq> None \<and> \<not> replace then (StAlreadyExists, st)
        else case find_free_entry st of
          None \<Rightarrow> (StNoSpace, st)
        | Some staging \<Rightarrow>
            if size_bytes \<noteq> 0 then
              (let (block, blocks) = allocate_block (unat size_bytes) (sr_blocks st) in
               if block = None then (StNoSpace, st)
               else (StOk, open_staging path size_bytes target staging block (st\<lparr>sr_blocks := blocks\<rparr>)))
            else (StOk, open_staging path size_bytes target staging None st))"

subsection \<open>Directory listing\<close>

text \<open>Comparison of byte strings as \<^verbatim>\<open>std::string_view\<close> does it (bytes unsigned).\<close>

fun bytes_le :: "bytes \<Rightarrow> bytes \<Rightarrow> bool" where
  "bytes_le [] b = True"
| "bytes_le (x # a) [] = False"
| "bytes_le (x # a) (y # b) = (if x = y then bytes_le a b else x < y)"

definition list_prefix :: "bytes \<Rightarrow> bytes" where
  "list_prefix path = (if path = ascii ''/'' then ascii ''/'' else path @ ascii ''/'')"

definition list_candidate :: "bytes \<Rightarrow> bytes \<Rightarrow> Entry \<Rightarrow> bool" where
  "list_candidate prefix cursor e \<longleftrightarrow>
     en_used e \<and> en_committed e \<and> en_path e \<noteq> [] \<and>
     starts_with (en_path e) prefix \<and> length (en_path e) > length prefix \<and>
     (let remainder = drop (length prefix) (en_path e) in
      0x2f \<notin> set remainder \<and> (cursor = [] \<or> \<not> bytes_le remainder cursor) \<and>
      length remainder \<le> kMaxComponentBytes)"

text \<open>One step of the insertion sort: the sorted part of \<^verbatim>\<open>candidates\<close> is scanned from its end.\<close>

fun insert_back :: "(nat \<Rightarrow> bytes) \<Rightarrow> nat \<Rightarrow> nat list \<Rightarrow> nat list" where
  "insert_back name v [] = [v]"
| "insert_back name v (p # ps) = (if bytes_le (name p) (name v) then v # p # ps else p # insert_back name v ps)"

definition sort_candidates :: "(nat \<Rightarrow> bytes) \<Rightarrow> nat list \<Rightarrow> nat list" where
  "sort_candidates name candidates = rev (fold (insert_back name) candidates [])"

definition list_impl ::
  "bytes \<Rightarrow> bytes \<Rightarrow> nat \<Rightarrow> nat \<Rightarrow> 'x StorageRam_scheme \<Rightarrow> StorageError \<times> DirEntry list \<times> bool" where
  "list_impl path cursor limit capacity st =
     (if capacity = 0 then (StInvalidPath, [], False)
      else case sr_find path st of
        None \<Rightarrow> (StNotFound, [], False)
      | Some parent \<Rightarrow>
          if en_type (sr_entries st ! parent) \<noteq> DirectoryEntry then (StNotADirectory, [], False)
          else if limit = 0 then (StInvalidPath, [], False)
          else
            let prefix = list_prefix path in
            if length prefix > kMaxPathBytes + 1 then (StInvalidPath, [], False)
            else
              let name = (\<lambda>i. drop (length prefix) (en_path (sr_entries st ! i)));
                  candidates = sort_candidates name
                    (List.filter (\<lambda>i. list_candidate prefix cursor (sr_entries st ! i)) [0..<kMaxEntries]);
                  count = (if length candidates < capacity \<and> length candidates < limit
                           then length candidates else min capacity limit)
              in (StOk,
                  map (\<lambda>i. let e = sr_entries st ! i in
                    \<lparr>de_name = name i,
                     de_metadata = \<lparr>md_type = en_type e,
                       md_size_bytes = (if en_type e = FileEntry then en_size e else 0)\<rparr>\<rparr>)
                    (take count candidates),
                  count < length candidates))"

subsection \<open>Initial content\<close>

definition decimal2 :: "nat \<Rightarrow> bytes" where
  "decimal2 n = [word_of_nat (48 + n div 10), word_of_nat (48 + n mod 10)]"

text \<open>\<open>seed_file\<close> is the common body of the two places that give a new entry its content.\<close>

definition seed_file :: "bytes \<Rightarrow> bytes \<Rightarrow> 'x StorageRam_scheme \<Rightarrow> 'x StorageRam_scheme" where
  "seed_file path data st =
     (let (index, st) = add_entry path FileEntry st in
      case index of
        None \<Rightarrow> st
      | Some i \<Rightarrow>
          let (block, blocks) = allocate_block (length data) (sr_blocks st);
              st = st\<lparr>sr_blocks := blocks,
                      sr_entries := (sr_entries st)
                        [i := (sr_entries st ! i)\<lparr>en_size := word_of_nat (length data), en_block := block\<rparr>]\<rparr>
          in case block of
               None \<Rightarrow> st
             | Some b \<Rightarrow> st\<lparr>sr_arena := arena_write (sr_arena st) (bl_offset (blocks ! b)) data\<rparr>)"

definition seed_page :: "nat \<Rightarrow> 'x StorageRam_scheme \<Rightarrow> 'x StorageRam_scheme" where
  "seed_page page st =
     seed_file (ascii ''/seed/page-'' @ decimal2 page @ ascii ''.bin'')
       (map (\<lambda>i. word_of_nat (page * 17 + i)) [0..<16 + page]) st"

definition long_name :: "nat \<Rightarrow> bytes" where
  "long_name page = ascii ''/long/'' @ decimal2 page @
     ascii ''-abcdefghijklmnopqrstuvwxyz-ABCDEFGHIJKLMNOPQRSTUVWXYZ.bin''"

definition storage_cleared :: "'x StorageRam_scheme \<Rightarrow> 'x StorageRam_scheme" where
  "storage_cleared st =
     st\<lparr>sr_entries := replicate kMaxEntries default_entry,
        sr_blocks := (replicate kMaxBlocks default_block)
          [0 := \<lparr>bl_offset = 0, bl_size = kArenaBytes, bl_used = False\<rparr>],
        sr_arena := \<lambda>_. 0, sr_read_context := null_read_context, sr_write_context := null_write_context\<rparr>"

definition storage_init :: "'x StorageRam_scheme \<Rightarrow> 'x StorageRam_scheme" where
  "storage_init st =
     (let st = storage_cleared st;
          st = fold (\<lambda>path st. snd (add_entry path DirectoryEntry st))
            [ascii ''/'', ascii ''/seed'', ascii ''/upload'', ascii ''/long''] st;
          st = seed_file (ascii ''/seed/existing.bin'') (map (\<lambda>i. word_of_nat (0xa0 + i)) [0..<37]) st;
          st = fold seed_page [0..<12] st
      in fold (\<lambda>page st. snd (add_entry (long_name page) FileEntry st)) [0..<6] st)"

text \<open>
  The callback table. A session of this backend is only used between its begin and its commit, abort or
  close; outside that the callbacks are undefined, and the table gives \<open>StWriteFailed\<close>, \<open>StReadFailed\<close> or
  \<open>StCommitFailed\<close> there.
\<close>

definition ram_read_session :: "'x StorageRam_scheme ReadSession" where
  "ram_read_session =
     \<lparr>rs_read = Some (\<lambda>offset requested st.
        case read_cb offset requested st of None \<Rightarrow> (StReadFailed, [], st) | Some (e, data) \<Rightarrow> (e, data, st)),
      rs_close = Some close_read_cb\<rparr>"

definition ram_write_session :: "'x StorageRam_scheme WriteSession" where
  "ram_write_session =
     \<lparr>ws_write = Some (\<lambda>offset data st.
        case write_cb offset data st of None \<Rightarrow> (StWriteFailed, st) | Some r \<Rightarrow> r),
      ws_commit = Some (\<lambda>st. case commit_cb st of None \<Rightarrow> (StCommitFailed, st) | Some r \<Rightarrow> r),
      ws_abort = Some abort_cb\<rparr>"

definition ram_api :: "'x StorageRam_scheme Storage" where
  "ram_api =
     \<lparr>st_stat = Some sr_stat, st_list_page = Some list_impl,
      st_begin_read = Some (\<lambda>path st. let (e, st) = begin_read_impl path st in
        (e, if e = StOk then ram_read_session else null_read_session, st)),
      st_begin_write = Some (\<lambda>path size_bytes replace st.
        let (e, st) = begin_write_impl path size_bytes replace st in
        (e, if e = StOk then ram_write_session else null_write_session, st))\<rparr>"

end
