(* ===== verification/Storage_Invariant.thy ===== *)
theory Storage_Invariant
  imports Storage_Ram
begin

section \<open>The RAM storage implements a file system\<close>

text \<open>
  \<open>storage_ok\<close> is the invariant of the RAM storage: the block table cuts the arena, every used entry owns
  a used block of exactly its size (or none, when it is empty), no two entries share a block, no used
  block is without an owner, committed paths are unique, and the session contexts point at entries of the
  right kind. \<open>fs_of\<close> and \<open>staged_of\<close> abstract a storage to a map from paths to nodes and the upload in
  progress.
\<close>

definition entry_ok :: "Block list \<Rightarrow> Entry \<Rightarrow> bool" where
  "entry_ok blocks e \<longleftrightarrow>
     (en_used e \<longrightarrow> en_size e \<le> kMaxFileBytes \<and>
        (case en_block e of
           None \<Rightarrow> en_size e = 0
         | Some b \<Rightarrow> b < kMaxBlocks \<and> bl_used (blocks ! b) \<and> bl_size (blocks ! b) = unat (en_size e)))"

definition sole_owners :: "Entry list \<Rightarrow> bool" where
  "sole_owners es \<longleftrightarrow>
     (\<forall>i<kMaxEntries. \<forall>j<kMaxEntries. en_used (es ! i) \<and> en_used (es ! j) \<and>
        en_block (es ! i) \<noteq> None \<and> en_block (es ! i) = en_block (es ! j) \<longrightarrow> i = j)"

lemma sole_ownersD:
  assumes "sole_owners es" "i < kMaxEntries" "j < kMaxEntries" "en_used (es ! i)" "en_used (es ! j)"
    "en_block (es ! i) \<noteq> None" "en_block (es ! i) = en_block (es ! j)"
  shows "i = j"
  using assms unfolding sole_owners_def by blast

lemma entry_ok_cong:
  "en_used e = en_used e' \<Longrightarrow> en_size e = en_size e' \<Longrightarrow> en_block e = en_block e' \<Longrightarrow>
   entry_ok blocks e = entry_ok blocks e'"
  by (simp add: entry_ok_def split: option.split)

definition no_leak :: "Block list \<Rightarrow> Entry list \<Rightarrow> bool" where
  "no_leak blocks es \<longleftrightarrow>
     (\<forall>b<kMaxBlocks. bl_used (blocks ! b) \<longrightarrow>
        (\<exists>i<kMaxEntries. en_used (es ! i) \<and> en_block (es ! i) = Some b))"

definition visible :: "Entry \<Rightarrow> bool" where
  "visible e \<longleftrightarrow> en_used e \<and> en_committed e"

definition unique_paths :: "Entry list \<Rightarrow> bool" where
  "unique_paths es \<longleftrightarrow>
     (\<forall>i<kMaxEntries. \<forall>j<kMaxEntries. visible (es ! i) \<and> visible (es ! j) \<and>
        en_path (es ! i) = en_path (es ! j) \<longrightarrow> i = j)"

definition target_ok :: "Entry list \<Rightarrow> bytes \<Rightarrow> nat option \<Rightarrow> bool" where
  "target_ok es path target \<longleftrightarrow>
     (case target of
        None \<Rightarrow> \<forall>i<kMaxEntries. visible (es ! i) \<longrightarrow> en_path (es ! i) \<noteq> path
      | Some t \<Rightarrow> t < kMaxEntries \<and> visible (es ! t) \<and> en_path (es ! t) = path \<and> en_type (es ! t) = FileEntry)"

definition write_context_ok :: "Entry list \<Rightarrow> WriteContext \<Rightarrow> bool" where
  "write_context_ok es wc \<longleftrightarrow>
     (if wc_owner wc then
        \<not> wc_committed wc \<and>
        (\<exists>s<kMaxEntries. wc_staging wc = Some s \<and> en_used (es ! s) \<and> \<not> en_committed (es ! s) \<and>
           en_type (es ! s) = FileEntry \<and> target_ok es (en_path (es ! s)) (wc_target wc) \<and>
           (\<forall>i<kMaxEntries. en_used (es ! i) \<and> i \<noteq> s \<longrightarrow> en_committed (es ! i)))
      else wc = null_write_context \<and> (\<forall>i<kMaxEntries. en_used (es ! i) \<longrightarrow> en_committed (es ! i)))"

definition read_context_ok :: "Entry list \<Rightarrow> ReadContext \<Rightarrow> bool" where
  "read_context_ok es rc \<longleftrightarrow>
     (if rc_owner rc then
        \<exists>i<kMaxEntries. rc_entry rc = Some i \<and> visible (es ! i) \<and> en_type (es ! i) = FileEntry
      else rc = null_read_context)"

definition storage_ok :: "'x StorageRam_scheme \<Rightarrow> bool" where
  "storage_ok st \<longleftrightarrow>
     length (sr_entries st) = kMaxEntries \<and> blocks_ok (sr_blocks st) \<and>
     (\<forall>i<kMaxEntries. entry_ok (sr_blocks st) (sr_entries st ! i)) \<and>
     sole_owners (sr_entries st) \<and> no_leak (sr_blocks st) (sr_entries st) \<and>
     unique_paths (sr_entries st) \<and>
     write_context_ok (sr_entries st) (sr_write_context st) \<and>
     read_context_ok (sr_entries st) (sr_read_context st)"

subsection \<open>Abstraction\<close>

datatype node = Dir | Regular bytes

definition data_of :: "arena \<Rightarrow> Block list \<Rightarrow> Entry \<Rightarrow> bytes" where
  "data_of arena blocks e =
     (case en_block e of
        None \<Rightarrow> []
      | Some b \<Rightarrow> arena_read arena (bl_offset (blocks ! b)) (unat (en_size e)))"

lemma data_of_cong:
  "en_size e = en_size e' \<Longrightarrow> en_block e = en_block e' \<Longrightarrow> data_of A B e = data_of A B e'"
  by (simp add: data_of_def split: option.split)

definition node_of :: "arena \<Rightarrow> Block list \<Rightarrow> Entry \<Rightarrow> node" where
  "node_of arena blocks e = (if en_type e = DirectoryEntry then Dir else Regular (data_of arena blocks e))"

definition fs_of :: "'x StorageRam_scheme \<Rightarrow> bytes \<rightharpoonup> node" where
  "fs_of st path = map_option (\<lambda>i. node_of (sr_arena st) (sr_blocks st) (sr_entries st ! i)) (sr_find path st)"

definition staged_of :: "'x StorageRam_scheme \<Rightarrow> (bytes \<times> bytes) option" where
  "staged_of st =
     (if wc_owner (sr_write_context st)
      then map_option (\<lambda>s. (en_path (sr_entries st ! s),
             data_of (sr_arena st) (sr_blocks st) (sr_entries st ! s))) (wc_staging (sr_write_context st))
      else None)"

lemma sr_find_Some:
  assumes "sr_find path st = Some i" "length (sr_entries st) = kMaxEntries"
  shows "i < kMaxEntries" "visible (sr_entries st ! i)" "en_path (sr_entries st ! i) = path"
  using first_index_Some [OF assms(1) [unfolded sr_find_def]] assms(2) by (auto simp: visible_def)

lemma sr_find_None:
  assumes "length (sr_entries st) = kMaxEntries"
  shows "sr_find path st = None \<longleftrightarrow>
    (\<forall>i<kMaxEntries. visible (sr_entries st ! i) \<longrightarrow> en_path (sr_entries st ! i) \<noteq> path)"
  using assms by (auto simp: sr_find_def first_index_None_nth visible_def)

lemma sr_find_unique:
  assumes "length (sr_entries st) = kMaxEntries" "unique_paths (sr_entries st)"
    "i < kMaxEntries" "visible (sr_entries st ! i)"
  shows "sr_find (en_path (sr_entries st ! i)) st = Some i"
  unfolding sr_find_def using assms
  by (intro first_index_unique) (auto simp: visible_def unique_paths_def)

lemma sr_find_eq:
  assumes "length (sr_entries st) = kMaxEntries" "unique_paths (sr_entries st)"
  shows "sr_find path st = Some i \<longleftrightarrow>
    i < kMaxEntries \<and> visible (sr_entries st ! i) \<and> en_path (sr_entries st ! i) = path"
  using sr_find_Some [OF _ assms(1)] sr_find_unique [OF assms] by metis

text \<open>Two storages whose visible entries have the same paths and the same nodes show the same files.\<close>

definition presents :: "'x StorageRam_scheme \<Rightarrow> bytes \<Rightarrow> node \<Rightarrow> bool" where
  "presents st path n \<longleftrightarrow>
     (\<exists>i<kMaxEntries. visible (sr_entries st ! i) \<and> en_path (sr_entries st ! i) = path \<and>
        node_of (sr_arena st) (sr_blocks st) (sr_entries st ! i) = n)"

lemma fs_of_presents:
  assumes "length (sr_entries st) = kMaxEntries" "unique_paths (sr_entries st)"
  shows "fs_of st path = Some n \<longleftrightarrow> presents st path n"
  using sr_find_eq [OF assms, of path] by (auto simp: fs_of_def presents_def)

lemma option_eqI: "(\<And>x. a = Some x \<longleftrightarrow> b = Some x) \<Longrightarrow> a = b"
  by (cases a; cases b) auto

lemma fs_of_eqI:
  assumes "length (sr_entries st) = kMaxEntries" "unique_paths (sr_entries st)"
    "length (sr_entries st') = kMaxEntries" "unique_paths (sr_entries st')"
    and "\<And>n. presents st path n \<longleftrightarrow> presents st' path n"
  shows "fs_of st path = fs_of st' path"
  by (rule option_eqI) (simp add: fs_of_presents assms)

lemma fs_of_keepI:
  assumes ok: "length (sr_entries st) = kMaxEntries" "unique_paths (sr_entries st)"
    "length (sr_entries st') = kMaxEntries" "unique_paths (sr_entries st')"
    and same: "\<And>i. i < kMaxEntries \<Longrightarrow> visible (sr_entries st' ! i) = visible (sr_entries st ! i)"
      "\<And>i. i < kMaxEntries \<Longrightarrow> visible (sr_entries st ! i) \<Longrightarrow>
        en_path (sr_entries st' ! i) = en_path (sr_entries st ! i) \<and>
        node_of (sr_arena st') (sr_blocks st') (sr_entries st' ! i) =
          node_of (sr_arena st) (sr_blocks st) (sr_entries st ! i)"
  shows "fs_of st' = fs_of st"
proof (rule ext, rule fs_of_eqI)
  fix p n
  have "i < kMaxEntries \<and> visible (sr_entries st' ! i) \<and> en_path (sr_entries st' ! i) = p \<and>
        node_of (sr_arena st') (sr_blocks st') (sr_entries st' ! i) = n \<longleftrightarrow>
      i < kMaxEntries \<and> visible (sr_entries st ! i) \<and> en_path (sr_entries st ! i) = p \<and>
        node_of (sr_arena st) (sr_blocks st) (sr_entries st ! i) = n" for i
    using same [of i] by auto
  then show "presents st' p n \<longleftrightarrow> presents st p n" unfolding presents_def by blast
qed (use ok in simp_all)

lemma fs_of_updateI:
  assumes ok: "length (sr_entries st) = kMaxEntries" "unique_paths (sr_entries st)"
    "length (sr_entries st') = kMaxEntries" "unique_paths (sr_entries st')"
    and k: "k < kMaxEntries" "visible (sr_entries st' ! k)" "en_path (sr_entries st' ! k) = q"
      "node_of (sr_arena st') (sr_blocks st') (sr_entries st' ! k) = x"
    and other: "\<And>i. i < kMaxEntries \<Longrightarrow> i \<noteq> k \<Longrightarrow> visible (sr_entries st' ! i) = visible (sr_entries st ! i)"
      "\<And>i. i < kMaxEntries \<Longrightarrow> i \<noteq> k \<Longrightarrow> visible (sr_entries st ! i) \<Longrightarrow>
        en_path (sr_entries st' ! i) = en_path (sr_entries st ! i) \<and>
        node_of (sr_arena st') (sr_blocks st') (sr_entries st' ! i) =
          node_of (sr_arena st) (sr_blocks st) (sr_entries st ! i)"
    and q: "visible (sr_entries st ! k) \<Longrightarrow> en_path (sr_entries st ! k) = q"
      "\<And>i. i < kMaxEntries \<Longrightarrow> visible (sr_entries st ! i) \<Longrightarrow> en_path (sr_entries st ! i) = q \<Longrightarrow> i = k"
  shows "fs_of st' = (fs_of st)(q \<mapsto> x)"
proof (rule ext, rule option_eqI)
  fix p n
  have "presents st' p n \<longleftrightarrow> (if p = q then n = x else presents st p n)"
  proof (cases "p = q")
    case True
    have "i = k" if "i < kMaxEntries" "visible (sr_entries st' ! i)" "en_path (sr_entries st' ! i) = q" for i
    proof (rule ccontr)
      assume ne: "i \<noteq> k"
      have v: "visible (sr_entries st ! i)" using other(1) [OF that(1) ne] that(2) by simp
      have "en_path (sr_entries st ! i) = q" using other(2) [OF that(1) ne v] that(3) by simp
      with q(2) [OF that(1) v] ne show False by simp
    qed
    then have "presents st' q n \<longleftrightarrow> n = x"
      unfolding presents_def by (metis k)
    then show ?thesis using True by simp
  next
    case False
    then have "i \<noteq> k" if "visible (sr_entries st ! i)" "en_path (sr_entries st ! i) = p" for i
      using that q(1) by auto
    moreover have "i \<noteq> k" if "visible (sr_entries st' ! i)" "en_path (sr_entries st' ! i) = p" for i
      using that k(3) False by auto
    ultimately have "i < kMaxEntries \<and> visible (sr_entries st' ! i) \<and> en_path (sr_entries st' ! i) = p \<and>
        node_of (sr_arena st') (sr_blocks st') (sr_entries st' ! i) = n \<longleftrightarrow>
      i < kMaxEntries \<and> visible (sr_entries st ! i) \<and> en_path (sr_entries st ! i) = p \<and>
        node_of (sr_arena st) (sr_blocks st) (sr_entries st ! i) = n" for i
      using other [of i] by (cases "i = k") auto
    then have "presents st' p n \<longleftrightarrow> presents st p n"
      unfolding presents_def by blast
    then show ?thesis using False by simp
  qed
  then show "(fs_of st' p = Some n) = (((fs_of st)(q \<mapsto> x)) p = Some n)"
    using fs_of_presents [OF ok(1,2)] fs_of_presents [OF ok(3,4)] by auto
qed

subsection \<open>Writing\<close>

lemma arena_read_write:
  assumes "off + length data \<le> n"
  shows "arena_read (arena_write A (a + off) data) a n =
    overwrite (arena_read A a n) off data"
  using assms
  by (intro nth_equalityI)
    (auto simp: arena_read_def arena_write_def nth_overwrite length_overwrite)

lemma arena_read_other:
  assumes "{a..<a + n} \<inter> {b..<b + length data} = {}"
  shows "arena_read (arena_write A b data) a n = arena_read A a n"
  using assms by (auto simp: arena_read_def arena_write_def)

lemma storage_okD:
  assumes "storage_ok st"
  shows "length (sr_entries st) = kMaxEntries" "blocks_ok (sr_blocks st)"
    "i < kMaxEntries \<Longrightarrow> entry_ok (sr_blocks st) (sr_entries st ! i)"
    "sole_owners (sr_entries st)" "no_leak (sr_blocks st) (sr_entries st)" "unique_paths (sr_entries st)"
    "write_context_ok (sr_entries st) (sr_write_context st)"
    "read_context_ok (sr_entries st) (sr_read_context st)"
  using assms by (auto simp: storage_ok_def)

lemma write_impl_cases:
  assumes "write_impl offset data st = (e, st')"
  obtains (fail) "e \<noteq> StOk" "st' = st"
    | (empty) s where "e = StOk" "st' = st" "wc_staging (sr_write_context st) = Some s"
      "unat offset \<le> unat (en_size (sr_entries st ! s))" "data = []"
    | (stored) s b where "e = StOk" "wc_staging (sr_write_context st) = Some s" "data \<noteq> []"
      "en_block (sr_entries st ! s) = Some b" "unat offset + length data \<le> unat (en_size (sr_entries st ! s))"
      "st' = st\<lparr>sr_arena := arena_write (sr_arena st) (bl_offset (sr_blocks st ! b) + unat offset) data\<rparr>"
proof (cases "wc_staging (sr_write_context st)")
  case None
  then show ?thesis using assms fail by (simp add: write_impl_def)
next
  case (Some s)
  let ?e = "sr_entries st ! s"
  show ?thesis
  proof (cases "offset > en_size ?e \<or> length data > unat (en_size ?e - offset) \<or> (length data \<noteq> 0 \<and> en_block ?e = None)")
    case True
    then show ?thesis using assms fail Some by (simp add: write_impl_def Let_def)
  next
    case False
    then have o: "offset \<le> en_size ?e" by auto
    with False have le: "unat offset \<le> unat (en_size ?e)" "unat offset + length data \<le> unat (en_size ?e)"
      using unat_sub_le [OF o] by (auto simp: word_le_nat_alt)
    show ?thesis
    proof (cases "data = []")
      case True
      then show ?thesis using empty [of s] assms Some False le by (simp add: write_impl_def Let_def)
    next
      case nonempty: False
      with False obtain b where "en_block ?e = Some b" by auto
      then show ?thesis using stored [of s b] assms Some False le nonempty by (simp add: write_impl_def Let_def)
    qed
  qed
qed

lemma write_impl_ok: "storage_ok st \<Longrightarrow> write_impl offset data st = (e, st') \<Longrightarrow> storage_ok st'"
  by (erule write_impl_cases) (simp_all add: storage_ok_def)

lemma other_entry_untouched:
  assumes ok: "storage_ok st" and s: "s < kMaxEntries" "en_used (sr_entries st ! s)" "en_block (sr_entries st ! s) = Some b"
    and i: "i < kMaxEntries" "en_used (sr_entries st ! i)" "i \<noteq> s"
    and le: "off + length data \<le> unat (en_size (sr_entries st ! s))"
  shows "data_of (arena_write A (bl_offset (sr_blocks st ! b) + off) data) (sr_blocks st) (sr_entries st ! i) =
    data_of A (sr_blocks st) (sr_entries st ! i)"
proof (cases "en_block (sr_entries st ! i)")
  case None
  then show ?thesis by (simp add: data_of_def)
next
  case (Some c)
  have b: "b < kMaxBlocks" "bl_size (sr_blocks st ! b) = unat (en_size (sr_entries st ! s))"
    using storage_okD(3) [OF ok s(1)] s by (auto simp: entry_ok_def)
  have c: "c < kMaxBlocks" "bl_size (sr_blocks st ! c) = unat (en_size (sr_entries st ! i))"
    using storage_okD(3) [OF ok i(1)] i Some by (auto simp: entry_ok_def)
  have "b \<noteq> c" using storage_okD(4) [OF ok] s i Some by (auto simp: sole_owners_def)
  then have "span (sr_blocks st ! c) \<inter> span (sr_blocks st ! b) = {}"
    using spans_disjoint [OF storage_okD(2) [OF ok] c(1) b(1)] by auto
  then show ?thesis
    using Some b c le by (auto simp: data_of_def span_def intro!: arena_read_other)
qed

lemma write_impl_refines:
  assumes ok: "storage_ok st" and owner: "wc_owner (sr_write_context st)"
    and w: "write_impl offset data st = (e, st')"
  shows "fs_of st' = fs_of st"
    "e = StOk \<Longrightarrow> \<exists>p staged. staged_of st = Some (p, staged) \<and> unat offset + length data \<le> length staged \<and>
       staged_of st' = Some (p, overwrite staged (unat offset) data)"
    "e \<noteq> StOk \<Longrightarrow> st' = st"
proof -
  let ?es = "sr_entries st"
  from storage_okD(7) [OF ok] owner obtain s where
    s: "wc_staging (sr_write_context st) = Some s" "s < kMaxEntries" "en_used (?es ! s)" "\<not> en_committed (?es ! s)"
    by (auto simp: write_context_ok_def)
  have len: "length (data_of (sr_arena st) (sr_blocks st) (?es ! s)) = unat (en_size (?es ! s))"
    using storage_okD(3) [OF ok s(2)] s by (auto simp: entry_ok_def data_of_def arena_read_def split: option.splits)
  have st: "staged_of st = Some (en_path (?es ! s), data_of (sr_arena st) (sr_blocks st) (?es ! s))"
    using owner s by (simp add: staged_of_def)
  show "e \<noteq> StOk \<Longrightarrow> st' = st" using w by (rule write_impl_cases) auto
  show "fs_of st' = fs_of st"
    using w
  proof (cases rule: write_impl_cases)
    case (stored s' b)
    then have "s' = s" using s by simp
    show ?thesis
    proof (rule ext, rule fs_of_eqI)
      fix path n
      show "presents st' path n \<longleftrightarrow> presents st path n"
        using stored s other_entry_untouched [OF ok s(2,3), of b] \<open>s' = s\<close>
        by (auto simp: presents_def node_of_def visible_def) metis+
    qed (use storage_okD [OF ok] stored in simp_all)
  qed simp_all
  show "\<exists>p staged. staged_of st = Some (p, staged) \<and> unat offset + length data \<le> length staged \<and>
       staged_of st' = Some (p, overwrite staged (unat offset) data)"
    if "e = StOk"
    using w
  proof (cases rule: write_impl_cases)
    case (empty s')
    then show ?thesis using st len s by simp
  next
    case (stored s' b)
    then have "s' = s" using s by simp
    have "staged_of st' = Some (en_path (?es ! s), data_of (sr_arena st') (sr_blocks st) (?es ! s))"
      using owner s stored by (simp add: staged_of_def)
    then show ?thesis
      using st len stored arena_read_write [OF stored(5)] \<open>s' = s\<close> by (simp add: data_of_def)
  qed (use that in simp)
qed

subsection \<open>Commit and abort\<close>

text \<open>
  Freeing the block of entry \<open>t\<close>: every entry that keeps its block still owns it with the same offset and
  size, so its data are the same.
\<close>

lemma release_entry_ok:
  assumes "blocks_ok blocks" "entry_ok blocks e" "en_used e" "en_block e = None \<or> en_block e \<noteq> gone"
  shows "entry_ok (release_block gone blocks) e"
    "data_of A (release_block gone blocks) e = data_of A blocks e"
  using assms release_block_keeps(2) [OF assms(1), of _ gone]
  by (auto simp: entry_ok_def data_of_def split: option.splits)

lemma commit_impl_form:
  assumes "storage_ok st" "wc_owner (sr_write_context st)"
  obtains (replace) s t where "wc_staging (sr_write_context st) = Some s" "wc_target (sr_write_context st) = Some t"
      "s < kMaxEntries" "t < kMaxEntries" "s \<noteq> t"
      "commit_impl st = (StOk, st\<lparr>sr_blocks := release_block (en_block (sr_entries st ! t)) (sr_blocks st),
         sr_entries := (sr_entries st)
           [t := (sr_entries st ! t)\<lparr>en_block := en_block (sr_entries st ! s), en_size := en_size (sr_entries st ! s)\<rparr>,
            s := (sr_entries st ! s)\<lparr>en_block := None, en_used := False\<rparr>],
         sr_write_context := null_write_context\<rparr>)"
    | (create) s where "wc_staging (sr_write_context st) = Some s" "wc_target (sr_write_context st) = None"
      "s < kMaxEntries"
      "commit_impl st = (StOk, st\<lparr>sr_entries := (sr_entries st)[s := (sr_entries st ! s)\<lparr>en_committed := True\<rparr>],
         sr_write_context := null_write_context\<rparr>)"
proof -
  from storage_okD(7) [OF assms(1)] assms(2) obtain s where
    s: "wc_staging (sr_write_context st) = Some s" "s < kMaxEntries" "\<not> en_committed (sr_entries st ! s)"
      "target_ok (sr_entries st) (en_path (sr_entries st ! s)) (wc_target (sr_write_context st))"
      "\<not> wc_committed (sr_write_context st)"
    by (auto simp: write_context_ok_def)
  show ?thesis
  proof (cases "wc_target (sr_write_context st)")
    case None
    then show ?thesis using create [of s] s assms(2) by (simp add: commit_impl_def Let_def)
  next
    case (Some t)
    with s have "t < kMaxEntries" "s \<noteq> t" by (auto simp: target_ok_def visible_def)
    then show ?thesis using replace [of s t] s assms(2) Some by (simp add: commit_impl_def Let_def)
  qed
qed

lemma distinct_blocks:
  assumes "storage_ok st" "i < kMaxEntries" "t < kMaxEntries" "i \<noteq> t"
    "en_used (sr_entries st ! i)" "en_used (sr_entries st ! t)"
  shows "en_block (sr_entries st ! i) = None \<or> en_block (sr_entries st ! i) \<noteq> en_block (sr_entries st ! t)"
  using storage_okD(4) [OF assms(1)] assms by (auto simp: sole_owners_def)

text \<open>
  Replacing: the target takes over the block of the staging entry, whose slot is freed, and the block
  the target had is released.
\<close>

lemma replace_ok:
  assumes ok: "storage_ok st" and st: "s < kMaxEntries" "t < kMaxEntries" "s \<noteq> t"
    and es: "es = sr_entries st" and u: "en_used (es ! s)" "\<not> en_committed (es ! s)" "visible (es ! t)"
    and only: "\<forall>i<kMaxEntries. en_used (es ! i) \<and> i \<noteq> s \<longrightarrow> en_committed (es ! i)"
  shows "storage_ok (st\<lparr>sr_blocks := release_block (en_block (es ! t)) (sr_blocks st),
      sr_entries := es[t := (es ! t)\<lparr>en_block := en_block (es ! s), en_size := en_size (es ! s)\<rparr>,
            s := (es ! s)\<lparr>en_block := None, en_used := False\<rparr>],
      sr_write_context := null_write_context\<rparr>)"
    (is "storage_ok (st\<lparr>sr_blocks := ?blocks, sr_entries := ?es, sr_write_context := _\<rparr>)")
proof -
  define es' where "es' = ?es"
  note d = storage_okD [OF ok, folded es]
  have ut: "en_used (es ! t)" using u by (simp add: visible_def)
  have len: "length es = kMaxEntries" using d(1) .
  have nth: "es' ! i = (if i = s then (es ! s)\<lparr>en_block := None, en_used := False\<rparr>
      else if i = t then (es ! t)\<lparr>en_block := en_block (es ! s), en_size := en_size (es ! s)\<rparr> else es ! i)"
    if "i < kMaxEntries" for i using that len st by (simp add: es'_def)
  have keep: "entry_ok ?blocks (es ! i)" if "i < kMaxEntries" "i \<noteq> t" "en_used (es ! i)" for i
    using that d(2,3) distinct_blocks [OF ok that(1) st(2) that(2)] ut
    by (intro release_entry_ok) (auto simp: es)
  have "entry_ok ?blocks (es' ! i)" if i: "i < kMaxEntries" for i
  proof -
    have unused: "\<not> en_used e \<Longrightarrow> entry_ok ?blocks e" for e by (simp add: entry_ok_def)
    have "entry_ok ?blocks ((es ! t)\<lparr>en_block := en_block (es ! s), en_size := en_size (es ! s)\<rparr>)"
      using keep [OF st(1,3) u(1)] u(1) by (simp add: entry_ok_def split: option.splits)
    then show ?thesis
      unfolding nth [OF i] using keep [OF i] unused by (cases "en_used (es ! i)") auto
  qed
  moreover have "sole_owners es'"
    unfolding sole_owners_def
  proof (intro allI impI)
    fix i j assume ij: "i < kMaxEntries" "j < kMaxEntries"
      and same: "en_used (es' ! i) \<and> en_used (es' ! j) \<and> en_block (es' ! i) \<noteq> None \<and> en_block (es' ! i) = en_block (es' ! j)"
    let ?f = "\<lambda>i. if i = t then s else i"
    have own: "en_used (es ! ?f k) \<and> en_block (es' ! k) = en_block (es ! ?f k) \<and> k \<noteq> s"
      if "k < kMaxEntries" "en_used (es' ! k)" for k
      using nth [OF that(1)] that u by (auto split: if_splits)
    have "en_used (es' ! i)" "en_used (es' ! j)" using same by blast+
    note oi = own [OF ij(1) this(1)] and oj = own [OF ij(2) this(2)]
    have "?f i = ?f j"
    proof (rule sole_ownersD [OF d(4)])
      show "?f i < kMaxEntries" "?f j < kMaxEntries" using ij st by simp_all
      show "en_used (es ! ?f i)" "en_used (es ! ?f j)" using oi oj by blast+
      have bi: "en_block (es' ! i) = en_block (es ! ?f i)" and bj: "en_block (es' ! j) = en_block (es ! ?f j)"
        using oi oj by blast+
      show "en_block (es ! ?f i) \<noteq> None" "en_block (es ! ?f i) = en_block (es ! ?f j)"
        unfolding bi [symmetric] bj [symmetric] using same by blast+
    qed
    then show "i = j" using oi oj by (auto split: if_splits)
  qed
  moreover have "no_leak ?blocks es'"
    unfolding no_leak_def
  proof (intro allI impI)
    fix b assume b: "b < kMaxBlocks" "bl_used (?blocks ! b)"
    with release_block_keeps(3) [OF d(2) b] d(5) obtain i where
      i: "i < kMaxEntries" "en_used (es ! i)" "en_block (es ! i) = Some b" "en_block (es ! t) \<noteq> Some b"
      by (auto simp: no_leak_def)
    then have "en_used (es' ! (if i = s then t else i)) \<and> en_block (es' ! (if i = s then t else i)) = Some b"
      using nth st ut by auto
    with i(1) st show "\<exists>i<kMaxEntries. en_used (es' ! i) \<and> en_block (es' ! i) = Some b" by metis
  qed
  moreover have vis: "visible (es' ! i) = visible (es ! i)" "en_path (es' ! i) = en_path (es ! i)"
      "en_type (es' ! i) = en_type (es ! i)"
    if "i < kMaxEntries" for i using nth [OF that] u by (simp_all add: visible_def)
  moreover have "unique_paths es'" using d(6) vis by (simp add: unique_paths_def)
  moreover have "read_context_ok es' (sr_read_context st)" using d(8) vis by (auto simp: read_context_ok_def)
  moreover have "write_context_ok es' null_write_context"
    using only u nth by (auto simp: write_context_ok_def null_write_context_def visible_def)
  moreover have "blocks_ok ?blocks" using release_block_keeps(1) [OF d(2)] .
  ultimately show ?thesis using len unfolding storage_ok_def by (simp add: es es'_def)
qed

lemma create_ok:
  assumes ok: "storage_ok st" and s: "s < kMaxEntries" and es: "es = sr_entries st"
    and u: "en_used (es ! s)" "\<not> en_committed (es ! s)" "target_ok es (en_path (es ! s)) None"
    and only: "\<forall>i<kMaxEntries. en_used (es ! i) \<and> i \<noteq> s \<longrightarrow> en_committed (es ! i)"
  shows "storage_ok (st\<lparr>sr_entries := es[s := (es ! s)\<lparr>en_committed := True\<rparr>],
      sr_write_context := null_write_context\<rparr>)"
    (is "storage_ok (st\<lparr>sr_entries := ?es, sr_write_context := _\<rparr>)")
proof -
  define es' where "es' = ?es"
  note d = storage_okD [OF ok, folded es]
  have nth: "es' ! i = (if i = s then (es ! s)\<lparr>en_committed := True\<rparr> else es ! i)"
    if "i < kMaxEntries" for i using that d(1) s by (simp add: es'_def)
  have f: "en_used (es' ! i) = en_used (es ! i)" "en_block (es' ! i) = en_block (es ! i)"
      "en_size (es' ! i) = en_size (es ! i)" "en_path (es' ! i) = en_path (es ! i)"
      "en_type (es' ! i) = en_type (es ! i)" "visible (es' ! i) \<longleftrightarrow> visible (es ! i) \<or> i = s"
    if "i < kMaxEntries" for i using nth [OF that] u by (simp_all add: visible_def)
  have "entry_ok (sr_blocks st) (es' ! i)" if "i < kMaxEntries" for i
    using d(3) [OF that] entry_ok_cong [OF f(1,3,2) [OF that]] by simp
  moreover have "sole_owners es'" using d(4) f by (simp add: sole_owners_def)
  moreover have "no_leak (sr_blocks st) es'" using d(5) f(1,2) unfolding no_leak_def by metis
  moreover have "unique_paths es'"
    using d(6) f u(3) unfolding unique_paths_def target_ok_def by (simp, metis)
  moreover have "read_context_ok es' (sr_read_context st)" using d(8) f by (auto simp: read_context_ok_def)
  moreover have "write_context_ok es' null_write_context"
    using only u nth by (auto simp: write_context_ok_def null_write_context_def)
  ultimately show ?thesis using d(1,2) unfolding storage_ok_def by (simp add: es es'_def)
qed

lemma write_contextE:
  assumes "storage_ok st" "wc_owner (sr_write_context st)"
  obtains s where "wc_staging (sr_write_context st) = Some s" "s < kMaxEntries"
    "en_used (sr_entries st ! s)" "\<not> en_committed (sr_entries st ! s)" "en_type (sr_entries st ! s) = FileEntry"
    "target_ok (sr_entries st) (en_path (sr_entries st ! s)) (wc_target (sr_write_context st))"
    "\<forall>i<kMaxEntries. en_used (sr_entries st ! i) \<and> i \<noteq> s \<longrightarrow> en_committed (sr_entries st ! i)"
  using storage_okD(7) [OF assms(1)] assms(2) by (auto simp: write_context_ok_def)

lemma commit_impl_ok:
  assumes "storage_ok st"
  shows "storage_ok (snd (commit_impl st))"
proof (cases "wc_owner (sr_write_context st)")
  case True
  obtain s where s: "wc_staging (sr_write_context st) = Some s" "en_used (sr_entries st ! s)" "\<not> en_committed (sr_entries st ! s)"
      "target_ok (sr_entries st) (en_path (sr_entries st ! s)) (wc_target (sr_write_context st))"
      "\<forall>i<kMaxEntries. en_used (sr_entries st ! i) \<and> i \<noteq> s \<longrightarrow> en_committed (sr_entries st ! i)"
    using write_contextE [OF assms True] .
  from assms True show ?thesis
  proof (cases rule: commit_impl_form)
    case (replace s' t)
    with s show ?thesis using replace_ok [OF assms _ _ _ refl, of s t] by (simp add: target_ok_def)
  next
    case (create s')
    with s show ?thesis using create_ok [OF assms _ refl, of s] by simp
  qed
next
  case False
  then show ?thesis
    using assms by (auto simp: commit_impl_def Let_def split: option.splits)
qed

lemma replace_refines:
  assumes ok: "storage_ok st" and len: "length (sr_entries st) = kMaxEntries"
    and ix: "t < kMaxEntries" "s < kMaxEntries" "en_used (sr_entries st ! s)" "\<not> en_committed (sr_entries st ! s)" "s \<noteq> t"
    and t: "visible (sr_entries st ! t)" "en_type (sr_entries st ! t) = FileEntry" "en_path (sr_entries st ! t) = q"
    and st': "st' = st\<lparr>sr_blocks := release_block (en_block (sr_entries st ! t)) (sr_blocks st),
        sr_entries := (sr_entries st)[t := (sr_entries st ! t)\<lparr>en_block := en_block (sr_entries st ! s),
            en_size := en_size (sr_entries st ! s)\<rparr>,
          s := (sr_entries st ! s)\<lparr>en_block := None, en_used := False\<rparr>], sr_write_context := null_write_context\<rparr>"
    and ok': "storage_ok st'"
  shows "fs_of st' = (fs_of st)(q \<mapsto> Regular (data_of (sr_arena st) (sr_blocks st) (sr_entries st ! s)))"
proof -
  let ?e = "sr_entries st ! s" and ?t = "sr_entries st ! t"
  let ?blocks = "release_block (en_block ?t) (sr_blocks st)"
  let ?t' = "?t\<lparr>en_block := en_block ?e, en_size := en_size ?e\<rparr>"
  have nth: "sr_entries st' ! i = (if i = s then ?e\<lparr>en_block := None, en_used := False\<rparr>
      else if i = t then ?t' else sr_entries st ! i)"
    if "i < kMaxEntries" for i using that ix len by (simp add: st')
  have keep: "data_of A ?blocks (sr_entries st ! i) = data_of A (sr_blocks st) (sr_entries st ! i)"
    if "i < kMaxEntries" "i \<noteq> t" "en_used (sr_entries st ! i)" for i A
    using release_entry_ok(2) [OF storage_okD(2,3) [OF ok]] distinct_blocks [OF ok that(1) ix(1) that(2,3)] t(1) that
    by (simp add: visible_def)
  have x: "node_of A ?blocks ?t' = Regular (data_of A (sr_blocks st) ?e)" for A
    using t(2) keep [OF ix(2,5,3)] data_of_cong [of ?t' ?e] by (simp add: node_of_def)
  have n: "node_of A ?blocks (sr_entries st ! i) = node_of A (sr_blocks st) (sr_entries st ! i)"
    if "i < kMaxEntries" "i \<noteq> t" "visible (sr_entries st ! i)" for i A
    using keep that by (simp add: node_of_def visible_def)
  have q: "i = t" if "i < kMaxEntries" "visible (sr_entries st ! i)" "en_path (sr_entries st ! i) = q" for i
    using storage_okD(6) [OF ok] that ix(1) t unfolding unique_paths_def by metis
  have f: "sr_arena st' = sr_arena st" "sr_blocks st' = ?blocks" by (simp_all add: st')
  note d = storage_okD(1,6) [OF ok] storage_okD(1,6) [OF ok']
  show ?thesis
  proof (rule fs_of_updateI [OF d ix(1)])
    show "visible (sr_entries st' ! t)" "en_path (sr_entries st' ! t) = q"
      "node_of (sr_arena st') (sr_blocks st') (sr_entries st' ! t) = Regular (data_of (sr_arena st) (sr_blocks st) ?e)"
      using nth [OF ix(1)] ix(5) t x by (simp_all add: f visible_def)
    fix i assume i: "i < kMaxEntries" "i \<noteq> t"
    show "visible (sr_entries st' ! i) = visible (sr_entries st ! i)"
      using nth [OF i(1)] i(2) ix(4) by (simp add: visible_def)
    show "en_path (sr_entries st' ! i) = en_path (sr_entries st ! i) \<and>
        node_of (sr_arena st') (sr_blocks st') (sr_entries st' ! i) =
          node_of (sr_arena st) (sr_blocks st) (sr_entries st ! i)" if "visible (sr_entries st ! i)"
      using nth [OF i(1)] i n [OF i that] ix(4) that by (simp add: f visible_def split: if_splits)
  qed (use t(3) q in blast)+
qed

lemma commit_impl_refines:
  assumes ok: "storage_ok st" and owner: "wc_owner (sr_write_context st)"
    and c: "commit_impl st = (e, st')"
  shows "\<exists>p data. staged_of st = Some (p, data) \<and> e = StOk \<and> fs_of st' = (fs_of st)(p \<mapsto> Regular data) \<and>
    staged_of st' = None"
proof -
  obtain s where s: "wc_staging (sr_write_context st) = Some s" "s < kMaxEntries" "en_used (sr_entries st ! s)"
      "\<not> en_committed (sr_entries st ! s)" "en_type (sr_entries st ! s) = FileEntry"
      "target_ok (sr_entries st) (en_path (sr_entries st ! s)) (wc_target (sr_write_context st))"
      "\<forall>i<kMaxEntries. en_used (sr_entries st ! i) \<and> i \<noteq> s \<longrightarrow> en_committed (sr_entries st ! i)"
    using write_contextE [OF ok owner] .
  let ?e = "sr_entries st ! s" and ?data = "data_of (sr_arena st) (sr_blocks st) (sr_entries st ! s)"
  have staged: "staged_of st = Some (en_path ?e, ?data)" using s(1) owner by (simp add: staged_of_def)
  have ok': "storage_ok st'" using commit_impl_ok [OF ok] c by simp
  note d = storage_okD(1,6) [OF ok] storage_okD(1,6) [OF ok']
  have "fs_of st' = (fs_of st)(en_path ?e \<mapsto> Regular ?data)"
    using ok owner
  proof (cases rule: commit_impl_form)
    case (create s')
    then have st': "st' = st\<lparr>sr_entries := (sr_entries st)[s := ?e\<lparr>en_committed := True\<rparr>],
        sr_write_context := null_write_context\<rparr>" using s c by simp
    have "node_of A B (?e\<lparr>en_committed := True\<rparr>) = Regular (data_of A B ?e)" for A B
      using s(5) data_of_cong [of "?e\<lparr>en_committed := True\<rparr>" ?e] by (simp add: node_of_def)
    then show ?thesis
      using s create d(1) by (intro fs_of_updateI [OF d s(2)]) (auto simp: st' visible_def target_ok_def)
  next
    case (replace s' t)
    then have t: "t < kMaxEntries" "s \<noteq> t" "wc_target (sr_write_context st) = Some t"
      and st': "st' = st\<lparr>sr_blocks := release_block (en_block (sr_entries st ! t)) (sr_blocks st),
        sr_entries := (sr_entries st)[t := (sr_entries st ! t)\<lparr>en_block := en_block ?e, en_size := en_size ?e\<rparr>,
          s := ?e\<lparr>en_block := None, en_used := False\<rparr>], sr_write_context := null_write_context\<rparr>"
      using s(1) c by simp_all
    have "visible (sr_entries st ! t)" "en_type (sr_entries st ! t) = FileEntry" "en_path (sr_entries st ! t) = en_path ?e"
      using s(6) t(3) by (simp_all add: target_ok_def)
    then show ?thesis
      by (rule replace_refines [OF ok d(1) t(1) s(2,3,4) t(2) _ _ _ st' ok'])
  qed
  moreover have "e = StOk" "staged_of st' = None"
    using ok owner
    by (cases rule: commit_impl_form; use c in \<open>simp add: staged_of_def null_write_context_def\<close>)+
  ultimately show ?thesis using staged by blast
qed

lemma abort_form:
  assumes "storage_ok st" "wc_owner (sr_write_context st)"
  obtains s where "wc_staging (sr_write_context st) = Some s" "s < kMaxEntries" "en_used (sr_entries st ! s)"
    "\<not> en_committed (sr_entries st ! s)"
    "\<forall>i<kMaxEntries. en_used (sr_entries st ! i) \<and> i \<noteq> s \<longrightarrow> en_committed (sr_entries st ! i)"
    "abort_impl st = st\<lparr>sr_blocks := release_block (en_block (sr_entries st ! s)) (sr_blocks st),
       sr_entries := (sr_entries st)[s := default_entry], sr_write_context := null_write_context\<rparr>"
proof -
  obtain s where "wc_staging (sr_write_context st) = Some s" "s < kMaxEntries" "en_used (sr_entries st ! s)"
      "\<not> en_committed (sr_entries st ! s)"
      "\<forall>i<kMaxEntries. en_used (sr_entries st ! i) \<and> i \<noteq> s \<longrightarrow> en_committed (sr_entries st ! i)"
    using write_contextE [OF assms] .
  with that show thesis using assms(2) by (simp add: abort_impl_def Let_def)
qed

lemma abort_impl_refines:
  assumes ok: "storage_ok st" and owner: "wc_owner (sr_write_context st)"
  shows "storage_ok (abort_impl st)" "fs_of (abort_impl st) = fs_of st" "staged_of (abort_impl st) = None"
proof -
  obtain s where s: "s < kMaxEntries" "en_used (sr_entries st ! s)" "\<not> en_committed (sr_entries st ! s)"
      "\<forall>i<kMaxEntries. en_used (sr_entries st ! i) \<and> i \<noteq> s \<longrightarrow> en_committed (sr_entries st ! i)"
      and ab: "abort_impl st = st\<lparr>sr_blocks := release_block (en_block (sr_entries st ! s)) (sr_blocks st),
       sr_entries := (sr_entries st)[s := default_entry], sr_write_context := null_write_context\<rparr>"
    using abort_form [OF ok owner] .
  define es where "es = sr_entries st"
  define es' where "es' = sr_entries (abort_impl st)"
  define blocks where "blocks = sr_blocks (abort_impl st)"
  note d = storage_okD [OF ok, folded es_def] and s = s [folded es_def]
  have bl: "blocks = release_block (en_block (es ! s)) (sr_blocks st)" by (simp add: ab blocks_def es_def)
  have nth: "es' ! i = (if i = s then default_entry else es ! i)" if "i < kMaxEntries" for i
    using that d(1) s(1) by (simp add: ab es'_def es_def)
  have len: "length es' = kMaxEntries" using d(1) by (simp add: ab es'_def es_def)
  have keep: "entry_ok blocks (es ! i)" "data_of A blocks (es ! i) = data_of A (sr_blocks st) (es ! i)"
    if "i < kMaxEntries" "i \<noteq> s" "en_used (es ! i)" for i A
    using release_entry_ok [OF d(2,3)] distinct_blocks [OF ok that(1) s(1) that(2)] that s(2)
    by (auto simp: bl es_def)
  have vis: "visible (es' ! i) = visible (es ! i)" "visible (es ! i) \<Longrightarrow> i \<noteq> s \<and> es' ! i = es ! i"
    if "i < kMaxEntries" for i using nth [OF that] s(2,3) by (auto simp: visible_def default_entry_def)
  have "entry_ok blocks (es' ! i)" if "i < kMaxEntries" for i
    using nth [OF that] keep(1) [OF that] by (auto simp: entry_ok_def default_entry_def)
  moreover have "sole_owners es'"
    using d(4) nth unfolding sole_owners_def by (simp add: default_entry_def) blast
  moreover have "no_leak blocks es'"
    unfolding no_leak_def
  proof (intro allI impI)
    fix b assume b: "b < kMaxBlocks" "bl_used (blocks ! b)"
    with release_block_keeps(3) [OF d(2) b [unfolded bl]] d(5) obtain i where
      i: "i < kMaxEntries" "en_used (es ! i)" "en_block (es ! i) = Some b" "en_block (es ! s) \<noteq> Some b"
      by (auto simp: no_leak_def)
    then have "es' ! i = es ! i" using nth by auto
    with i show "\<exists>i<kMaxEntries. en_used (es' ! i) \<and> en_block (es' ! i) = Some b" by metis
  qed
  moreover have up: "unique_paths es'" using d(6) vis unfolding unique_paths_def by metis
  moreover have "read_context_ok es' (sr_read_context st)" using d(8) vis unfolding read_context_ok_def by metis
  moreover have "write_context_ok es' null_write_context"
    using s nth by (auto simp: write_context_ok_def null_write_context_def default_entry_def)
  moreover have "blocks_ok blocks" using release_block_keeps(1) [OF d(2)] by (simp add: bl)
  ultimately show "storage_ok (abort_impl st)"
    using len unfolding storage_ok_def es'_def blocks_def by (simp add: ab)
  show "fs_of (abort_impl st) = fs_of st"
  proof (rule fs_of_keepI [OF d(1,6) [unfolded es_def] len [unfolded es'_def] up [unfolded es'_def]])
    fix i assume i: "i < kMaxEntries"
    show "visible (sr_entries (abort_impl st) ! i) = visible (sr_entries st ! i)"
      using vis(1) [OF i] by (simp add: es_def es'_def)
    assume v: "visible (sr_entries st ! i)"
    then have "i \<noteq> s" "es' ! i = es ! i" "en_used (es ! i)" using vis(2) [OF i] by (auto simp: es_def visible_def)
    then show "en_path (sr_entries (abort_impl st) ! i) = en_path (sr_entries st ! i) \<and>
      node_of (sr_arena (abort_impl st)) (sr_blocks (abort_impl st)) (sr_entries (abort_impl st) ! i) =
      node_of (sr_arena st) (sr_blocks st) (sr_entries st ! i)"
      using keep(2) [OF i] by (simp add: node_of_def es_def [symmetric] es'_def [symmetric] blocks_def [symmetric])
        (simp add: ab)
  qed
  show "staged_of (abort_impl st) = None" by (simp add: ab staged_of_def null_write_context_def)
qed

subsection \<open>Opening sessions\<close>

definition storable :: "bytes \<Rightarrow> bool" where
  "storable path \<longleftrightarrow> path \<noteq> [] \<and> length path \<le> kMaxPathBytes \<and> 0 \<notin> set path"

lemma copy_path_storable: "storable path \<Longrightarrow> copy_path path = Some path"
  by (auto simp: storable_def copy_path_def c_string_def takeWhile_eq_all_conv)

text \<open>A new staging entry in a free slot, with a freshly allocated block (or none for an empty file).\<close>

definition fresh_block :: "u64 \<Rightarrow> nat option \<Rightarrow> Block list \<Rightarrow> Block list \<Rightarrow> bool" where
  "fresh_block size_bytes block blocks blocks' \<longleftrightarrow>
     (case block of None \<Rightarrow> size_bytes = 0 \<and> blocks' = blocks
      | Some b \<Rightarrow> allocated (unat size_bytes) b blocks blocks')"

lemma begin_write_form:
  assumes ok: "storage_ok st" and bw: "begin_write_impl path size_bytes replace st = (e, st')"
  obtains (fail) "e \<noteq> StOk" "st' = st"
    | (opened) s block blocks where "e = StOk" "\<not> wc_owner (sr_write_context st)" "size_bytes \<le> kMaxFileBytes"
      "parent_exists path st" "sr_find path st = None \<or> replace"
      "sr_find path st = None \<or> en_type (sr_entries st ! the (sr_find path st)) = FileEntry"
      "s < kMaxEntries" "\<not> en_used (sr_entries st ! s)"
      "fresh_block size_bytes block (sr_blocks st) blocks"
      "st' = open_staging path size_bytes (sr_find path st) s block (st\<lparr>sr_blocks := blocks\<rparr>)"
proof (cases "e = StOk")
  case False
  then have "st' = st" using bw
    by (auto simp: begin_write_impl_def Let_def split: if_splits option.splits prod.splits)
  then show ?thesis using fail False by blast
next
  case True
  obtain block blocks where al: "allocate_block (unat size_bytes) (sr_blocks st) = (block, blocks)" by force
  obtain s where s: "find_free_entry st = Some s" using bw True
    by (auto simp: begin_write_impl_def Let_def split: if_splits option.splits)
  have s': "s < kMaxEntries" "\<not> en_used (sr_entries st ! s)"
    using first_index_Some [OF s [unfolded find_free_entry_def]] storage_okD(1) [OF ok] by auto
  have guards: "\<not> wc_owner (sr_write_context st)" "size_bytes \<le> kMaxFileBytes" "parent_exists path st"
    "sr_find path st = None \<or> replace"
    "sr_find path st = None \<or> en_type (sr_entries st ! the (sr_find path st)) = FileEntry"
    using bw True by (auto simp: begin_write_impl_def Let_def not_less split: if_splits)
  show ?thesis
  proof (cases "size_bytes = 0")
    case zero: True
    then have "st' = open_staging path size_bytes (sr_find path st) s None (st\<lparr>sr_blocks := sr_blocks st\<rparr>)"
      using bw True guards s by (auto simp: begin_write_impl_def Let_def split: if_splits)
    then show ?thesis using opened [OF True guards s', of None "sr_blocks st"] zero by (simp add: fresh_block_def)
  next
    case nz: False
    then have "block \<noteq> None" "st' = open_staging path size_bytes (sr_find path st) s block (st\<lparr>sr_blocks := blocks\<rparr>)"
      using bw True guards s al by (auto simp: begin_write_impl_def Let_def split: if_splits)
    then show ?thesis
      using opened [OF True guards s', of block blocks] allocate_block_cases [OF storage_okD(2) [OF ok] al]
      by (auto simp: fresh_block_def)
  qed
qed

lemma fresh_block_keeps:
  assumes ok: "blocks_ok blocks" and f: "fresh_block n block blocks blocks'"
  shows "blocks_ok blocks'"
    "entry_ok blocks e \<Longrightarrow> en_used e \<Longrightarrow> entry_ok blocks' e \<and> data_of A blocks' e = data_of A blocks e \<and>
       (en_block e = None \<or> en_block e \<noteq> block)"
    "b < kMaxBlocks \<Longrightarrow> bl_used (blocks' ! b) \<Longrightarrow> block = Some b \<or> bl_used (blocks ! b)"
    "n \<le> kMaxFileBytes \<Longrightarrow> en_size e = n \<Longrightarrow> en_block e = block \<Longrightarrow> entry_ok blocks' e"
proof -
  show "blocks_ok blocks'" using assms by (auto simp: fresh_block_def allocated_def split: option.splits)
  show "block = Some b \<or> bl_used (blocks ! b)" if "b < kMaxBlocks" "bl_used (blocks' ! b)"
    using f that by (auto simp: fresh_block_def allocated_def split: option.splits)
  show "entry_ok blocks' e" if "n \<le> kMaxFileBytes" "en_size e = n" "en_block e = block"
    using f that by (auto simp: fresh_block_def allocated_def entry_ok_def split: option.splits)
  assume e: "entry_ok blocks e" "en_used e"
  show "entry_ok blocks' e \<and> data_of A blocks' e = data_of A blocks e \<and> (en_block e = None \<or> en_block e \<noteq> block)"
  proof (cases "en_block e")
    case None
    then show ?thesis using e by (simp add: entry_ok_def data_of_def)
  next
    case (Some c)
    then have "bl_used (blocks ! c)" "c < kMaxBlocks" using e by (auto simp: entry_ok_def)
    then have "block \<noteq> Some c" "blocks' ! c = blocks ! c"
      using f by (auto simp: fresh_block_def allocated_def split: option.splits)
    then show ?thesis using e Some by (auto simp: entry_ok_def data_of_def)
  qed
qed

lemma open_staging_ok:
  assumes ok: "storage_ok st" and path: "storable path" and s: "s < kMaxEntries" "\<not> en_used (sr_entries st ! s)"
    and idle: "\<not> wc_owner (sr_write_context st)" and lim: "size_bytes \<le> kMaxFileBytes"
    and tgt: "sr_find path st = None \<or> en_type (sr_entries st ! the (sr_find path st)) = FileEntry"
    and f: "fresh_block size_bytes block (sr_blocks st) blocks"
    and st': "st' = open_staging path size_bytes (sr_find path st) s block (st\<lparr>sr_blocks := blocks\<rparr>)"
  shows "storage_ok st'" "fs_of st' = fs_of st"
    "\<exists>data. staged_of st' = Some (path, data) \<and> length data = unat size_bytes"
proof -
  define es where "es = sr_entries st"
  define es' where "es' = sr_entries st'"
  define new where "new = es' ! s"
  note d = storage_okD [OF ok, folded es_def] and s = s [folded es_def]
  note fk = fresh_block_keeps [OF d(2) f]
  have stf: "sr_blocks st' = blocks" "sr_arena st' = sr_arena st" "sr_read_context st' = sr_read_context st"
      "sr_write_context st' = \<lparr>wc_owner = True, wc_staging = Some s, wc_target = sr_find path st, wc_committed = False\<rparr>"
    by (simp_all add: st' open_staging_def)
  have new: "en_used new" "\<not> en_committed new" "en_type new = FileEntry" "en_path new = path"
      "en_size new = size_bytes" "en_block new = block"
    and nth: "i < kMaxEntries \<Longrightarrow> i \<noteq> s \<Longrightarrow> es' ! i = es ! i" and len: "length es' = kMaxEntries" for i
    using d(1) s(1) copy_path_storable [OF path]
    by (simp_all add: new_def es'_def es_def st' open_staging_def)
  have at: "es' ! i = (if i = s then new else es ! i)" if "i < kMaxEntries" for i using nth that new_def by auto
  have vis: "visible (es' ! i) = visible (es ! i)" "visible (es ! i) \<Longrightarrow> es' ! i = es ! i"
    if "i < kMaxEntries" for i using at [OF that] s new by (auto simp: visible_def)
  have "entry_ok blocks (es' ! i)" if "i < kMaxEntries" for i
    using at [OF that] fk(2) [OF d(3) [OF that]] fk(4) [OF lim new(5,6)]
    by (cases "en_used (es ! i)") (auto simp: entry_ok_def)
  moreover have "sole_owners es'"
    using d(4) at fk(2) [OF d(3)] new(6) unfolding sole_owners_def by (smt (verit, best))
  moreover have "no_leak blocks es'"
    using d(5) at fk(3) s new unfolding no_leak_def by metis
  moreover have up: "unique_paths es'" using d(6) vis unfolding unique_paths_def by metis
  moreover have "read_context_ok es' (sr_read_context st)" using d(8) vis unfolding read_context_ok_def by metis
  moreover have "target_ok es' path (sr_find path st)"
  proof (cases "sr_find path st")
    case None
    then have "\<forall>i<kMaxEntries. visible (es ! i) \<longrightarrow> en_path (es ! i) \<noteq> path"
      using sr_find_None [OF d(1) [unfolded es_def], of path] by (simp add: es_def)
    then show ?thesis using None vis by (auto simp: target_ok_def)
  next
    case (Some t)
    then show ?thesis
      using sr_find_Some [OF Some d(1) [unfolded es_def]] vis tgt by (auto simp: target_ok_def es_def)
  qed
  moreover have "\<forall>i<kMaxEntries. en_used (es ! i) \<longrightarrow> en_committed (es ! i)"
    using d(7) idle by (simp add: write_context_ok_def)
  ultimately show ok': "storage_ok st'"
    unfolding storage_ok_def write_context_ok_def stf es'_def [symmetric]
    using len fk(1) new at s by (auto intro!: exI [of _ s])
  show "fs_of st' = fs_of st"
  proof (rule fs_of_keepI [OF d(1,6) [unfolded es_def] len [unfolded es'_def] up [unfolded es'_def]])
    fix i assume i: "i < kMaxEntries"
    show "visible (sr_entries st' ! i) = visible (sr_entries st ! i)"
      using vis(1) [OF i] by (simp add: es_def es'_def)
    assume v: "visible (sr_entries st ! i)"
    then have "en_used (es ! i)" "es' ! i = es ! i" using vis(2) [OF i] by (auto simp: visible_def es_def)
    then show "en_path (sr_entries st' ! i) = en_path (sr_entries st ! i) \<and>
      node_of (sr_arena st') (sr_blocks st') (sr_entries st' ! i) =
      node_of (sr_arena st) (sr_blocks st) (sr_entries st ! i)"
      using fk(2) [OF d(3) [OF i]] by (simp add: node_of_def stf es_def es'_def)
  qed
  have "length (data_of A blocks new) = unat size_bytes" for A
    using f new by (auto simp: data_of_def arena_read_def fresh_block_def split: option.splits)
  then show "\<exists>data. staged_of st' = Some (path, data) \<and> length data = unat size_bytes"
    using new by (auto simp: staged_of_def stf es'_def [symmetric] new_def [symmetric])
qed

lemma begin_write_refines:
  assumes ok: "storage_ok st" and p: "storable path"
    and bw: "begin_write_impl path size_bytes replace st = (e, st')"
  shows "storage_ok st' \<and> fs_of st' = fs_of st \<and>
    (if e = StOk then wc_owner (sr_write_context st') \<and>
       (\<exists>data. staged_of st' = Some (path, data) \<and> length data = unat size_bytes)
     else st' = st)"
  using ok bw
proof (cases rule: begin_write_form)
  case (opened s block blocks)
  note o = open_staging_ok [OF ok p opened(7,8,2,3,6,9,10)]
  then show ?thesis using opened(1) by (auto simp: opened(10) open_staging_def)
qed (use ok in simp)

lemma begin_read_form:
  assumes ok: "storage_ok st" and br: "begin_read_impl path st = (e, st')"
  obtains (fail) "e \<noteq> StOk" "st' = st"
    | (opened) i where "e = StOk" "\<not> rc_owner (sr_read_context st)" "sr_find path st = Some i"
      "i < kMaxEntries" "visible (sr_entries st ! i)" "en_path (sr_entries st ! i) = path"
      "en_type (sr_entries st ! i) = FileEntry"
      "st' = st\<lparr>sr_read_context := \<lparr>rc_owner = True, rc_entry = Some i\<rparr>\<rparr>"
proof (cases "e = StOk")
  case False
  then show ?thesis using br fail by (auto simp: begin_read_impl_def split: if_splits option.splits)
next
  case True
  then obtain i where "sr_find path st = Some i" "\<not> rc_owner (sr_read_context st)"
      "en_type (sr_entries st ! i) = FileEntry" "st' = st\<lparr>sr_read_context := \<lparr>rc_owner = True, rc_entry = Some i\<rparr>\<rparr>"
    using br by (auto simp: begin_read_impl_def split: if_splits option.splits)
  then show ?thesis using opened [of i] True sr_find_Some [OF _ storage_okD(1) [OF ok], of path i] by blast
qed

text \<open>What an open read session reads from: the path and the node of its entry.\<close>

definition reading_of :: "'x StorageRam_scheme \<Rightarrow> bytes option" where
  "reading_of st =
     (if rc_owner (sr_read_context st)
      then map_option (\<lambda>i. en_path (sr_entries st ! i)) (rc_entry (sr_read_context st)) else None)"

lemma fs_of_cong:
  assumes "sr_entries st' = sr_entries st" "sr_blocks st' = sr_blocks st" "sr_arena st' = sr_arena st"
  shows "fs_of st' = fs_of st"
  by (rule ext) (simp add: fs_of_def sr_find_def assms)

lemma begin_read_refines:
  assumes ok: "storage_ok st" and br: "begin_read_impl path st = (e, st')"
  shows "storage_ok st' \<and> fs_of st' = fs_of st \<and>
    (if e = StOk then rc_owner (sr_read_context st') \<and> reading_of st' = Some path \<and> (\<exists>data. fs_of st path = Some (Regular data))
     else st' = st)"
  using ok br
proof (cases rule: begin_read_form)
  case (opened i)
  have fs: "fs_of st' = fs_of st" by (rule fs_of_cong) (simp_all add: opened(8))
  have "storage_ok st'" using ok opened(4-8) by (simp add: storage_ok_def read_context_ok_def)
  then show ?thesis using opened(1,3,6,7) fs
    by (simp add: opened(8) reading_of_def fs_of_def node_of_def)
qed (use ok in simp)

lemma close_read_ok:
  "storage_ok st \<Longrightarrow> storage_ok (close_read_cb st) \<and> fs_of (close_read_cb st) = fs_of st"
  using fs_of_cong [of "close_read_cb st" st]
  by (auto simp: close_read_cb_def storage_ok_def read_context_ok_def null_read_context_def)

text \<open>A successful read returns the requested slice of the file, cut at its end.\<close>

lemma arena_read_slice: "off + k \<le> n \<Longrightarrow> arena_read A (a + off) k = take k (drop off (arena_read A a n))"
  by (intro nth_equalityI) (auto simp: arena_read_def add.assoc)

lemma read_impl_refines:
  assumes ok: "storage_ok st" and owner: "rc_owner (sr_read_context st)"
    and r: "read_impl offset requested st = (e, out)"
  shows "\<exists>path data. reading_of st = Some path \<and> fs_of st path = Some (Regular data) \<and>
    (if unat offset \<le> length data then e = StOk \<and> out = take requested (drop (unat offset) data) else e = StOutOfRange)"
proof -
  obtain i where i: "i < kMaxEntries" "rc_entry (sr_read_context st) = Some i" "visible (sr_entries st ! i)"
      "en_type (sr_entries st ! i) = FileEntry"
    using storage_okD(8) [OF ok] owner by (auto simp: read_context_ok_def)
  let ?e = "sr_entries st ! i"
  let ?data = "data_of (sr_arena st) (sr_blocks st) ?e"
  have rd: "reading_of st = Some (en_path ?e)" using owner i by (simp add: reading_of_def)
  have fs: "fs_of st (en_path ?e) = Some (Regular ?data)"
    using sr_find_unique [OF storage_okD(1,6) [OF ok] i(1,3)] i(4)
    by (simp add: fs_of_def node_of_def)
  have eo: "entry_ok (sr_blocks st) ?e" "en_used ?e" using storage_okD(3) [OF ok i(1)] i(3) by (simp_all add: visible_def)
  have len: "length ?data = unat (en_size ?e)"
    using eo by (auto simp: entry_ok_def data_of_def arena_read_def split: option.splits)
  have "if unat offset \<le> length ?data then e = StOk \<and> out = take requested (drop (unat offset) ?data) else e = StOutOfRange"
  proof (cases "offset \<le> en_size ?e")
    case False
    then show ?thesis using r i(2) len by (simp add: read_impl_def Let_def word_le_nat_alt word_less_nat_alt split: if_splits)
  next
    case True
    then have le: "unat offset \<le> unat (en_size ?e)" "unat (en_size ?e - offset) = unat (en_size ?e) - unat offset"
      by (simp_all add: word_le_nat_alt unat_sub_le)
    show ?thesis
    proof (cases "min requested (unat (en_size ?e - offset)) = 0")
      case zero: True
      then have "(e, out) = (StOk, [])" using r i(2) True by (simp add: read_impl_def Let_def not_less [symmetric] split: if_splits)
      then show ?thesis using zero le len by (auto simp: min_def split: if_splits)
    next
      case nz: False
      then obtain b where b: "en_block ?e = Some b" using eo le by (auto simp: entry_ok_def split: option.splits)
      have "e = StOk" "out = arena_read (sr_arena st) (bl_offset (sr_blocks st ! b) + unat offset)
          (min requested (unat (en_size ?e - offset)))"
        using r i(2) True nz b by (simp_all add: read_impl_def Let_def not_less split: if_splits)
      moreover have "?data = arena_read (sr_arena st) (bl_offset (sr_blocks st ! b)) (unat (en_size ?e))"
        using b by (simp add: data_of_def)
      moreover have "take (min requested (unat (en_size ?e) - unat offset)) (drop (unat offset) ?data) =
          take requested (drop (unat offset) ?data)"
        using len by (simp add: min_def)
      ultimately show ?thesis
        using le len
          arena_read_slice [of "unat offset" "min requested (unat (en_size ?e) - unat offset)" "unat (en_size ?e)"]
        by simp
    qed
  qed
  with rd fs show ?thesis by blast
qed

end
