(* ===== verification/Storage_Spec.thy ===== *)
theory Storage_Spec
  imports Storage_Invariant
begin

section \<open>Reachable storages and the file-system specification\<close>

text \<open>
  The client's operations as a datatype, their execution on the RAM storage, and the specification they
  refine: a map from paths to nodes, one staged upload and one open reader. \<open>storage_reachable\<close> holds of
  the states that sequences of operations reach from \<^verbatim>\<open>init\<close>.
\<close>

subsection \<open>Room for the initial files\<close>

definition room :: "nat \<Rightarrow> nat \<Rightarrow> Block list \<Rightarrow> bool" where
  "room k n blocks \<longleftrightarrow>
     k \<le> card {i. i < kMaxBlocks \<and> bl_size (blocks ! i) = 0} \<and>
     (\<exists>i<kMaxBlocks. \<not> bl_used (blocks ! i) \<and> n \<le> bl_size (blocks ! i))"

lemma split_slot_exists:
  assumes "blocks_ok blocks" "room (Suc k) n blocks"
  shows "split_slot blocks \<noteq> None"
proof -
  have "{i. i < kMaxBlocks \<and> bl_size (blocks ! i) = 0} \<noteq> {}"
    using assms(2) by (auto simp: room_def simp del: Collect_empty_eq)
  then show ?thesis using assms(1) by (auto simp: split_slot_def first_index_None_nth blocks_ok_def)
qed

lemma allocate_from_room:
  assumes ok: "blocks_ok blocks" and rm: "room (Suc k) (n + m) blocks" and pos: "0 < n" "0 < m"
    and i: "i \<in> set idx" "i < kMaxBlocks" "\<not> bl_used (blocks ! i)" "n + m \<le> bl_size (blocks ! i)"
    and sub: "set idx \<subseteq> {..<kMaxBlocks}"
  shows "\<exists>b blocks'. allocate_from idx n blocks = (Some b, blocks') \<and> room k m blocks'"
  using i(1) sub
proof (induction idx)
  case (Cons j idx)
  let ?b = "blocks ! j"
  have j: "j < kMaxBlocks" and len: "length blocks = kMaxBlocks" using Cons.prems ok by (auto simp: blocks_ok_def)
  let ?empty = "\<lambda>bs. {i. i < kMaxBlocks \<and> bl_size (bs ! i) = 0}"
  have fin: "finite (?empty bs)" for bs by simp
  consider (skip) "bl_size ?b = 0 \<or> bl_used ?b \<or> bl_size ?b < n"
    | (exact) "\<not> bl_used ?b" "bl_size ?b = n" | (big) "\<not> bl_used ?b" "n < bl_size ?b" by linarith
  then show ?case
  proof cases
    case skip
    then have "i \<in> set idx" using Cons.prems i(3,4) pos by auto
    then show ?thesis using Cons skip by simp
  next
    case exact
    let ?bs = "blocks[j := ?b\<lparr>bl_used := True\<rparr>]"
    have "?empty ?bs = ?empty blocks" using j len by (auto simp: nth_list_update)
    moreover have "i \<noteq> j" using exact i(4) pos by auto
    then have "\<not> bl_used (?bs ! i)" "m \<le> bl_size (?bs ! i)" using i len by auto
    ultimately have "room k m ?bs" using rm i(2) unfolding room_def by auto
    then show ?thesis using exact pos by (simp add: Let_def)
  next
    case big
    obtain s where s: "split_slot blocks = Some s" using split_slot_exists [OF ok rm] by blast
    then have s': "s < kMaxBlocks" "bl_size (blocks ! s) = 0" "s \<noteq> j"
      using first_index_Some [OF s [unfolded split_slot_def]] len big by auto
    let ?bs = "blocks[s := \<lparr>bl_offset = bl_offset ?b + n, bl_size = bl_size ?b - n, bl_used = False\<rparr>,
      j := ?b\<lparr>bl_size := n, bl_used := True\<rparr>]"
    have "?empty blocks - {s} \<subseteq> ?empty ?bs" using j s' len big by (auto simp: nth_list_update)
    then have "card (?empty blocks - {s}) \<le> card (?empty ?bs)" by (rule card_mono [OF fin])
    moreover have "card (?empty blocks - {s}) = card (?empty blocks) - 1" using s' by simp
    ultimately have "k \<le> card (?empty ?bs)" using rm unfolding room_def by linarith
    moreover have "\<exists>i<kMaxBlocks. \<not> bl_used (?bs ! i) \<and> m \<le> bl_size (?bs ! i)"
    proof (cases "i = j")
      case True
      then show ?thesis using s' i(4) len by (intro exI [of _ s]) simp
    next
      case False
      moreover have "i \<noteq> s" using i(4) s'(2) pos by auto
      ultimately show ?thesis using i by (intro exI [of _ i]) simp
    qed
    ultimately have "room k m ?bs" by (simp add: room_def)
    then show ?thesis using big s by (simp add: Let_def)
  qed
qed simp

lemma allocate_block_room:
  assumes "blocks_ok blocks" "room (Suc k) (n + m) blocks" "0 < n" "0 < m" "n \<le> kArenaBytes"
  obtains b blocks' where "allocate_block n blocks = (Some b, blocks')" "room k m blocks'"
proof -
  obtain i where i: "i < kMaxBlocks" "\<not> bl_used (blocks ! i)" "n + m \<le> bl_size (blocks ! i)"
    using assms(2) by (auto simp: room_def)
  have "i \<in> set [0..<kMaxBlocks]" "set [0..<kMaxBlocks] \<subseteq> {..<kMaxBlocks}" using i(1) by auto
  from allocate_from_room [OF assms(1-4) this(1) i this(2)] that assms show thesis
    by (auto simp: allocate_block_def)
qed

subsection \<open>Initialisation\<close>

definition seeded :: "bytes set \<Rightarrow> nat \<Rightarrow> nat \<Rightarrow> 'x StorageRam_scheme \<Rightarrow> bool" where
  "seeded paths k n st \<longleftrightarrow>
     storage_ok st \<and> \<not> wc_owner (sr_write_context st) \<and> \<not> rc_owner (sr_read_context st) \<and>
     (\<forall>i<kMaxEntries. visible (sr_entries st ! i) \<longrightarrow> en_path (sr_entries st ! i) \<in> paths) \<and>
     room k n (sr_blocks st)"

lemma committed_when_idle:
  assumes "storage_ok st" "\<not> wc_owner (sr_write_context st)" "i < kMaxEntries" "en_used (sr_entries st ! i)"
  shows "visible (sr_entries st ! i)"
  using storage_okD(7) [OF assms(1)] assms by (auto simp: write_context_ok_def visible_def)

text \<open>A committed entry put into a free slot, with a fresh block or none.\<close>

lemma insert_entry_ok:
  assumes ok: "storage_ok st" and idle: "\<not> wc_owner (sr_write_context st)"
    and s: "s < kMaxEntries" "\<not> en_used (sr_entries st ! s)"
    and new: "visible e" "en_block e = block" "en_size e \<le> kMaxFileBytes"
    and f: "fresh_block (en_size e) block (sr_blocks st) blocks"
    and path: "\<forall>i<kMaxEntries. visible (sr_entries st ! i) \<longrightarrow> en_path (sr_entries st ! i) \<noteq> en_path e"
    and st': "sr_entries st' = (sr_entries st)[s := e]" "sr_blocks st' = blocks"
      "sr_read_context st' = sr_read_context st" "sr_write_context st' = sr_write_context st"
  shows "storage_ok st'"
proof -
  define es where "es = sr_entries st"
  define es' where "es' = sr_entries st'"
  note d = storage_okD [OF ok, folded es_def] and s = s [folded es_def]
  note fk = fresh_block_keeps [OF d(2) f]
  have at: "es' ! i = (if i = s then e else es ! i)" if "i < kMaxEntries" for i
    using that d(1) s(1) by (simp add: es'_def es_def st'(1))
  have len: "length es' = kMaxEntries" using d(1) by (simp add: es'_def es_def st'(1))
  have ue: "en_used e" "en_committed e" using new(1) by (simp_all add: visible_def)
  have vis: "visible (es ! i) \<Longrightarrow> es' ! i = es ! i \<and> i \<noteq> s" "visible (es' ! i) \<longleftrightarrow> visible (es ! i) \<or> i = s"
    if "i < kMaxEntries" for i using at [OF that] s new(1) by (auto simp: visible_def)
  have "entry_ok blocks (es' ! i)" if "i < kMaxEntries" for i
    using at [OF that] fk(2) [OF d(3) [OF that]] fk(4) [OF new(3) refl new(2)]
    by (cases "en_used (es ! i)") (auto simp: entry_ok_def)
  moreover have "sole_owners es'"
    using d(4) at fk(2) [OF d(3)] new(2) unfolding sole_owners_def by (smt (verit, best))
  moreover have "no_leak blocks es'"
    using d(5) at fk(3) s new(2) ue unfolding no_leak_def by metis
  moreover have "unique_paths es'"
    using d(6) vis path at unfolding unique_paths_def es_def [symmetric] by metis
  moreover have "read_context_ok es' (sr_read_context st)" using d(8) vis unfolding read_context_ok_def by metis
  moreover have "write_context_ok es' (sr_write_context st)"
    using d(7) idle at ue by (simp add: write_context_ok_def)
  ultimately show ?thesis
    unfolding storage_ok_def st'(2-4) es'_def [symmetric] using len fk(1) by blast
qed

lemma add_entry_cases:
  assumes "storable path" "length (sr_entries st) = kMaxEntries"
  obtains (full) "add_entry path type st = (None, st)"
    | (added) s where "s < kMaxEntries" "\<not> en_used (sr_entries st ! s)"
      "add_entry path type st = (Some s, st\<lparr>sr_entries := (sr_entries st)
         [s := default_entry\<lparr>en_used := True, en_committed := True, en_type := type, en_path := path\<rparr>]\<rparr>)"
proof (cases "find_free_entry st")
  case None
  then show ?thesis using full by (simp add: add_entry_def)
next
  case (Some s)
  from first_index_Some [OF Some [unfolded find_free_entry_def]] show ?thesis
    using added [of s] Some copy_path_storable [OF assms(1)] assms(2) by (simp add: add_entry_def)
qed

lemma add_entry_seeded:
  assumes "seeded paths k n st" "storable path" "path \<notin> paths"
  shows "seeded (insert path paths) k n (snd (add_entry path type st))"
proof -
  note sd = assms(1) [unfolded seeded_def]
  have ok: "storage_ok st" and len: "length (sr_entries st) = kMaxEntries" using sd storage_okD(1) by blast+
  from assms(2) len show ?thesis
  proof (cases rule: add_entry_cases [where type = type])
    case full
    then show ?thesis using assms(1) by (auto simp: seeded_def)
  next
    case (added s)
    let ?e = "default_entry\<lparr>en_used := True, en_committed := True, en_type := type, en_path := path\<rparr>"
    have "storage_ok (snd (add_entry path type st))"
      by (rule insert_entry_ok [OF ok _ added(1,2), where e = ?e and block = None and blocks = "sr_blocks st"])
        (use sd assms(3) added(3) in \<open>auto simp: visible_def default_entry_def fresh_block_def\<close>)
    then show ?thesis using sd added(1,3) len by (auto simp: seeded_def nth_list_update visible_def)
  qed
qed

lemma room_mono: "room (Suc k) (n + m) blocks \<Longrightarrow> room k m blocks"
  unfolding room_def by (meson Suc_leD add_leD2 order_trans)

lemma seed_file_seeded:
  assumes sd: "seeded paths (Suc k) (length data + m) st" and p: "storable path" "path \<notin> paths"
    and len: "0 < length data" "length data \<le> 1024" "0 < m"
  shows "seeded (insert path paths) k m (seed_file path data st)"
proof -
  note sd = sd [unfolded seeded_def]
  have ok: "storage_ok st" and el: "length (sr_entries st) = kMaxEntries" using sd storage_okD(1) by blast+
  from p(1) el show ?thesis
  proof (cases rule: add_entry_cases [where type = FileEntry])
    case full
    then show ?thesis using sd room_mono by (auto simp: seeded_def seed_file_def)
  next
    case (added s)
    obtain b blocks where al: "allocate_block (length data) (sr_blocks st) = (Some b, blocks)" "room k m blocks"
      using allocate_block_room [of "sr_blocks st" k "length data" m] sd storage_okD(2) [OF ok] len
      by (auto simp: kArenaBytes_def)
    let ?e = "default_entry\<lparr>en_used := True, en_committed := True, en_type := FileEntry, en_path := path,
      en_size := word_of_nat (length data), en_block := Some b\<rparr>"
    let ?st = "st\<lparr>sr_entries := (sr_entries st)[s := ?e], sr_blocks := blocks,
      sr_arena := arena_write (sr_arena st) (bl_offset (blocks ! b)) data\<rparr>"
    have st': "seed_file path data st = ?st"
      using added al el by (simp add: seed_file_def)
    have u: "unat (word_of_nat (length data) :: u64) = length data"
      using len by (simp add: unat_of_nat take_bit_nat_eq_self_iff)
    have "allocated (length data) b (sr_blocks st) blocks"
      using allocate_block_cases [OF storage_okD(2) [OF ok] al(1)] by simp
    then have f: "fresh_block (en_size ?e) (Some b) (sr_blocks st) blocks" using u by (simp add: fresh_block_def)
    have "storage_ok ?st"
      by (rule insert_entry_ok [OF ok _ added(1,2) _ _ _ f])
        (use sd p(2) u len in \<open>auto simp: visible_def default_entry_def kMaxFileBytes_def word_le_nat_alt\<close>)
    then show ?thesis
      unfolding st' using sd added(1) el al(2) by (auto simp: seeded_def nth_list_update visible_def)
  qed
qed

lemma fold_add_seeded:
  "seeded paths k n st \<Longrightarrow> list_all storable ps \<Longrightarrow> distinct ps \<Longrightarrow> set ps \<inter> paths = {} \<Longrightarrow>
   seeded (paths \<union> set ps) k n (fold (\<lambda>path st. snd (add_entry path type st)) ps st)"
proof (induction ps arbitrary: paths st)
  case (Cons p ps)
  from Cons.prems have "seeded (insert p paths) k n (snd (add_entry p type st))"
    by (intro add_entry_seeded) auto
  from Cons.IH [OF this] Cons.prems show ?case by auto
qed simp

lemma fold_seed_seeded:
  "seeded paths (length fs + k) (sum_list (map (length \<circ> snd) fs) + m) st \<Longrightarrow>
   list_all (\<lambda>f. storable (fst f) \<and> 0 < length (snd f) \<and> length (snd f) \<le> 1024) fs \<Longrightarrow>
   distinct (map fst fs) \<Longrightarrow> set (map fst fs) \<inter> paths = {} \<Longrightarrow> 0 < m \<Longrightarrow>
   seeded (paths \<union> set (map fst fs)) k m (fold (\<lambda>f. seed_file (fst f) (snd f)) fs st)"
proof (induction fs arbitrary: paths st)
  case (Cons f fs)
  from Cons.prems have
    "seeded (insert (fst f) paths) (length fs + k) (sum_list (map (length \<circ> snd) fs) + m) (seed_file (fst f) (snd f) st)"
    by (intro seed_file_seeded) (auto simp: add.assoc comp_def)
  from Cons.IH [OF this] Cons.prems show ?case by auto
qed simp

lemma initial_blocks:
  defines "blocks \<equiv> (replicate kMaxBlocks default_block)[0 := \<lparr>bl_offset = 0, bl_size = kArenaBytes, bl_used = False\<rparr>]"
  shows "blocks_ok blocks" "room 63 kArenaBytes blocks" "\<forall>i<kMaxBlocks. \<not> bl_used (blocks ! i)"
proof -
  have c: "covers (replicate n default_block) a = 0" for n a by (induction n) (simp_all add: covers_def)
  have "covers blocks a = of_bool (a < kArenaBytes)" for a
    using covers_update [of 0 "replicate kMaxBlocks default_block" "\<lparr>bl_offset = 0, bl_size = kArenaBytes, bl_used = False\<rparr>" a]
      c [of kMaxBlocks a]
    by (simp add: kMaxBlocks_def blocks_def) (simp add: span_def)
  moreover have "set blocks \<subseteq> {\<lparr>bl_offset = 0, bl_size = kArenaBytes, bl_used = False\<rparr>, default_block}"
    unfolding blocks_def
    by (rule subset_trans [OF set_update_subset_insert]) (auto simp: set_replicate_conv_if)
  then have "\<forall>b\<in>set blocks. bl_size b = 0 \<longrightarrow> b = default_block" by (auto simp: kArenaBytes_def)
  ultimately show "blocks_ok blocks" by (simp add: blocks_ok_def blocks_def)
  have nth: "blocks ! i = (if i = 0 then \<lparr>bl_offset = 0, bl_size = kArenaBytes, bl_used = False\<rparr> else default_block)"
    if "i < kMaxBlocks" for i using that by (simp add: blocks_def)
  have "{i. i < kMaxBlocks \<and> bl_size (blocks ! i) = 0} = {1..<kMaxBlocks}"
    using nth by (auto simp: kArenaBytes_def split: if_splits)
  then have "card {i. i < kMaxBlocks \<and> bl_size (blocks ! i) = 0} = 63" by (simp add: kMaxBlocks_def)
  moreover have "\<exists>i<kMaxBlocks. \<not> bl_used (blocks ! i) \<and> kArenaBytes \<le> bl_size (blocks ! i)"
    by (rule exI [of _ 0]) (simp add: nth kMaxBlocks_def)
  ultimately show "room 63 kArenaBytes blocks" by (simp add: room_def)
  show "\<forall>i<kMaxBlocks. \<not> bl_used (blocks ! i)" using nth by simp
qed

lemma cleared_seeded: "seeded {} 63 kArenaBytes (storage_cleared st)"
  using initial_blocks
  by (simp add: seeded_def storage_cleared_def storage_ok_def entry_ok_def sole_owners_def no_leak_def
      unique_paths_def visible_def write_context_ok_def read_context_ok_def null_write_context_def
      null_read_context_def default_entry_def)

definition seed_dirs :: "bytes list" where
  "seed_dirs = [ascii ''/'', ascii ''/seed'', ascii ''/upload'', ascii ''/long'']"

definition seed_files :: "(bytes \<times> bytes) list" where
  "seed_files = (ascii ''/seed/existing.bin'', map (\<lambda>i. word_of_nat (0xa0 + i)) [0..<37]) #
     map (\<lambda>page. (ascii ''/seed/page-'' @ decimal2 page @ ascii ''.bin'',
        map (\<lambda>i. word_of_nat (page * 17 + i)) [0..<16 + page])) [0..<12]"

lemma storage_init_folds:
  "storage_init st = fold (\<lambda>path st. snd (add_entry path FileEntry st)) (map long_name [0..<6])
     (fold (\<lambda>f. seed_file (fst f) (snd f)) seed_files
       (fold (\<lambda>path st. snd (add_entry path DirectoryEntry st)) seed_dirs (storage_cleared st)))"
proof -
  have sp: "seed_page = (\<lambda>page. seed_file (ascii ''/seed/page-'' @ decimal2 page @ ascii ''.bin'')
      (map (\<lambda>i. word_of_nat (page * 17 + i)) [0..<16 + page]))"
    by (rule ext)+ (simp only: seed_page_def)
  show ?thesis unfolding sp
    by (simp only: storage_init_def sp seed_files_def seed_dirs_def fold_map comp_def Let_def
        fold_simps fst_conv snd_conv)
qed

lemma seed_facts:
  "list_all storable seed_dirs" "distinct seed_dirs"
  "list_all (\<lambda>f. storable (fst f) \<and> 0 < length (snd f) \<and> length (snd f) \<le> 1024) seed_files"
  "distinct (map fst seed_files)" "list_all (\<lambda>p. p \<notin> set seed_dirs) (map fst seed_files)"
  "list_all storable (map long_name [0..<6])" "distinct (map long_name [0..<6])"
  "list_all (\<lambda>p. p \<notin> set seed_dirs \<and> p \<notin> set (map fst seed_files)) (map long_name [0..<6])"
  "length seed_files = 13" "sum_list (map (length \<circ> snd) seed_files) = 295"
  by code_simp+

lemma storage_init_seeded:
  "seeded (set seed_dirs \<union> set (map fst seed_files) \<union> set (map long_name [0..<6])) 50 1000 (storage_init st)"
proof -
  have 1: "seeded ({} \<union> set seed_dirs) 63 kArenaBytes
      (fold (\<lambda>path st. snd (add_entry path DirectoryEntry st)) seed_dirs (storage_cleared st))"
    by (rule fold_add_seeded [OF cleared_seeded seed_facts(1,2)]) simp
  have "seeded paths 63 kArenaBytes st \<Longrightarrow> seeded paths (13 + 50) (295 + 1000) st" for paths and st :: "'a StorageRam_scheme"
    by (auto simp: seeded_def room_def kArenaBytes_def intro: order_trans)
  from fold_seed_seeded [OF this [OF 1, folded seed_facts(9,10)] seed_facts(3,4)] seed_facts(5)
  have 2: "seeded ({} \<union> set seed_dirs \<union> set (map fst seed_files)) 50 1000
      (fold (\<lambda>f. seed_file (fst f) (snd f)) seed_files
        (fold (\<lambda>path st. snd (add_entry path DirectoryEntry st)) seed_dirs (storage_cleared st)))"
    by (auto simp: list_all_iff)
  show ?thesis
    unfolding storage_init_folds using fold_add_seeded [OF 2 seed_facts(6,7), of FileEntry] seed_facts(8)
    by (auto simp: list_all_iff)
qed

subsection \<open>Operations and their specification\<close>

datatype storage_op =
  OpenWrite bytes u64 bool | WriteAt u64 bytes | Commit | AbortWrite
  | OpenRead bytes | ReadAt u64 nat | CloseRead

type_synonym 'x storage_result = "StorageError \<times> bytes \<times> 'x StorageRam_scheme"

primrec run_op :: "storage_op \<Rightarrow> 'x StorageRam_scheme \<Rightarrow> 'x storage_result" where
  "run_op (OpenWrite path size_bytes replace) st =
     (let (e, st) = begin_write_impl path size_bytes replace st in (e, [], st))"
| "run_op (WriteAt offset data) st =
     (case write_cb offset data st of None \<Rightarrow> (StWriteFailed, [], st) | Some (e, st) \<Rightarrow> (e, [], st))"
| "run_op Commit st =
     (case commit_cb st of None \<Rightarrow> (StCommitFailed, [], st) | Some (e, st) \<Rightarrow> (e, [], st))"
| "run_op AbortWrite st = (StOk, [], abort_cb st)"
| "run_op (OpenRead path) st = (let (e, st) = begin_read_impl path st in (e, [], st))"
| "run_op (ReadAt offset requested) st =
     (case read_cb offset requested st of None \<Rightarrow> (StReadFailed, [], st) | Some (e, out) \<Rightarrow> (e, out, st))"
| "run_op CloseRead st = (StOk, [], close_read_cb st)"

definition op_storable :: "storage_op \<Rightarrow> bool" where
  "op_storable op \<longleftrightarrow> (case op of OpenWrite path _ _ \<Rightarrow> storable path | _ \<Rightarrow> True)"

definition run_ops :: "storage_op list \<Rightarrow> 'x StorageRam_scheme \<Rightarrow> 'x StorageRam_scheme" where
  "run_ops ops st = fold (\<lambda>op st. snd (snd (run_op op st))) ops st"

record afs =
  a_fs :: "bytes \<rightharpoonup> node"
  a_staged :: "(bytes \<times> bytes) option"
  a_reading :: "bytes option"

definition abs_of :: "'x StorageRam_scheme \<Rightarrow> afs" where
  "abs_of st = \<lparr>a_fs = fs_of st, a_staged = staged_of st, a_reading = reading_of st\<rparr>"

text \<open>
  The specification: \<open>fs_spec op e out a a'\<close> says that an operation may answer \<open>e\<close> and \<open>out\<close> and take the
  file system from \<open>a\<close> to \<open>a'\<close>. Files only change by the commit of a complete upload.
\<close>

inductive fs_spec :: "storage_op \<Rightarrow> StorageError \<Rightarrow> bytes \<Rightarrow> afs \<Rightarrow> afs \<Rightarrow> bool" where
  refused: "e \<noteq> StOk \<Longrightarrow> fs_spec op e out a a"
| open_write: "\<lbrakk>a_staged a = None; length data = unat n; n \<le> kMaxFileBytes;
    a_fs a path = None \<or> (replace \<and> (\<exists>old. a_fs a path = Some (Regular old)))\<rbrakk> \<Longrightarrow>
    fs_spec (OpenWrite path n replace) StOk [] a (a\<lparr>a_staged := Some (path, data)\<rparr>)"
| write_at: "\<lbrakk>a_staged a = Some (path, staged); unat offset + length data \<le> length staged\<rbrakk> \<Longrightarrow>
    fs_spec (WriteAt offset data) StOk [] a (a\<lparr>a_staged := Some (path, overwrite staged (unat offset) data)\<rparr>)"
| commit: "a_staged a = Some (path, staged) \<Longrightarrow>
    fs_spec Commit StOk [] a (a\<lparr>a_fs := (a_fs a)(path \<mapsto> Regular staged), a_staged := None\<rparr>)"
| abort_write: "fs_spec AbortWrite StOk [] a (a\<lparr>a_staged := None\<rparr>)"
| open_read: "\<lbrakk>a_reading a = None; a_fs a path = Some (Regular data)\<rbrakk> \<Longrightarrow>
    fs_spec (OpenRead path) StOk [] a (a\<lparr>a_reading := Some path\<rparr>)"
| read_at: "\<lbrakk>a_reading a = Some path; a_fs a path = Some (Regular data); unat offset \<le> length data\<rbrakk> \<Longrightarrow>
    fs_spec (ReadAt offset requested) StOk (take requested (drop (unat offset) data)) a a"
| close_read: "fs_spec CloseRead StOk [] a (a\<lparr>a_reading := None\<rparr>)"

inductive_simps fs_spec_simps: "fs_spec op e out a a'"

lemma reading_keepI:
  assumes "storage_ok st" "sr_read_context st' = sr_read_context st"
    "\<And>i. i < kMaxEntries \<Longrightarrow> visible (sr_entries st ! i) \<Longrightarrow> en_path (sr_entries st' ! i) = en_path (sr_entries st ! i)"
  shows "reading_of st' = reading_of st"
  using storage_okD(8) [OF assms(1)] assms(2,3)
  by (auto simp: reading_of_def read_context_ok_def)

lemma commit_keeps_reading:
  assumes "storage_ok st" "wc_owner (sr_write_context st)"
  shows "reading_of (snd (commit_impl st)) = reading_of st"
  using assms
proof (cases rule: commit_impl_form)
  case (replace s t)
  then show ?thesis
    using storage_okD(1) [OF assms(1)]
    by (intro reading_keepI [OF assms(1)]) (simp_all add: nth_list_update)
next
  case (create s)
  then show ?thesis
    using storage_okD(1) [OF assms(1)]
    by (intro reading_keepI [OF assms(1)]) (simp_all add: nth_list_update)
qed

lemma abort_keeps_reading:
  assumes "storage_ok st" "wc_owner (sr_write_context st)"
  shows "reading_of (abort_impl st) = reading_of st"
proof -
  obtain s where "s < kMaxEntries" "\<not> en_committed (sr_entries st ! s)"
      "abort_impl st = st\<lparr>sr_blocks := release_block (en_block (sr_entries st ! s)) (sr_blocks st),
       sr_entries := (sr_entries st)[s := default_entry], sr_write_context := null_write_context\<rparr>"
    using abort_form [OF assms] by metis
  then show ?thesis
    using storage_okD(1) [OF assms(1)]
    by (intro reading_keepI [OF assms(1)]) (auto simp: nth_list_update visible_def)
qed

lemma begin_write_keeps_reading:
  assumes "storage_ok st" "begin_write_impl path n replace st = (e, st')"
  shows "reading_of st' = reading_of st"
  using assms
proof (cases rule: begin_write_form)
  case (opened s block blocks)
  then show ?thesis
    using storage_okD(1) [OF assms(1)]
    by (intro reading_keepI [OF assms(1)]) (auto simp: nth_list_update visible_def open_staging_def)
qed simp

lemma write_keeps_reading: "write_impl offset data st = (e, st') \<Longrightarrow> reading_of st' = reading_of st"
  by (erule write_impl_cases) (simp_all add: reading_of_def)

lemma idle_unstaged: "\<not> wc_owner (sr_write_context st) \<Longrightarrow> staged_of st = None"
  by (simp add: staged_of_def)

lemma read_context_keeps_staged:
  "staged_of (st\<lparr>sr_read_context := rc\<rparr>) = staged_of st"
  by (simp add: staged_of_def)

lemma open_write_spec:
  assumes ok: "storage_ok st" and p: "storable path"
    and bw: "begin_write_impl path n replace st = (e, st')"
  shows "fs_spec (OpenWrite path n replace) e [] (abs_of st) (abs_of st')"
proof (cases "e = StOk")
  case False
  then show ?thesis using begin_write_refines [OF ok p bw] by (simp add: fs_spec.refused)
next
  case True
  from begin_write_refines [OF ok p bw] True obtain data where
    d: "fs_of st' = fs_of st" "staged_of st' = Some (path, data)" "length data = unat n" by auto
  from ok bw True show ?thesis
  proof (cases rule: begin_write_form)
    case (opened s block blocks)
    have "fs_of st path = None \<or> replace \<and> (\<exists>old. fs_of st path = Some (Regular old))"
      using opened(5,6) by (cases "sr_find path st") (auto simp: fs_of_def node_of_def)
    moreover have "abs_of st' = (abs_of st)\<lparr>a_staged := Some (path, data)\<rparr>"
      using d begin_write_keeps_reading [OF ok bw] by (simp add: abs_of_def)
    moreover have "a_staged (abs_of st) = None" "a_fs (abs_of st) = fs_of st"
      using idle_unstaged [OF opened(2)] by (simp_all add: abs_of_def)
    ultimately show ?thesis
      using True fs_spec.open_write [of "abs_of st" data n path replace] d(3) opened(3) by metis
  qed simp
qed

lemma write_at_spec:
  assumes ok: "storage_ok st" and owner: "wc_owner (sr_write_context st)"
    and w: "write_impl offset data st = (e, st')"
  shows "fs_spec (WriteAt offset data) e [] (abs_of st) (abs_of st')"
proof (cases "e = StOk")
  case False
  then show ?thesis using write_impl_refines(3) [OF ok owner w] by (simp add: fs_spec.refused)
next
  case True
  from write_impl_refines(2) [OF ok owner w True] obtain p staged where
    s: "staged_of st = Some (p, staged)" "unat offset + length data \<le> length staged"
      "staged_of st' = Some (p, overwrite staged (unat offset) data)" by blast
  then have "abs_of st' = (abs_of st)\<lparr>a_staged := Some (p, overwrite staged (unat offset) data)\<rparr>"
    using write_impl_refines(1) [OF ok owner w] write_keeps_reading [OF w] by (simp add: abs_of_def)
  moreover have "a_staged (abs_of st) = Some (p, staged)" using s(1) by (simp add: abs_of_def)
  ultimately show ?thesis using True s(2) by (simp add: fs_spec.write_at)
qed

lemma commit_spec:
  assumes ok: "storage_ok st" and owner: "wc_owner (sr_write_context st)" and c: "commit_impl st = (e, st')"
  shows "fs_spec Commit e [] (abs_of st) (abs_of st')"
proof -
  from commit_impl_refines [OF ok owner c] obtain p data where
    s: "staged_of st = Some (p, data)" "e = StOk" "fs_of st' = (fs_of st)(p \<mapsto> Regular data)" "staged_of st' = None"
    by blast
  then have "abs_of st' = (abs_of st)\<lparr>a_fs := (a_fs (abs_of st))(p \<mapsto> Regular data), a_staged := None\<rparr>"
    using commit_keeps_reading [OF ok owner] c by (simp add: abs_of_def)
  moreover have "a_staged (abs_of st) = Some (p, data)" using s(1) by (simp add: abs_of_def)
  ultimately show ?thesis using s(2) by (simp add: fs_spec.commit)
qed

lemma open_read_spec:
  assumes ok: "storage_ok st" and br: "begin_read_impl path st = (e, st')"
  shows "fs_spec (OpenRead path) e [] (abs_of st) (abs_of st')"
proof (cases "e = StOk")
  case False
  then show ?thesis using begin_read_refines [OF ok br] by (simp add: fs_spec.refused)
next
  case True
  from begin_read_refines [OF ok br] True obtain data where
    d: "fs_of st' = fs_of st" "reading_of st' = Some path" "fs_of st path = Some (Regular data)" by auto
  from ok br True have "staged_of st' = staged_of st" "reading_of st = None"
    by (cases rule: begin_read_form; simp add: read_context_keeps_staged reading_of_def)+
  then have "abs_of st' = (abs_of st)\<lparr>a_reading := Some path\<rparr>" "a_reading (abs_of st) = None"
      "a_fs (abs_of st) path = Some (Regular data)"
    using d by (simp_all add: abs_of_def)
  then show ?thesis using True by (simp add: fs_spec.open_read)
qed

lemma read_at_spec:
  assumes ok: "storage_ok st" and owner: "rc_owner (sr_read_context st)"
    and r: "read_impl offset requested st = (e, out)"
  shows "fs_spec (ReadAt offset requested) e out (abs_of st) (abs_of st)"
proof -
  from read_impl_refines [OF ok owner r] obtain path data where
    d: "a_reading (abs_of st) = Some path" "a_fs (abs_of st) path = Some (Regular data)"
      "if unat offset \<le> length data then e = StOk \<and> out = take requested (drop (unat offset) data) else e = StOutOfRange"
    by (auto simp: abs_of_def)
  then show ?thesis
    by (cases "unat offset \<le> length data") (auto intro: fs_spec.read_at [OF d(1,2)] fs_spec.refused)
qed

lemma close_read_spec:
  assumes "storage_ok st"
  shows "fs_spec CloseRead StOk [] (abs_of st) (abs_of (close_read_cb st))"
proof -
  have "abs_of (close_read_cb st) = (abs_of st)\<lparr>a_reading := None\<rparr>"
    using close_read_ok [OF assms]
    by (auto simp: abs_of_def close_read_cb_def reading_of_def read_context_keeps_staged null_read_context_def)
  then show ?thesis by (simp add: fs_spec.close_read)
qed

lemma abort_write_spec:
  assumes "storage_ok st"
  shows "storage_ok (abort_cb st)" "fs_spec AbortWrite StOk [] (abs_of st) (abs_of (abort_cb st))"
proof -
  have "abs_of (abort_cb st) = (abs_of st)\<lparr>a_staged := None\<rparr>"
    using abort_impl_refines [OF assms] abort_keeps_reading [OF assms] idle_unstaged [of st]
    by (cases "wc_owner (sr_write_context st)") (simp_all add: abort_cb_def abs_of_def)
  then show "fs_spec AbortWrite StOk [] (abs_of st) (abs_of (abort_cb st))" by (simp add: fs_spec.abort_write)
  show "storage_ok (abort_cb st)" using abort_impl_refines(1) [OF assms] assms by (simp add: abort_cb_def)
qed

lemma run_op_refines:
  assumes ok: "storage_ok st" and p: "op_storable op" and r: "run_op op st = (e, out, st')"
  shows "storage_ok st' \<and> fs_spec op e out (abs_of st) (abs_of st')"
proof (cases op)
  case (OpenWrite path n replace)
  then have b: "begin_write_impl path n replace st = (e, st')" "out = []" "storable path"
    using r p by (auto simp: op_storable_def split: prod.splits)
  then show ?thesis using open_write_spec [OF ok b(3,1)] begin_write_refines [OF ok b(3,1)] OpenWrite by simp
next
  case (WriteAt offset data)
  then have "write_impl offset data st = (e, st') \<and> out = []" if "wc_owner (sr_write_context st)"
    using r that by (auto simp: write_cb_def split: prod.splits)
  then show ?thesis using r WriteAt ok write_at_spec [OF ok] write_impl_ok [OF ok]
    by (cases "wc_owner (sr_write_context st)") (auto simp: write_cb_def fs_spec.refused)
next
  case Commit
  then have "commit_impl st = (e, st') \<and> out = []" if "wc_owner (sr_write_context st)"
    using r that by (auto simp: commit_cb_def split: prod.splits)
  then show ?thesis using r Commit ok commit_spec [OF ok] commit_impl_ok [OF ok]
    by (cases "wc_owner (sr_write_context st)") (auto simp: commit_cb_def fs_spec.refused)
next
  case AbortWrite
  then show ?thesis using r abort_write_spec [OF ok] by auto
next
  case (OpenRead path)
  then have b: "begin_read_impl path st = (e, st')" "out = []" using r by (auto split: prod.splits)
  then show ?thesis using open_read_spec [OF ok b(1)] begin_read_refines [OF ok b(1)] OpenRead by simp
next
  case (ReadAt offset requested)
  then show ?thesis using r ok read_at_spec [OF ok]
    by (cases "rc_owner (sr_read_context st)") (auto simp: read_cb_def fs_spec.refused split: prod.splits)
next
  case CloseRead
  then show ?thesis using r close_read_spec [OF ok] close_read_ok [OF ok] by auto
qed

lemma run_ops_ok:
  "storage_ok st \<Longrightarrow> list_all op_storable ops \<Longrightarrow> storage_ok (run_ops ops st)"
proof (induction ops arbitrary: st)
  case (Cons op ops)
  obtain e out st' where r: "run_op op st = (e, out, st')" by (metis prod_cases3)
  with run_op_refines [OF Cons.prems(1) _ r] Cons show ?case by (simp add: run_ops_def)
qed (simp add: run_ops_def)

lemma storage_init_ok: "storage_ok (storage_init st)"
  using storage_init_seeded [of st] by (simp add: seeded_def)

lemma write_in_block:
  assumes ok: "storage_ok st" and owner: "wc_owner (sr_write_context st)" and w: "write_impl offset data st = (e, st')"
    and a: "sr_arena st' a \<noteq> sr_arena st a"
  shows "a < kArenaBytes \<and> (\<exists>s b. wc_staging (sr_write_context st') = Some s \<and>
    en_block (sr_entries st' ! s) = Some b \<and> a \<in> span (sr_blocks st' ! b))"
  using w
proof (cases rule: write_impl_cases)
  case (stored s b)
  obtain s' where "wc_staging (sr_write_context st) = Some s'" "s' < kMaxEntries" "en_used (sr_entries st ! s')"
    using write_contextE [OF ok owner] by metis
  then have b: "b < kMaxBlocks" "bl_size (sr_blocks st ! b) = unat (en_size (sr_entries st ! s))"
    using storage_okD(3) [OF ok, of s'] stored(2,4) by (auto simp: entry_ok_def)
  then have "a \<in> span (sr_blocks st ! b)"
    using a stored(5,6) by (auto simp: arena_write_def span_def split: if_splits)
  moreover have "a < kArenaBytes" using span_in_arena [OF storage_okD(2) [OF ok] b(1)] calculation by auto
  ultimately show ?thesis using stored by auto
qed (use a in simp_all)

lemma arena_change_in_block:
  assumes ok: "storage_ok st" and r: "run_op op st = (e, out, st')" and a: "sr_arena st' a \<noteq> sr_arena st a"
  shows "a < kArenaBytes \<and> (\<exists>s b. wc_staging (sr_write_context st') = Some s \<and>
    en_block (sr_entries st' ! s) = Some b \<and> a \<in> span (sr_blocks st' ! b))"
proof (cases op)
  case (OpenWrite path n replace)
  then have "begin_write_impl path n replace st = (e, st')" using r by (auto split: prod.splits)
  with ok have "sr_arena st' = sr_arena st" by (cases rule: begin_write_form) (simp_all add: open_staging_def)
  with a show ?thesis by simp
next
  case (WriteAt offset data)
  then show ?thesis using r a write_in_block [OF ok _ _ a]
    by (cases "wc_owner (sr_write_context st)") (auto simp: write_cb_def split: prod.splits)
next
  case Commit
  then have "sr_arena st' = sr_arena st"
    using r by (auto simp: commit_cb_def commit_impl_def Let_def split: if_splits option.splits)
  with a show ?thesis by simp
next
  case AbortWrite
  then show ?thesis using r a by (auto simp: abort_cb_def abort_impl_def Let_def split: if_splits option.splits)
next
  case (OpenRead path)
  then show ?thesis using r a by (auto simp: begin_read_impl_def split: if_splits option.splits)
next
  case (ReadAt offset requested)
  then show ?thesis using r a by (auto simp: read_cb_def split: if_splits prod.splits)
next
  case CloseRead
  then show ?thesis using r a by (auto simp: close_read_cb_def split: if_splits)
qed

subsection \<open>Properties\<close>

text \<open>
  (C21) Whatever sequence of operations a client runs after \<^verbatim>\<open>init\<close> (with paths that fit the path array),
  the block table cuts the arena exactly, every used entry owns exactly one block of its size, no block
  leaks, committed paths are unique and the session contexts point at entries of the right kind.
\<close>

theorem storage_invariant:
  assumes "list_all op_storable ops"
  shows "storage_ok (run_ops ops (storage_init st))"
  using run_ops_ok [OF storage_init_ok assms] .

definition blank_storage :: StorageRam where
  "blank_storage = \<lparr>sr_entries = [], sr_blocks = [], sr_arena = \<lambda>_. 7, sr_read_context = null_read_context,
     sr_write_context = null_write_context\<rparr>"

definition sample_ops :: "storage_op list" where
  "sample_ops = [OpenWrite (ascii ''/upload/a'') 3 False, WriteAt 0 [1, 2, 3], Commit]"

lemma sample_ops_storable: "list_all op_storable sample_ops"
  by (simp add: sample_ops_def op_storable_def storable_def kMaxPathBytes_def ascii_def byte_of_char_def)

theorem storage_invariant_witness:
  "storage_ok (run_ops sample_ops (storage_init blank_storage))"
  by (rule storage_invariant [OF sample_ops_storable])



text \<open>
  (C22) No operation of a reachable storage writes outside the arena: memory beyond its 256 KiB is never
  touched, and what is written lies inside the block that the upload in progress owns.
\<close>

theorem storage_in_bounds:
  assumes "list_all op_storable ops"
  shows "case run_op op (run_ops ops (storage_init st)) of (e, out, st') \<Rightarrow>
    sr_arena st' a = sr_arena (run_ops ops (storage_init st)) a \<or>
    (a < kArenaBytes \<and> (\<exists>s b. wc_staging (sr_write_context st') = Some s \<and>
       en_block (sr_entries st' ! s) = Some b \<and> a \<in> span (sr_blocks st' ! b)))"
proof -
  obtain e out st' where r: "run_op op (run_ops ops (storage_init st)) = (e, out, st')" by (metis prod_cases3)
  show ?thesis
    using arena_change_in_block [OF run_ops_ok [OF storage_init_ok assms] r, of a] unfolding r by auto
qed

theorem storage_in_bounds_witness:
  "case run_op (WriteAt 0 [1, 2, 3]) (run_ops (take 1 sample_ops) (storage_init blank_storage)) of (e, out, st') \<Rightarrow>
    sr_arena st' kArenaBytes = sr_arena (run_ops (take 1 sample_ops) (storage_init blank_storage)) kArenaBytes"
proof -
  have "list_all op_storable (take 1 sample_ops)" using sample_ops_storable by (simp add: sample_ops_def)
  from storage_in_bounds [OF this, where op = "WriteAt 0 [1, 2, 3]" and st = blank_storage and a = kArenaBytes] show ?thesis
    by (auto split: prod.splits)
qed

end
