(* ===== verification/File_Upload.thy ===== *)
theory File_Upload
  imports File_Transfer Storage_Spec
begin

section \<open>Uploads: the file service over a storage backend\<close>

text \<open>
  The composition of the transfer manager, the file service, the zero-run decoder and a storage backend.
  The locale \<open>storage_backend\<close> is the contract of a backend's write session; \<open>file_upload\<close> fixes one upload over
  such a backend and shows that the service's endpoint keeps the receiving contract of the transfer
  manager and that its write session is a target of the decoder. Both are interpreted on the RAM storage.
\<close>

subsection \<open>The contract of a backend\<close>

locale storage_backend =
  fixes api :: "'b Storage" and ok :: "'b \<Rightarrow> bool" and fs :: "'b \<Rightarrow> bytes \<rightharpoonup> node"
    and staged :: "'b \<Rightarrow> (bytes \<times> bytes) option" and session :: "'b WriteSession"
  assumes opens: "\<lbrakk>st_begin_write api = Some begin_write; ok b; storable path;
      begin_write path n replace b = (e, session', b')\<rbrakk> \<Longrightarrow>
      ok b' \<and> fs b' = fs b \<and>
      (e = StOk \<longrightarrow> session' = session \<and> (\<exists>data. staged b' = Some (path, data) \<and> length data = unat n))"
    and writes: "\<lbrakk>ws_write session = Some wr; ok b; staged b = Some (path, data); wr offset bs b = (e, b')\<rbrakk> \<Longrightarrow>
      ok b' \<and> fs b' = fs b \<and>
      (if e = StOk then unat offset + length bs \<le> length data \<and>
         staged b' = Some (path, overwrite data (unat offset) bs)
       else staged b' = Some (path, data))"
    and commits: "\<lbrakk>ws_commit session = Some commit; ok b; staged b = Some (path, data); commit b = (e, b')\<rbrakk> \<Longrightarrow>
      ok b' \<and> (if e = StOk then fs b' = (fs b)(path \<mapsto> Regular data)
               else fs b' = fs b \<and> staged b' = Some (path, data))"
    and aborts_staged: "\<lbrakk>ws_abort session = Some abort_write; ok b; staged b \<noteq> None\<rbrakk> \<Longrightarrow>
      ok (abort_write b) \<and> fs (abort_write b) = fs b"

lemma storage_error_cases: "begin_write_impl path n replace st = (e, st') \<Longrightarrow> storage_ok st \<Longrightarrow> storable path \<Longrightarrow>
  storage_ok st' \<and> fs_of st' = fs_of st \<and>
  (e = StOk \<longrightarrow> (\<exists>data. staged_of st' = Some (path, data) \<and> length data = unat n))"
  using begin_write_refines [of st path n replace e st'] by (auto split: if_splits)

lemma staged_owner: "staged_of st = Some x \<Longrightarrow> wc_owner (sr_write_context st)"
  by (auto simp: staged_of_def split: if_splits)

interpretation ram: storage_backend ram_api storage_ok fs_of staged_of ram_write_session
proof unfold_locales
  fix begin_write path n replace e session' and b b' :: "'a StorageRam_scheme"
  assume "st_begin_write ram_api = Some begin_write" "storage_ok b" "storable path"
    "begin_write path n replace b = (e, session', b')"
  then show "storage_ok b' \<and> fs_of b' = fs_of b \<and> (e = StOk \<longrightarrow> session' = ram_write_session \<and>
      (\<exists>data. staged_of b' = Some (path, data) \<and> length data = unat n))"
    using storage_error_cases [of path n replace b e b']
    by (auto simp: ram_api_def Let_def split: prod.splits)
next
  fix wr path data offset bs e and b b' :: "'a StorageRam_scheme"
  assume a: "ws_write ram_write_session = Some wr" "storage_ok b" "staged_of b = Some (path, data)"
    "wr offset bs b = (e, b')"
  then have owner: "wc_owner (sr_write_context b)" and w: "write_impl offset bs b = (e, b')"
    using staged_owner [OF a(3)] by (auto simp: ram_write_session_def write_cb_def)
  from write_impl_refines [OF a(2) owner w] write_impl_ok [OF a(2) w] a(3)
  show "storage_ok b' \<and> fs_of b' = fs_of b \<and>
      (if e = StOk then unat offset + length bs \<le> length data \<and> staged_of b' = Some (path, overwrite data (unat offset) bs)
       else staged_of b' = Some (path, data))" by auto
next
  fix commit path data e and b b' :: "'a StorageRam_scheme"
  assume a: "ws_commit ram_write_session = Some commit" "storage_ok b" "staged_of b = Some (path, data)"
    "commit b = (e, b')"
  then have owner: "wc_owner (sr_write_context b)" and c: "commit_impl b = (e, b')"
    using staged_owner [OF a(3)] by (auto simp: ram_write_session_def commit_cb_def)
  from commit_impl_refines [OF a(2) owner c] commit_impl_ok [OF a(2)] c a(3)
  show "storage_ok b' \<and> (if e = StOk then fs_of b' = (fs_of b)(path \<mapsto> Regular data)
      else fs_of b' = fs_of b \<and> staged_of b' = Some (path, data))" by auto
next
  fix abort_write :: "'a StorageRam_scheme \<Rightarrow> 'a StorageRam_scheme"
    and b :: "'a StorageRam_scheme"
  assume a: "ws_abort ram_write_session = Some abort_write" "storage_ok b" "staged_of b \<noteq> None"
  then have "wc_owner (sr_write_context b)" using staged_owner by blast
  with abort_impl_refines [OF a(2) this] a(1)
  show "storage_ok (abort_write b) \<and> fs_of (abort_write b) = fs_of b"
    by (auto simp: ram_write_session_def abort_cb_def)
qed

subsection \<open>One upload\<close>

text \<open>
  The output of the transfer manager may succeed or fail at will, but it does not touch the service and the
  backend.
\<close>

definition quiet_sink :: "(bytes \<Rightarrow> 'w \<Rightarrow> bool) option \<Rightarrow> 'w sink" where
  "quiet_sink out = map_option (\<lambda>f bs w. (f bs w, w)) out"

text \<open>
  \<open>files\<close> are the files when the upload begins, \<open>path\<close> and \<open>logical\<close> its target and size.
\<close>

locale file_upload = storage_backend api ok fs staged session
  for api :: "'b Storage" and ok fs staged session +
  fixes out :: "(bytes \<Rightarrow> 'b FileWorld \<Rightarrow> bool) option" and files :: "bytes \<rightharpoonup> node" and path :: bytes
    and logical :: u64 and encoding :: Encoding
begin

definition compressed :: bool where
  "compressed \<longleftrightarrow> encoding = ZeroRleV1"

definition upload_start :: "'b FileWorld \<Rightarrow> bool" where
  "upload_start w \<longleftrightarrow> storable path \<and> sv_storage (fw_service w) = api \<and> ok (fw_backend w) \<and> fs (fw_backend w) = files \<and>
     ec_write (core_of w) \<and> ec_path (core_of w) = path \<and> ec_logical_size (core_of w) = logical \<and>
     ec_encoding (core_of w) = encoding"

definition open_upload :: "'b emit_world \<Rightarrow> bool" where
  "open_upload s \<longleftrightarrow> ec_write (fst s) \<and> ec_write_session (fst s) = session \<and> ec_session_open (fst s) \<and>
     ec_encoding (fst s) = encoding \<and> (compressed \<longrightarrow> ec_decoder_initialized (fst s)) \<and>
     ok (snd s) \<and> fs (snd s) = files \<and> (\<exists>data. staged (snd s) = Some (path, data))"

definition buffered :: "'b emit_world \<Rightarrow> bytes \<Rightarrow> bool" where
  "buffered s xs \<longleftrightarrow> open_upload s \<and>
     (\<exists>data. staged (snd s) = Some (path, data) \<and> length data = unat logical \<and> length xs \<le> length data \<and>
        take (length xs) data = xs)"

lemma write_buffered:
  assumes "ws_write session = Some wr" "open_upload (c, b)" "wr offset bs b = (e, b')"
  shows "open_upload (c, b')"
    "e = StOk \<Longrightarrow> buffered (c, b) xs \<Longrightarrow> unat offset = length xs \<Longrightarrow> buffered (c, b') (xs @ bs)"
proof -
  obtain data where d: "ok b" "staged b = Some (path, data)" "fs b = files" using assms(2) by (auto simp: open_upload_def)
  note w = writes [OF assms(1) d(1,2) assms(3)]
  show o: "open_upload (c, b')" using w assms(2) by (auto simp: open_upload_def split: if_splits)
  assume "e = StOk" "buffered (c, b) xs" "unat offset = length xs"
  moreover from this w d(2) have "length data = unat logical" "take (length xs) data = xs"
    "length xs + length bs \<le> length data" "staged b' = Some (path, overwrite data (length xs) bs)"
    by (auto simp: buffered_def)
  moreover from this have "take (length xs + length bs) (overwrite data (length xs) bs) = xs @ bs"
    by (simp add: overwrite_def)
  ultimately show "buffered (c, b') (xs @ bs)" using o by (simp add: buffered_def length_overwrite)
qed

end

sublocale file_upload \<subseteq> rle: rle_target decoder_emit buffered open_upload
proof unfold_locales
  fix s xs offset data s'
  assume a: "buffered s xs" "unat offset = length xs" "decoder_emit offset data s = (True, s')"
  obtain c b where s: "s = (c, b)" by force
  have o: "open_upload (c, b)" using a(1) s by (simp add: buffered_def)
  obtain wr b' where "ws_write session = Some wr" "wr offset data b = (StOk, b')" "s' = (c, b')"
    using a(3) o by (auto simp: s decoder_emit_def open_upload_def split: option.splits if_splits prod.splits)
  with write_buffered(2) [OF _ o] a(1,2) s show "buffered s' (xs @ data)" by blast
next
  fix s offset data result s'
  assume a: "open_upload s" "decoder_emit offset data s = (result, s')"
  obtain c b where s: "s = (c, b)" by force
  show "open_upload s'"
  proof (cases "ws_write session")
    case None
    then show ?thesis using a by (auto simp: s decoder_emit_def open_upload_def)
  next
    case (Some wr)
    obtain e b' where w: "wr offset data b = (e, b')" by force
    have "open_upload (c, b')" using write_buffered(1) [OF Some _ w] a(1) s by blast
    with a(2) Some w show ?thesis
      by (auto simp: s decoder_emit_def open_upload_def split: if_splits)
  qed
qed

context file_upload
begin

definition upload_holds :: "'b FileWorld \<Rightarrow> bytes \<Rightarrow> bool" where
  "upload_holds w xs \<longleftrightarrow>
     (if compressed
      then open_upload (core_of w, fw_backend w) \<and> rl_emit (decoder_of w) = Some decoder_emit \<and>
        rle.received logical (decoder_of w) (core_of w, fw_backend w) xs
      else buffered (core_of w, fw_backend w) xs)"

definition upload_broken :: "'b FileWorld \<Rightarrow> bool" where
  "upload_broken w \<longleftrightarrow> ec_write (core_of w) \<and> ok (fw_backend w) \<and> fs (fw_backend w) = files \<and>
     (ec_session_open (core_of w) \<longrightarrow> ec_write_session (core_of w) = session \<and> staged (fw_backend w) \<noteq> None)"

definition upload_stored :: "'b FileWorld \<Rightarrow> bytes \<Rightarrow> bool" where
  "upload_stored w xs \<longleftrightarrow> ok (fw_backend w) \<and>
     (\<exists>data. fs (fw_backend w) = files(path \<mapsto> Regular data) \<and> length data = unat logical \<and>
        (if compressed then rle_decode xs = Some data else take (length xs) data = xs))"

definition upload_dropped :: "'b FileWorld \<Rightarrow> bool" where
  "upload_dropped w \<longleftrightarrow> ok (fw_backend w) \<and> fs (fw_backend w) = files"

lemma open_upload_cong:
  assumes "ec_write c' = ec_write c" "ec_write_session c' = ec_write_session c"
    "ec_session_open c' = ec_session_open c" "ec_encoding c' = ec_encoding c"
    "ec_decoder_initialized c' = ec_decoder_initialized c"
  shows "open_upload (c', b) = open_upload (c, b)"
  using assms by (simp add: open_upload_def)

lemma upload_holds_open: "upload_holds w xs \<Longrightarrow> open_upload (core_of w, fw_backend w)"
  by (auto simp: upload_holds_def buffered_def split: if_splits)

lemma open_upload_broken: "open_upload (core_of w, fw_backend w) \<Longrightarrow> upload_broken w"
  by (auto simp: upload_broken_def open_upload_def)

lemma begin_holds:
  assumes "upload_start w" "file_endpoint_begin HostToDevice n w = (EndpointOk, w')"
  shows "upload_holds w' []"
proof -
  let ?c = "core_of w"
  have st: "sv_storage (fw_service w) = api" "ec_write ?c" "ec_path ?c = path" "ec_logical_size ?c = logical"
      "ec_encoding ?c = encoding" "storable path" using assms(1) by (simp_all add: upload_start_def)
  obtain begin_write where bw: "st_begin_write api = Some begin_write"
    using assms(2) st(1,2) by (auto simp: file_endpoint_begin_def Let_def split: if_splits option.splits)
  obtain e session' b' where r: "begin_write path logical (ec_replace ?c) (fw_backend w) = (e, session', b')"
    by (metis prod_cases3)
  define c1 where "c1 = ?c\<lparr>ec_write_session := session', ec_storage_error := e, ec_session_open := (e = StOk)\<rparr>"
  have split: "(EndpointOk, w') =
      (if e = StOk \<and> compressed
       then (EndpointOk, put_decoder (rle_init logical (ec_wire_size ?c) (Some decoder_emit) zero_run_buffer)
          (put_core (c1\<lparr>ec_decoder_initialized := True\<rparr>) (put_backend b' w)))
       else (if e = StOk then EndpointOk else EndpointFailed, put_core c1 (put_backend b' w)))"
  proof -
    have "ec_service ?c" using assms(2) by (auto simp: file_endpoint_begin_def Let_def split: if_splits)
    then have "file_endpoint_begin HostToDevice n w =
      (if e = StOk \<and> compressed
       then (EndpointOk, put_decoder (rle_init logical (ec_wire_size ?c) (Some decoder_emit) zero_run_buffer)
          (put_core (c1\<lparr>ec_decoder_initialized := True\<rparr>) (put_backend b' w)))
       else (if e = StOk then EndpointOk else EndpointFailed, put_core c1 (put_backend b' w)))"
      using st bw r by (simp add: file_endpoint_begin_def c1_def compressed_def [symmetric])
    then show ?thesis using assms(2) by (simp only:)
  qed
  have e: "e = StOk" using split by (cases "e = StOk") simp_all
  have w': "core_of w' = (if compressed then c1\<lparr>ec_decoder_initialized := True\<rparr> else c1)"
      "fw_backend w' = b'"
      "compressed \<longrightarrow> decoder_of w' =
        rle_init logical (ec_wire_size ?c) (Some decoder_emit) zero_run_buffer"
    using split e by (cases "compressed"; simp)+
  from opens [OF bw _ st(6) r] assms(1) e obtain data where
    o: "ok b'" "fs b' = files" "session' = session" "staged b' = Some (path, data)" "length data = unat logical"
    by (auto simp: upload_start_def)
  have op: "open_upload (core_of w', b')"
    using o w'(1) st e by (simp add: open_upload_def c1_def)
  then have buf: "buffered (core_of w', b') []" using o by (simp add: buffered_def)
  show ?thesis
  proof (cases "compressed")
    case True
    have "set zero_run_buffer \<subseteq> {0}" by (auto simp: zero_run_buffer_def)
    from rle.received_init [OF buf this, of logical "ec_wire_size (core_of w)"] op True w' show ?thesis
      by (simp add: upload_holds_def rle_init_def)
  next
    case False
    then show ?thesis using buf w'(2) by (simp add: upload_holds_def)
  qed
qed

lemma consume_outcome:
  assumes "upload_holds w xs" "file_endpoint_consume offset data w = (r, w')"
  shows "r = EndpointOk \<Longrightarrow> unat offset = length xs \<Longrightarrow> upload_holds w' (xs @ data)"
    "r = EndpointFailed \<Longrightarrow> upload_broken w'"
proof -
  let ?s = "(core_of w, fw_backend w)"
  have op: "open_upload ?s" using assms(1) by (rule upload_holds_open)
  then have c: "ec_write_session (core_of w) = session" "ec_session_open (core_of w)" "ec_encoding (core_of w) = encoding"
      "compressed \<longrightarrow> ec_decoder_initialized (core_of w)"
    unfolding open_upload_def by simp_all
  have keep: "upload_broken (put_core ((core_of v)\<lparr>ec_codec_error := x, ec_failed := True\<rparr>) v) \<and>
      upload_broken (put_core ((core_of v)\<lparr>ec_failed := True\<rparr>) v) \<and>
      upload_broken (put_core ((core_of v)\<lparr>ec_storage_error := y, ec_failed := True\<rparr>) v)"
    if "open_upload (core_of v, fw_backend v)" for v x y
    using open_upload_broken [OF that] by (simp add: upload_broken_def)
  show "r = EndpointOk \<Longrightarrow> unat offset = length xs \<Longrightarrow> upload_holds w' (xs @ data)"
    "r = EndpointFailed \<Longrightarrow> upload_broken w'"
  proof (atomize (full), cases "ws_write session")
    case None
    then have "r = EndpointFailed" "w' = w" using assms(2) c by (auto simp: file_endpoint_consume_def)
    then show "(r = EndpointOk \<longrightarrow> unat offset = length xs \<longrightarrow> upload_holds w' (xs @ data)) \<and>
      (r = EndpointFailed \<longrightarrow> upload_broken w')" using open_upload_broken [OF op] by simp
  next
    case (Some wr)
    show "(r = EndpointOk \<longrightarrow> unat offset = length xs \<longrightarrow> upload_holds w' (xs @ data)) \<and>
      (r = EndpointFailed \<longrightarrow> upload_broken w')"
    proof (cases "compressed")
      case False
      obtain e b' where wr: "wr offset data (fw_backend w) = (e, b')" by force
      note wb = write_buffered [OF Some op wr]
      have "upload_holds (put_backend b' w) (xs @ data)" if "e = StOk" "unat offset = length xs"
        using wb(2) [OF that(1) _ that(2)] assms(1) False by (simp add: upload_holds_def)
      moreover have "(r, w') = (if e \<noteq> StOk then (EndpointFailed, put_core ((core_of w)
          \<lparr>ec_storage_error := e, ec_failed := True\<rparr>) (put_backend b' w)) else (EndpointOk, put_backend b' w))"
        using assms(2) c Some False wr by (simp add: file_endpoint_consume_def Let_def compressed_def [symmetric] split: if_splits)
      ultimately show ?thesis using keep [of "put_backend b' w"] wb(1) by (simp split: if_splits)
    next
      case True
      obtain x d c' b' where rc: "rle_consume (decoder_of w) offset data ?s = (x, d, c', b')" by (metis prod_cases4)
      let ?w = "put_decoder d (put_core c' (put_backend b' w))"
      have emit: "rl_emit (decoder_of w) = Some decoder_emit" and rec: "rle.received logical (decoder_of w) ?s xs"
        using assms(1) True by (simp_all add: upload_holds_def)
      note safe = rle.consume_safe [OF rc emit op]
      have ok: "upload_holds ?w (xs @ data)" if "x = RleOk"
        using rle.received_consume [OF rec, of offset data d "(c', b')"] rc that safe True by (simp add: upload_holds_def)
      show ?thesis
      proof (cases "offset = rl_wire_consumed (decoder_of w)")
        case off: False
        then have "r = EndpointFailed"
            "w' = put_core ((core_of w)\<lparr>ec_codec_error := MalformedEncoding, ec_failed := True\<rparr>) w"
          using assms(2) c Some True by (auto simp: file_endpoint_consume_def Let_def compressed_def [symmetric])
        then show ?thesis using keep [of w] op by simp
      next
        case off: True
        have "(r, w') = (case x of RleOk \<Rightarrow> (EndpointOk, ?w)
            | RleMalformed \<Rightarrow> (EndpointFailed, put_core ((core_of ?w)\<lparr>ec_codec_error := MalformedEncoding, ec_failed := True\<rparr>) ?w)
            | RleOutputFailed \<Rightarrow> (EndpointFailed, put_core ((core_of ?w)\<lparr>ec_failed := True\<rparr>) ?w))"
          using c Some True rc [unfolded off] off unfolding assms(2) [symmetric]
          by (simp add: file_endpoint_consume_def run_decoder_def Let_def compressed_def [symmetric] split: RleResult.split)
        then show ?thesis using keep [of ?w] safe ok by (cases x) simp_all
      qed
    qed
  qed
qed

lemma abort_session_fields [simp]:
  "core_of (abort_session w) = core_of w"
  by (simp add: abort_session_def split: option.split)

lemma abort_session_keeps:
  assumes "ec_write_session (core_of w) = session" "ok (fw_backend w)" "staged (fw_backend w) \<noteq> None"
  shows "ok (fw_backend (abort_session w))" "fs (fw_backend (abort_session w)) = fs (fw_backend w)"
  using assms aborts_staged by (simp_all add: abort_session_def split: option.split)

lemma finish_write_outcome:
  assumes "open_upload (core_of w, fw_backend w)" "staged (fw_backend w) = Some (path, data)" "finish_write w = (r, w')"
  shows "r = EndpointOk \<Longrightarrow> ok (fw_backend w') \<and> fs (fw_backend w') = files(path \<mapsto> Regular data)"
    "r = EndpointFailed \<Longrightarrow> upload_broken w'"
proof -
  have o: "ec_write (core_of w)" "ec_write_session (core_of w) = session" "ok (fw_backend w)" "fs (fw_backend w) = files"
    using assms(1) unfolding open_upload_def by simp_all
  obtain e w1 where c: "commit_session w = (e, w1)" by force
  have core: "core_of w1 = core_of w" using c by (auto simp: commit_session_def split: option.splits prod.splits)
  have out: "ok (fw_backend w1) \<and> (if e = StOk then fs (fw_backend w1) = files(path \<mapsto> Regular data)
      else fs (fw_backend w1) = files \<and> staged (fw_backend w1) \<noteq> None)"
  proof (cases "ws_commit session")
    case None
    then show ?thesis using c o assms(2) by (auto simp: commit_session_def)
  next
    case (Some commit)
    obtain e' b where cb: "commit (fw_backend w) = (e', b)" by force
    then have "e = e'" "w1 = put_backend b w" using c o Some by (simp_all add: commit_session_def)
    with commits [OF Some o(3) assms(2) cb] o show ?thesis by auto
  qed
  have fin: "finish_with e (if e \<noteq> StOk then abort_session w1 else w1) = (r, w')"
    using assms(3) c by (simp add: finish_write_def Let_def)
  show "r = EndpointOk \<Longrightarrow> ok (fw_backend w') \<and> fs (fw_backend w') = files(path \<mapsto> Regular data)"
    using fin out by (auto simp: finish_with_def split: if_splits)
  have "e \<noteq> StOk \<Longrightarrow> ok (fw_backend (abort_session w1)) \<and> fs (fw_backend (abort_session w1)) = files"
    using abort_session_keeps [of w1] core o out by simp
  then show "r = EndpointFailed \<Longrightarrow> upload_broken w'"
    using fin core o by (auto simp: finish_with_def upload_broken_def split: if_splits)
qed

lemma finish_outcome:
  assumes "upload_holds w xs" "file_endpoint_finish w = (r, w')"
  shows "r = EndpointOk \<Longrightarrow> upload_stored w' xs" "r = EndpointFailed \<Longrightarrow> upload_broken w'"
proof -
  let ?s = "(core_of w, fw_backend w)"
  have op: "open_upload ?s" using assms(1) by (rule upload_holds_open)
  then have c: "ec_session_open (core_of w)" "ec_write (core_of w)" "ec_encoding (core_of w) = encoding"
      "compressed \<longrightarrow> ec_decoder_initialized (core_of w)"
    unfolding open_upload_def by simp_all
  show "r = EndpointOk \<Longrightarrow> upload_stored w' xs" "r = EndpointFailed \<Longrightarrow> upload_broken w'"
  proof (atomize (full), cases compressed)
    case False
    obtain data where d: "staged (fw_backend w) = Some (path, data)" "length data = unat logical" "take (length xs) data = xs"
      using assms(1) False by (auto simp: upload_holds_def buffered_def)
    have "finish_write w = (r, w')"
      using assms(2) c False by (simp add: file_endpoint_finish_def Let_def compressed_def [symmetric])
    from finish_write_outcome [OF op d(1) this] d(2,3) False
    show "(r = EndpointOk \<longrightarrow> upload_stored w' xs) \<and> (r = EndpointFailed \<longrightarrow> upload_broken w')"
      by (auto simp: upload_stored_def)
  next
    case True
    obtain x d c' b' where rf: "rle_finish (decoder_of w) ?s = (x, d, c', b')" by (metis prod_cases4)
    let ?w = "put_decoder d (put_core c' (put_backend b' w))"
    have emit: "rl_emit (decoder_of w) = Some decoder_emit" and rec: "rle.received logical (decoder_of w) ?s xs"
      using assms(1) True by (simp_all add: upload_holds_def)
    have op': "open_upload (c', b')" using rle.finish_safe [OF rf emit op] by simp
    have fe: "(r, w') = (case x of RleOk \<Rightarrow> finish_write ?w
      | RleMalformed \<Rightarrow> (let v = abort_session (put_core ((core_of ?w)\<lparr>ec_codec_error := MalformedEncoding, ec_failed := True\<rparr>) ?w)
          in (EndpointFailed, put_core ((core_of v)\<lparr>ec_session_open := False, ec_storage_error := StOk, ec_finish_succeeded := False\<rparr>) v))
      | RleOutputFailed \<Rightarrow> (let v = abort_session (put_core ((core_of ?w)\<lparr>ec_failed := True\<rparr>) ?w)
          in (EndpointFailed, put_core ((core_of v)\<lparr>ec_session_open := False, ec_finish_succeeded := False\<rparr>) v)))"
      using c True rf unfolding assms(2) [symmetric]
      by (simp add: file_endpoint_finish_def run_decoder_def Let_def compressed_def [symmetric] split: RleResult.split)
    have dropped: "upload_broken (put_core k (abort_session (put_core j ?w)))"
      if "ec_write k" "\<not> ec_session_open k" "ec_write_session j = ec_write_session c'" for k j
      using that op' abort_session_keeps [of "put_core j ?w"] by (auto simp: upload_broken_def open_upload_def)
    have c': "ec_write c'" using op' by (simp add: open_upload_def)
    show "(r = EndpointOk \<longrightarrow> upload_stored w' xs) \<and> (r = EndpointFailed \<longrightarrow> upload_broken w')"
    proof (cases "x = RleOk")
      case x: True
      obtain out data where o: "(c', b') = ?s" "rle_decode xs = Some out" "length out = unat logical"
          "staged b' = Some (path, data)" "length data = unat logical" "take (length out) data = out"
        using rle.received_finish [OF rec, of d "(c', b')"] rf x by (auto simp: buffered_def)
      then have "data = out" by simp
      with finish_write_outcome [of ?w out r w'] op' o fe x True show ?thesis by (auto simp: upload_stored_def)
    next
      case False
      then show ?thesis using fe c' by (cases x) (auto simp: Let_def intro!: dropped)
    qed
  qed
qed

lemma abort_outcome:
  assumes "upload_broken w"
  shows "upload_dropped (file_endpoint_abort reason w)"
proof (cases "ec_session_open (core_of w)")
  case True
  then show ?thesis
    using assms abort_session_keeps [of w]
    by (auto simp: upload_broken_def upload_dropped_def file_endpoint_abort_def Let_def)
next
  case False
  then show ?thesis
    using assms by (auto simp: upload_broken_def upload_dropped_def file_endpoint_abort_def Let_def)
qed

lemma terminal_backend [simp]: "fw_backend (file_endpoint_terminal info reason w) = fw_backend w"
  by (simp add: file_endpoint_terminal_def Let_def)

end

sublocale file_upload \<subseteq> rx: receiving_endpoint "quiet_sink out" make_endpoint upload_start upload_holds upload_broken
  upload_stored upload_dropped
proof unfold_locales
  fix a :: "TerminalReason \<Rightarrow> 'b FileWorld \<Rightarrow> 'b FileWorld" and w xs reason
  assume "ep_abort make_endpoint = Some a" "upload_holds w xs"
  then show "upload_dropped (a reason w)"
    using abort_outcome open_upload_broken upload_holds_open by (auto simp: make_endpoint_def)
next
  fix t :: "TransferInfo \<Rightarrow> TerminalReason \<Rightarrow> 'b FileWorld \<Rightarrow> 'b FileWorld" and w xs info
  assume "ep_terminal make_endpoint = Some t" "upload_stored w xs"
  then show "upload_stored (t info ReasonCompleted w) xs" by (auto simp: make_endpoint_def upload_stored_def)
next
  fix t :: "TransferInfo \<Rightarrow> TerminalReason \<Rightarrow> 'b FileWorld \<Rightarrow> 'b FileWorld" and w info reason
  assume "ep_terminal make_endpoint = Some t" "upload_dropped w"
  then show "upload_dropped (t info reason w)" by (auto simp: make_endpoint_def upload_dropped_def)
qed (auto simp: make_endpoint_def quiet_sink_def dest: begin_holds consume_outcome finish_outcome abort_outcome)

interpretation ram_upload: file_upload ram_api storage_ok fs_of staged_of ram_write_session out files path logical encoding
  for out files path logical encoding
  by unfold_locales

lemma validated_storable:
  assumes "validate_path path False"
  shows "storable path" "takeWhile (\<lambda>c. c \<noteq> 0) path = path"
proof -
  have v: "path \<noteq> []" "length path \<le> kMaxPathBytes" "hd path = 0x2f" "path \<noteq> ascii ''/''" "last path \<noteq> 0x2f"
      "validate_components (tl path)"
    using assms by (auto simp: validate_path_def split: if_splits)
  then have path: "path = 0x2f # tl path" by (cases path) auto
  then have "tl path \<noteq> []" using v(4) by (cases "tl path") auto
  then have "last (tl path) \<noteq> 0x2f" using v(5) path by (metis last_ConsR)
  from validate_components_join [OF v(6) \<open>tl path \<noteq> []\<close> this] path obtain components where
    c: "list_all valid_component components" "path = join_path components" by metis
  have "0 \<notin> set c" if "valid_component c" for c
    using that by (auto simp: valid_component_def list_all_iff split: if_splits)
  then have nz: "0 \<notin> set path" using c by (auto simp: join_path_def list_all_iff)
  then show "storable path" using v(1,2) by (simp add: storable_def)
  show "takeWhile (\<lambda>c. c \<noteq> 0) path = path" using nz by (auto simp: takeWhile_eq_all_conv)
qed

lemma copy_current_endpoint [simp]: "sv_endpoint (copy_current path direction encoding logical wire sv) = sv_endpoint sv"
  by (simp add: copy_current_def)

lemma begin_empty_write_synchronous:
  "begin_empty_write path options w = ((e, Some result), w') \<Longrightarrow> br_synchronous result"
  by (auto simp: begin_empty_write_def Let_def default_begin_result_def split: option.splits prod.splits if_splits)

lemma begin_write_accepted:
  assumes "service_begin_write path options (m, w) = ((FtOk, Some result), m0, w0)" "\<not> br_synchronous result"
    and "sv_storage (fw_service w) = ram_api" "storage_ok (fw_backend w)"
  obtains ws info w1 where
    "ram_upload.upload_start (fs_of (fw_backend w)) path (wo_logical_size_bytes options) (wo_encoding options) ws"
    "begin_rx m (wo_wire_size_bytes options) make_endpoint
       \<lparr>to_transport = wo_transport options, to_window_frames = wo_window_frames options\<rparr> ws = ((ManagerOk, info), m0, w1)"
    "fw_backend w0 = fw_backend w1" "sv_endpoint (fw_service w0) = sv_endpoint (fw_service w1)"
    "wo_encoding options = Raw \<longrightarrow> wo_logical_size_bytes options = wo_wire_size_bytes options"
proof -
  let ?core = "default_core\<lparr>ec_service := True, ec_write := True, ec_replace := wo_replace options,
     ec_logical_size := wo_logical_size_bytes options, ec_wire_size := wo_wire_size_bytes options,
     ec_encoding := wo_encoding options, ec_path := takeWhile (\<lambda>c. c \<noteq> 0) path\<rparr>"
  define ws where "ws = put_endpoint \<lparr>cx_core = ?core, cx_decoder = default_decoder\<rparr> w"
  obtain error info m1 w1 where b: "begin_rx m (wo_wire_size_bytes options) make_endpoint
      \<lparr>to_transport = wo_transport options, to_window_frames = wo_window_frames options\<rparr> ws = ((error, info), m1, w1)"
    by (metis prod_cases4 surj_pair)
  have valid: "validate_path path False"
    using assms(1) by (auto simp: service_begin_write_def Let_def split: if_splits)
  have "wo_logical_size_bytes options \<noteq> 0"
    using assms(1,2)
    by (auto simp: service_begin_write_def Let_def split: if_splits prod.splits dest: begin_empty_write_synchronous)
  then have r: "error = ManagerOk" "m0 = m1"
      "fw_backend w0 = fw_backend w1" "sv_endpoint (fw_service w0) = sv_endpoint (fw_service w1)"
      "wo_encoding options = Raw \<longrightarrow> wo_logical_size_bytes options = wo_wire_size_bytes options"
    using assms(1) b unfolding ws_def by (auto simp: service_begin_write_def Let_def split: if_splits)
  have "ram_upload.upload_start (fs_of (fw_backend w)) path (wo_logical_size_bytes options) (wo_encoding options) ws"
    using assms(3,4) validated_storable [OF valid]
    by (simp add: ram_upload.upload_start_def ws_def put_endpoint_def)
  from that [OF this] b r show thesis by blast
qed

lemma upload_delivered:
  assumes "storage_ok (fw_backend w)" "sv_storage (fw_service w) = ram_api" "tm_output m = quiet_sink out"
    and "service_begin_write path options (m, w) = ((FtOk, Some result), m0, w0)" "\<not> br_synchronous result"
  shows "ram_upload.rx.delivered out (fs_of (fw_backend w)) path (wo_logical_size_bytes options) (wo_encoding options)
      message (tm_transfer_id m0) (wo_wire_size_bytes options) (m0, w0)"
    "wo_encoding options = Raw \<longrightarrow> wo_logical_size_bytes options = wo_wire_size_bytes options"
proof -
  obtain ws info w1 where b:
    "ram_upload.upload_start (fs_of (fw_backend w)) path (wo_logical_size_bytes options) (wo_encoding options) ws"
    "begin_rx m (wo_wire_size_bytes options) make_endpoint
       \<lparr>to_transport = wo_transport options, to_window_frames = wo_window_frames options\<rparr> ws = ((ManagerOk, info), m0, w1)"
    "fw_backend w0 = fw_backend w1" "sv_endpoint (fw_service w0) = sv_endpoint (fw_service w1)"
    "wo_encoding options = Raw \<longrightarrow> wo_logical_size_bytes options = wo_wire_size_bytes options"
    using begin_write_accepted [OF assms(4,5,2,1)] by blast
  show "wo_encoding options = Raw \<longrightarrow> wo_logical_size_bytes options = wo_wire_size_bytes options" by (rule b(5))
  have "ram_upload.rx.delivered out (fs_of (fw_backend w)) path (wo_logical_size_bytes options) (wo_encoding options)
      message (tm_transfer_id m0) (wo_wire_size_bytes options) (m0, w1)"
    using ram_upload.rx.delivered_begin [OF assms(3) b(1,2)] .
  then show "ram_upload.rx.delivered out (fs_of (fw_backend w)) path (wo_logical_size_bytes options) (wo_encoding options)
      message (tm_transfer_id m0) (wo_wire_size_bytes options) (m0, w0)"
    using b(3,4)
    by (simp add: rx_delivered_def Let_def ram_upload.upload_holds_def ram_upload.upload_stored_def ram_upload.upload_dropped_def)
qed

subsection \<open>Property: uploads land whole or not at all\<close>

text \<open>
  (C1) An upload to the RAM storage is atomic and exact. Once \<^verbatim>\<open>begin_write\<close> has accepted it, let any sequence
  of frames, polls and aborts follow in which CRC-valid data frames of this transfer carry bytes of some message
  at the offset they name, while the output may fail at will. As long as the transfer runs, and when it ends
  aborted, every file is as it was before. When it ends completed, exactly the target path has changed, to the
  announced bytes of the message, or for a compressed upload to their decoding, and the content has the
  announced logical size.
\<close>

theorem upload_atomic:
  assumes "storage_ok (fw_backend w)" "sv_storage (fw_service w) = ram_api" "tm_output m = quiet_sink out"
    and "service_begin_write path options (m, w) = ((FtOk, Some result), m0, w0)" "\<not> br_synchronous result"
    and "list_all (event_allowed (chunk_of message (tm_transfer_id m0))) events"
    and "manager_run events (m0, w0) = (m1, w1)"
  shows "(tm_active m1 \<or> tm_state m1 = Aborted \<longrightarrow> fs_of (fw_backend w1) = fs_of (fw_backend w)) \<and>
    (tm_state m1 = Completed \<longrightarrow> (\<exists>data. fs_of (fw_backend w1) = (fs_of (fw_backend w))(path \<mapsto> Regular data) \<and>
       length data = unat (wo_logical_size_bytes options) \<and>
       (case wo_encoding options of
          Raw \<Rightarrow> data = take (unat (wo_wire_size_bytes options)) message
        | ZeroRleV1 \<Rightarrow> rle_decode (take (unat (wo_wire_size_bytes options)) message) = Some data)))"
proof -
  note d = upload_delivered(1) [OF assms(1-5), where message = message] upload_delivered(2) [OF assms(1-5)]
  from ram_upload.rx.delivered_outcome [OF ram_upload.rx.delivered_run [OF d(1) assms(6), unfolded assms(7)]]
  have run: "tm_active m1 \<Longrightarrow> fs_of (fw_backend w1) = fs_of (fw_backend w)"
      "tm_state m1 = Aborted \<Longrightarrow> fs_of (fw_backend w1) = fs_of (fw_backend w)"
    and stored: "tm_state m1 = Completed \<Longrightarrow> unat (wo_wire_size_bytes options) \<le> length message \<and>
      ram_upload.upload_stored (fs_of (fw_backend w)) path (wo_logical_size_bytes options) (wo_encoding options)
        w1 (take (unat (wo_wire_size_bytes options)) message)"
    by (auto simp: ram_upload.upload_dropped_def dest!: ram_upload.upload_holds_open simp: ram_upload.open_upload_def)
  show ?thesis
    using run stored d(2)
    by (cases "wo_encoding options") (auto simp: ram_upload.upload_stored_def ram_upload.compressed_def)
qed

text \<open>A raw upload of three bytes to an empty storage, for the witness.\<close>

lemma write_impl_succeeds:
  assumes "storage_ok st" "staged_of st = Some (path, data)" "unat offset + length bs \<le> length data"
  shows "fst (write_impl offset bs st) = StOk"
proof -
  obtain s where s: "wc_staging (sr_write_context st) = Some s" "s < kMaxEntries" "en_used (sr_entries st ! s)"
    using write_contextE [OF assms(1) staged_owner [OF assms(2)]] by metis
  let ?e = "sr_entries st ! s"
  have data: "data = data_of (sr_arena st) (sr_blocks st) ?e"
    using assms(2) s(1) by (auto simp: staged_of_def split: if_splits)
  then have len: "length data = unat (en_size ?e)"
    using storage_okD(3) [OF assms(1) s(2)] s(3)
    by (auto simp: data_of_def entry_ok_def arena_read_def split: option.splits)
  then have "offset \<le> en_size ?e" using assms(3) by (simp add: word_le_nat_alt)
  moreover from this have "length bs \<le> unat (en_size ?e - offset)" using assms(3) len unat_sub_le by force
  moreover have "bs \<noteq> [] \<Longrightarrow> en_block ?e \<noteq> None" using assms(3) data by (cases "en_block ?e") (auto simp: data_of_def)
  ultimately show ?thesis using s(1) by (auto simp: write_impl_def Let_def)
qed

definition small_storage :: StorageRam where
  "small_storage = snd (add_entry (ascii ''/'') DirectoryEntry (storage_cleared blank_storage))"

definition small_world :: "StorageRam FileWorld" where
  "small_world = \<lparr>fw_service = service_init ram_api True kMaxFileBytes, fw_backend = small_storage\<rparr>"

definition idle_manager :: "StorageRam file_manager" where
  "idle_manager = init default_manager (quiet_sink (Some (\<lambda>_ _. True)))"

definition raw_options :: WriteOptions where
  "raw_options = \<lparr>wo_logical_size_bytes = 3, wo_wire_size_bytes = 3, wo_replace = False,
     wo_encoding = Raw, wo_transport = StopAndWait, wo_window_frames = 1\<rparr>"

lemma small_seeded: "seeded {ascii ''/''} 63 kArenaBytes small_storage"
  using add_entry_seeded [OF cleared_seeded, of "ascii ''/''"]
  by (simp add: small_storage_def storable_def kMaxPathBytes_def)

lemma small_entries: "sr_entries small_storage = (replicate kMaxEntries default_entry)
    [0 := default_entry\<lparr>en_used := True, en_committed := True, en_type := DirectoryEntry, en_path := ascii ''/''\<rparr>]"
  "\<not> wc_owner (sr_write_context small_storage)"
proof -
  have "first_index (\<lambda>e. \<not> en_used e) (replicate kMaxEntries default_entry) = Some 0"
    by (simp add: kMaxEntries_def numeral_eq_Suc default_entry_def)
  then show "sr_entries small_storage = (replicate kMaxEntries default_entry)
      [0 := default_entry\<lparr>en_used := True, en_committed := True, en_type := DirectoryEntry, en_path := ascii ''/''\<rparr>]"
    "\<not> wc_owner (sr_write_context small_storage)"
    using copy_path_storable [of "ascii ''/''"]
    by (simp_all add: small_storage_def add_entry_def storage_cleared_def find_free_entry_def storable_def
        kMaxPathBytes_def null_write_context_def split: option.split)
qed

lemma small_opens: "fst (begin_write_impl (ascii ''/a'') 3 False small_storage) = StOk"
proof -
  let ?es = "sr_entries small_storage" and ?path = "ascii ''/a''"
  have es: "?es = default_entry\<lparr>en_used := True, en_committed := True, en_type := DirectoryEntry, en_path := ascii ''/''\<rparr>
      # replicate (kMaxEntries - 1) default_entry"
    by (simp add: small_entries kMaxEntries_def numeral_eq_Suc)
  have a: "ascii ''/a'' = [0x2f, 0x61]" by code_simp
  have nope: "first_index P (replicate n default_entry) = None" if "\<not> P default_entry" for P n
    using that by (simp add: first_index_None)
  have unused: "\<not> en_used default_entry" by (simp add: default_entry_def)
  have find: "sr_find ?path small_storage = None" "sr_find (ascii ''/'') small_storage = Some 0"
    by (simp_all add: sr_find_def es nope unused a)
  moreover have "find_free_entry small_storage \<noteq> None"
    by (simp add: find_free_entry_def first_index_None es unused kMaxEntries_def)
  moreover have "parent_exists ?path small_storage"
    using find(2) by (simp add: parent_exists_def parent_path_def a es)
  moreover have "blocks_ok (sr_blocks small_storage)" "room (Suc 62) (3 + (kArenaBytes - 3)) (sr_blocks small_storage)"
    using small_seeded storage_okD(2) by (auto simp: seeded_def kArenaBytes_def)
  then obtain b blocks where "allocate_block 3 (sr_blocks small_storage) = (Some b, blocks)"
    by (rule allocate_block_room) (simp_all add: kArenaBytes_def)
  ultimately show ?thesis
    using small_entries(2) by (auto simp: begin_write_impl_def kMaxFileBytes_def Let_def)
qed

lemma raw_upload_begins:
  obtains result info w0 where
    "service_begin_write (ascii ''/a'') raw_options (idle_manager, small_world) =
       ((FtOk, Some result), fresh_manager idle_manager 3 HostToDevice make_endpoint default_options, w0)"
    "\<not> br_synchronous result"
proof -
  have v: "validate_path (ascii ''/a'') False" by code_simp
  have "begin_write_impl (ascii ''/a'') 3 False small_storage = (StOk, snd (begin_write_impl (ascii ''/a'') 3 False small_storage))"
    using small_opens by (metis prod.collapse)
  then obtain st where st: "begin_write_impl (ascii ''/a'') 3 False small_storage = (StOk, st)" by blast
  have nul: "takeWhile (\<lambda>c. c \<noteq> 0) (ascii ''/a'') = ascii ''/a''" using validated_storable(2) [OF v] .
  let ?m = "fresh_manager idle_manager 3 HostToDevice make_endpoint default_options"
  have "\<exists>info w. begin_rx idle_manager 3 make_endpoint \<lparr>to_transport = StopAndWait, to_window_frames = 1\<rparr>
      (put_endpoint \<lparr>cx_core = default_core\<lparr>ec_service := True, ec_write := True, ec_logical_size := 3, ec_wire_size := 3,
         ec_path := ascii ''/a''\<rparr>, cx_decoder = default_decoder\<rparr> small_world) = ((ManagerOk, Some info), ?m, w)"
    using st
    by (simp add: begin_rx_def begin_common_form make_endpoint_def endpoint_incomplete_def options_unsupported_def
        default_options_def Let_def file_endpoint_begin_def put_endpoint_def small_world_def service_init_def ram_api_def
        default_core_def kMaxTransferBytes_def kMaxPayloadBytes_def idle_manager_def init_def default_manager_def)
  then show thesis using that v nul
    by (auto simp: service_begin_write_def Let_def raw_options_def service_active_def small_world_def service_init_def
        idle_manager_def init_def default_manager_def write_options_unsupported_def kMaxFileBytes_def
        default_core_def default_begin_result_def)
qed

lemma raw_upload_completes:
  assumes b: "service_begin_write (ascii ''/a'') raw_options (idle_manager, small_world) = ((FtOk, Some result), m0, w0)"
      "\<not> br_synchronous result"
    and m0: "m0 = fresh_manager idle_manager 3 HostToDevice make_endpoint default_options"
  shows "tm_state (fst (manager_run [FrameEvent pattern_frame 5] (m0, w0))) = Completed"
proof -
  have ok: "storage_ok small_storage" using small_seeded by (simp add: seeded_def)
  then have sm: "storage_ok (fw_backend small_world)" "sv_storage (fw_service small_world) = ram_api"
      "tm_output idle_manager = quiet_sink (Some (\<lambda>_ _. True))"
    by (simp_all add: small_world_def service_init_def idle_manager_def init_def Let_def)
  have opts: "wo_logical_size_bytes raw_options = 3" "wo_wire_size_bytes raw_options = 3" "wo_encoding raw_options = Raw"
    by (simp_all add: raw_options_def)
  have fields: "tm_active m0" "tm_direction m0 = HostToDevice" "tm_transfer_id m0 = 1" "tm_total_bytes m0 = 3"
      "tm_transferred_bytes m0 = 0" "tm_expected_sequence m0 = 0" "tm_expected_offset m0 = 0"
      "tm_accepted_data_history_count m0 = 0" "tm_endpoint m0 = make_endpoint"
    by (simp_all add: m0 fresh_manager_def Let_def default_manager_def init_def idle_manager_def)
  let ?files = "fs_of (fw_backend small_world)" and ?path = "ascii ''/a''"
  note d = rx_delivered_active [OF upload_delivered(1) [OF sm b, where message = "[]", unfolded opts] fields(1)]
  have holds: "ram_upload.buffered ?files ?path 3 Raw (core_of w0, fw_backend w0) []"
    using d(9) fields(5) by (simp add: ram_upload.upload_holds_def ram_upload.compressed_def)
  obtain data where st: "storage_ok (fw_backend w0)" "staged_of (fw_backend w0) = Some (?path, data)" "length data = 3"
    and c: "ec_write (core_of w0)" "ec_write_session (core_of w0) = ram_write_session" "ec_session_open (core_of w0)"
      "ec_encoding (core_of w0) = Raw"
    using holds by (auto simp: ram_upload.buffered_def ram_upload.open_upload_def)
  have "fst (write_impl 0 [0, 1, 2] (fw_backend w0)) = StOk"
    using write_impl_succeeds [OF st(1,2), of 0 "[0, 1, 2]"] st(3) by simp
  then obtain b1 where w1: "write_impl 0 [0, 1, 2] (fw_backend w0) = (StOk, b1)" by (metis prod.collapse)
  have consume: "file_endpoint_consume 0 [0, 1, 2] w0 = (EndpointOk, put_backend b1 w0)"
    using c staged_owner [OF st(2)] w1
    by (simp add: file_endpoint_consume_def ram_write_session_def write_cb_def Let_def)
  have st1: "storage_ok b1" "staged_of b1 \<noteq> None"
    using write_impl_ok [OF st(1) w1] write_impl_refines(2) [OF st(1) staged_owner [OF st(2)] w1] by auto
  then have owner: "wc_owner (sr_write_context b1)" using staged_owner by blast
  from commit_impl_refines [OF st1(1) owner] obtain b2 where c1: "commit_impl b1 = (StOk, b2)" by (metis prod.collapse)
  have "\<exists>w2. file_endpoint_finish (put_backend b1 w0) = (EndpointOk, w2)"
    using c owner c1
    by (simp add: file_endpoint_finish_def finish_write_def commit_session_def ram_write_session_def commit_cb_def
        finish_with_def Let_def)
  then obtain w2 where finish: "file_endpoint_finish (put_backend b1 w0) = (EndpointOk, w2)" by blast
  obtain frame crc where f: "parse_decoded pattern_frame = Some frame"
    and frame: "frame = \<lparr>pf_structural_valid = True, pf_crc_valid = True, pf_type = Data, pf_flags = 0,
      pf_header_length = 28, pf_transfer_id = 1, pf_sequence = 0, pf_offset = 0,
      pf_payload_length = 3, pf_status = 0, pf_wire_crc = crc, pf_payload = [0, 1, 2]\<rparr>"
    using pattern_frame_parses by blast
  let ?m = "m0\<lparr>tm_activity_pending := True\<rparr>"
  have mok: "manager_ok ?m"
    using step_ok [OF tm_step.Clock [where F = "\<lambda>_. True" and m = m0 and w = w0 and pending = True
          and t = "tm_last_activity_ms m0"]] d(1) fields(1) by simp
  have acc: "rx_acceptable ?m frame" by (simp add: rx_acceptable_def fields frame)
  have "tm_transferred_bytes (accept_rx_data ?m frame) = 3"
    using accept_rx_data_form [of ?m frame] by (auto simp: fields frame)
  moreover have "finish_endpoint ?m (put_backend b1 w0) = (True, w2)"
    using finish by (simp add: finish_endpoint_def fields make_endpoint_def)
  ultimately have "tm_state (fst (handle_rx_data ?m frame w0)) = Completed"
    using handle_rx_data_final [OF mok acc, of file_endpoint_consume w0] consume
    by (simp add: fields frame make_endpoint_def)
  then show ?thesis
    by (simp add: manager_run_def handle_decoded_frame_def f fields) (simp add: frame fields)
qed

theorem upload_atomic_witness:
  "\<exists>result m0 w0 m1 w1.
     service_begin_write (ascii ''/a'') raw_options (idle_manager, small_world) = ((FtOk, Some result), m0, w0) \<and>
     manager_run [FrameEvent pattern_frame 5] (m0, w0) = (m1, w1) \<and> tm_state m1 = Completed \<and>
     fs_of (fw_backend w1) = (fs_of small_storage)(ascii ''/a'' \<mapsto> Regular [0, 1, 2])"
proof -
  let ?m0 = "fresh_manager idle_manager 3 HostToDevice make_endpoint default_options"
  obtain result w0 where b: "service_begin_write (ascii ''/a'') raw_options (idle_manager, small_world) =
      ((FtOk, Some result), ?m0, w0)" "\<not> br_synchronous result"
    using raw_upload_begins by blast
  obtain m1 w1 where run: "manager_run [FrameEvent pattern_frame 5] (?m0, w0) = (m1, w1)" by force
  have done1: "tm_state m1 = Completed" using raw_upload_completes [OF b refl] run by simp
  have ev: "list_all (event_allowed (chunk_of [0, 1, 2] (tm_transfer_id ?m0))) [FrameEvent pattern_frame 5]"
    using pattern_frame_parses by (auto simp: chunk_of_def)
  have "storage_ok (fw_backend small_world)" "sv_storage (fw_service small_world) = ram_api"
      "tm_output idle_manager = quiet_sink (Some (\<lambda>_ _. True))"
    using small_seeded by (simp_all add: small_world_def service_init_def idle_manager_def init_def Let_def seeded_def)
  from upload_atomic [OF this b ev run] done1
  have "fs_of (fw_backend w1) = (fs_of small_storage)(ascii ''/a'' \<mapsto> Regular [0, 1, 2])"
    by (simp add: raw_options_def small_world_def)
  with b run done1 show ?thesis by blast
qed

end
