(* ===== verification/File_Digest.thy ===== *)
theory File_Digest
  imports File_Upload
begin

section \<open>The digest of a stored file\<close>

text \<open>
  The \<^verbatim>\<open>sha256\<close> command over the RAM storage. The functions of mbedTLS are the parameter \<open>sha\<close>; \<open>streaming_hash\<close>
  says what the code relies on: the calls succeed, and the final call yields a function of all bytes absorbed so
  far, however they were cut into updates.
\<close>

definition streaming_hash :: "'h sha256_api \<Rightarrow> (bytes \<Rightarrow> bytes) \<Rightarrow> bool" where
  "streaming_hash sha digest \<longleftrightarrow>
     (\<exists>absorbed. (case sha_starts sha (sha_init sha) of (code, h) \<Rightarrow> code = 0 \<and> absorbed h = []) \<and>
        (\<forall>h data. case sha_update sha h data of (code, h') \<Rightarrow> code = 0 \<and> absorbed h' = absorbed h @ data) \<and>
        (\<forall>h. sha_finish sha h = (0, digest (absorbed h))))"

lemma sha256_loop_whole:
  assumes read: "\<And>offset n. unat offset \<le> length data \<Longrightarrow> read offset n b = (StOk, take n (drop (unat offset) data), b)"
    and upd: "\<And>h d. fst (sha_update sha h d) = 0 \<and> absorbed (snd (sha_update sha h d)) = absorbed h @ d"
    and len: "length data = unat size_bytes"
  shows "offset \<le> size_bytes \<Longrightarrow>
    \<exists>h'. sha256_loop sha read size_bytes offset h b = (FtOk, h', b) \<and> absorbed h' = absorbed h @ drop (unat offset) data"
proof (induction "unat (size_bytes - offset)" arbitrary: offset h rule: less_induct)
  case less
  show ?case
  proof (cases "offset < size_bytes")
    case False
    then have "drop (unat offset) data = []" using less.prems len by (simp add: word_less_nat_alt)
    then show ?thesis using False by (simp add: sha256_loop.simps [of sha read size_bytes offset])
  next
    case True
    define n where "n = min (unat (size_bytes - offset)) kSha256ChunkBytes"
    note c = chunk_advances [OF True n_def]
    let ?d = "take n (drop (unat offset) data)" and ?next = "offset + word_of_nat n"
    have lt: "unat offset \<le> length data" using True len by (simp add: word_less_nat_alt)
    have "unat (size_bytes - offset) = unat size_bytes - unat offset" using less.prems by (rule unat_sub_le)
    then have ld: "length ?d = n" using c(3) len by simp
    obtain h1 where h1: "sha_update sha h ?d = (0, h1)" "absorbed h1 = absorbed h @ ?d"
      using upd [of h ?d] by (metis prod.collapse snd_conv)
    have "unat (size_bytes - ?next) < unat (size_bytes - offset)" using c(1,2,3) by simp
    from less.hyps [OF this c(4), of h1] obtain h' where
      h': "sha256_loop sha read size_bytes ?next h1 b = (FtOk, h', b)" "absorbed h' = absorbed h1 @ drop (unat ?next) data"
      by blast
    have "?d @ drop (unat ?next) data = drop (unat offset) data"
      by (simp add: c(5) add.commute flip: drop_drop)
    then have "absorbed h' = absorbed h @ drop (unat offset) data" using h'(2) h1(2) by simp
    moreover have "sha256_loop sha read size_bytes offset h b = (FtOk, h', b)"
      using True read [OF lt, of n] h1(1) h'(1) ld
      by (simp add: sha256_loop.simps [of sha read size_bytes offset] n_def [symmetric] Let_def)
    ultimately show ?thesis by blast
  qed
qed

lemma regular_entry:
  assumes "storage_ok st" "fs_of st path = Some (Regular data)"
  obtains i where "sr_find path st = Some i" "en_type (sr_entries st ! i) = FileEntry"
    "length data = unat (en_size (sr_entries st ! i))"
proof -
  obtain i where i: "sr_find path st = Some i" "en_type (sr_entries st ! i) = FileEntry"
      "data = data_of (sr_arena st) (sr_blocks st) (sr_entries st ! i)"
    using assms(2) by (auto simp: fs_of_def node_of_def split: if_splits intro: EntryType.exhaust)
  moreover have u: "i < kMaxEntries" "en_used (sr_entries st ! i)"
    using sr_find_Some [OF i(1) storage_okD(1) [OF assms(1)]] by (auto simp: visible_def)
  have "length data = unat (en_size (sr_entries st ! i))"
    using storage_okD(3) [OF assms(1) u(1)] u(2) i(3) by (auto simp: data_of_def entry_ok_def arena_read_def split: option.splits)
  ultimately show thesis using that by blast
qed

lemma ram_session_reads:
  assumes "storage_ok st" "rc_owner (sr_read_context st)" "reading_of st = Some path" "fs_of st path = Some (Regular data)"
    and "unat offset \<le> length data"
  shows "(case read_cb offset n st of None \<Rightarrow> (StReadFailed, [], st) | Some (e, out) \<Rightarrow> (e, out, st)) =
    (StOk, take n (drop (unat offset) data), st)"
proof -
  obtain e out where r: "read_impl offset n st = (e, out)" by force
  from read_impl_refines [OF assms(1,2) r] assms(3-5) have "e = StOk" "out = take n (drop (unat offset) data)"
    by auto
  then show ?thesis using r assms(2) by (simp add: read_cb_def)
qed

lemma ram_session_closes: "rs_close ram_read_session = Some close_read_cb"
  by (simp add: ram_read_session_def)

subsection \<open>Property\<close>

text \<open>
  (C19) The digest command terminates and answers with the size and the digest of exactly the stored bytes, read in
  pieces of at most 4096 bytes in order and each once; it leaves the service and the storage as they were, the
  read session closed.
\<close>

theorem sha256_of_file:
  assumes "storage_ok (fw_backend w)" "sv_storage (fw_service w) = ram_api" "streaming_hash sha digest"
    and "validate_path path False" "\<not> tm_active m" "\<not> rc_owner (sr_read_context (fw_backend w))"
    and "fs_of (fw_backend w) path = Some (Regular data)"
  shows "service_sha256 sha path (m, w) =
    (FtOk, Some (word_of_nat (length data), format_sha256 (digest data)), m, w)"
proof -
  let ?b = "fw_backend w"
  obtain i where i: "sr_find path ?b = Some i" "en_type (sr_entries ?b ! i) = FileEntry"
      "length data = unat (en_size (sr_entries ?b ! i))"
    using regular_entry [OF assms(1,7)] by blast
  define b where "b = ?b\<lparr>sr_read_context := \<lparr>rc_owner = True, rc_entry = Some i\<rparr>\<rparr>"
  have br: "begin_read_impl path ?b = (StOk, b)" using assms(6) i by (simp add: begin_read_impl_def b_def)
  from begin_read_refines [OF assms(1) br] assms(7) have bf: "storage_ok b" "rc_owner (sr_read_context b)"
      "reading_of b = Some path" "fs_of b path = Some (Regular data)" by auto
  have "sr_read_context ?b = null_read_context"
    using storage_okD(8) [OF assms(1)] assms(6) by (simp add: read_context_ok_def)
  then have close: "close_read_cb b = ?b" by (simp add: close_read_cb_def b_def)
  obtain absorbed h0 where sha: "sha_starts sha (sha_init sha) = (0, h0)" "absorbed h0 = []"
      "\<And>h d. fst (sha_update sha h d) = 0 \<and> absorbed (snd (sha_update sha h d)) = absorbed h @ d"
      "\<And>h. sha_finish sha h = (0, digest (absorbed h))"
    using assms(3) unfolding streaming_hash_def case_prod_beta by (metis prod.collapse)
  let ?read = "\<lambda>offset requested st. case read_cb offset requested st of
      None \<Rightarrow> (StReadFailed, [], st) | Some (e, data) \<Rightarrow> (e, data, st)"
  from sha256_loop_whole [of data ?read b sha absorbed "en_size (sr_entries ?b ! i)" 0 h0,
      OF ram_session_reads [OF bf] sha(3) i(3)]
  obtain h where h: "sha256_loop sha ?read (en_size (sr_entries ?b ! i)) 0 h0 b = (FtOk, h, b)" "absorbed h = data"
    using sha(2) by auto
  have session: "sha256_session sha ram_read_session (en_size (sr_entries ?b ! i)) b = (FtOk, digest data, b)"
    using sha(1,4) h by (simp add: sha256_session_def ram_read_session_def)
  have "validate_path path True" using assms(4) by (auto simp: validate_path_def split: if_splits)
  then have "service_stat path w = (FtOk, Some \<lparr>md_type = FileEntry, md_size_bytes = en_size (sr_entries ?b ! i)\<rparr>)"
    using assms(2) i by (simp add: service_stat_def ram_api_def sr_stat_def)
  moreover have "word_of_nat (length data) = en_size (sr_entries ?b ! i)" by (simp add: i(3))
  moreover have "put_backend ?b w = w" by (simp add: put_backend_def)
  ultimately show ?thesis
    using assms(2,4,5) br session close
    by (simp add: service_sha256_def service_active_def ram_api_def ram_session_closes)
qed

text \<open>For the witness: a hash that collects what it absorbs, and a storage with the file that was uploaded above.\<close>

definition list_hash :: "bytes sha256_api" where
  "list_hash = \<lparr>sha_init = [], sha_starts = (\<lambda>h. (0, [])), sha_update = (\<lambda>h data. (0, h @ data)),
     sha_finish = (\<lambda>h. (0, rev h))\<rparr>"

lemma list_hash_streams: "streaming_hash list_hash rev"
  unfolding streaming_hash_def by (rule exI [of _ id]) (simp add: list_hash_def)

theorem sha256_of_file_witness:
  "\<exists>w :: StorageRam FileWorld. fs_of (fw_backend w) (ascii ''/a'') = Some (Regular [0, 1, 2]) \<and>
     service_sha256 list_hash (ascii ''/a'') (idle_manager, w) =
       (FtOk, Some (3, format_sha256 [2, 1, 0]), idle_manager, w)"
proof -
  define b where "b = snd (commit_impl (snd (write_impl 0 [0, 1, 2] (snd (begin_write_impl (ascii ''/a'') 3 False small_storage)))))"
  define w where "w = \<lparr>fw_service = service_init ram_api True kMaxFileBytes, fw_backend = b\<rparr>"
  have path: "storable (ascii ''/a'')" "validate_path (ascii ''/a'') False" by code_simp+
  have ok0: "storage_ok small_storage" "\<not> rc_owner (sr_read_context small_storage)"
    using small_seeded by (simp_all add: seeded_def)
  obtain b1 where b1: "begin_write_impl (ascii ''/a'') 3 False small_storage = (StOk, b1)"
    using small_opens by (metis prod.collapse)
  from begin_write_refines [OF ok0(1) path(1) b1] obtain data where
    o1: "storage_ok b1" "staged_of b1 = Some (ascii ''/a'', data)" "length data = 3" by auto
  have "fst (write_impl 0 [0, 1, 2] b1) = StOk"
    using write_impl_succeeds [OF o1(1,2), of 0 "[0, 1, 2]"] o1(3) by simp
  then obtain b2 where b2: "write_impl 0 [0, 1, 2] b1 = (StOk, b2)" by (metis prod.collapse)
  from write_impl_refines(2) [OF o1(1) staged_owner [OF o1(2)] b2] o1(2,3)
  have o2: "staged_of b2 = Some (ascii ''/a'', [0, 1, 2])" by (auto simp: overwrite_def)
  have ok2: "storage_ok b2" using write_impl_ok [OF o1(1) b2] .
  obtain e3 b3 where c3: "commit_impl b2 = (e3, b3)" by force
  from commit_impl_refines [OF ok2 staged_owner [OF o2] c3] o2
  have b3: "commit_impl b2 = (StOk, b3)" "fs_of b3 (ascii ''/a'') = Some (Regular [0, 1, 2])" using c3 by auto
  have b: "b = b3" by (simp add: b_def b1 b2 b3)
  have ok3: "storage_ok b" using commit_impl_ok [OF ok2] b3(1) b by simp
  have "reading_of b = reading_of small_storage"
    using commit_keeps_reading [OF ok2 staged_owner [OF o2]] write_keeps_reading [OF b2]
      begin_write_keeps_reading [OF ok0(1) b1] b3(1) b by simp
  then have "\<not> rc_owner (sr_read_context b)"
    using ok0(2) storage_okD(8) [OF ok3] by (auto simp: reading_of_def read_context_ok_def split: if_splits)
  moreover have "\<not> tm_active idle_manager" by (simp add: idle_manager_def init_def default_manager_def Let_def)
  ultimately have "service_sha256 list_hash (ascii ''/a'') (idle_manager, w) =
      (FtOk, Some (word_of_nat (length [0, 1, 2 :: u8]), format_sha256 (rev [0, 1, 2])), idle_manager, w)"
    using ok3 b b3(2) path(2)
    by (intro sha256_of_file) (simp_all add: w_def service_init_def list_hash_streams)
  then show ?thesis using b b3(2) by (intro exI [of _ w]) (simp add: w_def)
qed

end
