(* ===== verification/Keyboard_Input.thy ===== *)
theory Keyboard_Input
  imports Prelude
begin

section \<open>Keys and their frontend ids (np2_keyboard_input/keyboard_input.cpp)\<close>

text \<open>
  A key is one byte: \<^verbatim>\<open>enum class Key : std::uint8_t\<close> may hold any value, events come off a queue as raw
  bytes, and the code checks the range before it uses a key as an index. The enumerators are
  abbreviations; likewise the frontend ids and the actions.
\<close>

type_synonym Key = u8
type_synonym FrontendKeyId = u8
type_synonym SourceId = u8
type_synonym Action = u8

abbreviation Key_Unknown :: Key where "Key_Unknown \<equiv> 0"
abbreviation Key_Escape :: Key where "Key_Escape \<equiv> 1"
abbreviation Key_Digit1 :: Key where "Key_Digit1 \<equiv> 2"
abbreviation Key_Digit2 :: Key where "Key_Digit2 \<equiv> 3"
abbreviation Key_Digit3 :: Key where "Key_Digit3 \<equiv> 4"
abbreviation Key_Digit4 :: Key where "Key_Digit4 \<equiv> 5"
abbreviation Key_Digit5 :: Key where "Key_Digit5 \<equiv> 6"
abbreviation Key_Digit6 :: Key where "Key_Digit6 \<equiv> 7"
abbreviation Key_Digit7 :: Key where "Key_Digit7 \<equiv> 8"
abbreviation Key_Digit8 :: Key where "Key_Digit8 \<equiv> 9"
abbreviation Key_Digit9 :: Key where "Key_Digit9 \<equiv> 10"
abbreviation Key_Digit0 :: Key where "Key_Digit0 \<equiv> 11"
abbreviation Key_Minus :: Key where "Key_Minus \<equiv> 12"
abbreviation Key_Circumflex :: Key where "Key_Circumflex \<equiv> 13"
abbreviation Key_Yen :: Key where "Key_Yen \<equiv> 14"
abbreviation Key_Backspace :: Key where "Key_Backspace \<equiv> 15"
abbreviation Key_Tab :: Key where "Key_Tab \<equiv> 16"
abbreviation Key_Q :: Key where "Key_Q \<equiv> 17"
abbreviation Key_W :: Key where "Key_W \<equiv> 18"
abbreviation Key_E :: Key where "Key_E \<equiv> 19"
abbreviation Key_R :: Key where "Key_R \<equiv> 20"
abbreviation Key_T :: Key where "Key_T \<equiv> 21"
abbreviation Key_Y :: Key where "Key_Y \<equiv> 22"
abbreviation Key_U :: Key where "Key_U \<equiv> 23"
abbreviation Key_I :: Key where "Key_I \<equiv> 24"
abbreviation Key_O :: Key where "Key_O \<equiv> 25"
abbreviation Key_P :: Key where "Key_P \<equiv> 26"
abbreviation Key_At :: Key where "Key_At \<equiv> 27"
abbreviation Key_LeftBracket :: Key where "Key_LeftBracket \<equiv> 28"
abbreviation Key_Enter :: Key where "Key_Enter \<equiv> 29"
abbreviation Key_A :: Key where "Key_A \<equiv> 30"
abbreviation Key_S :: Key where "Key_S \<equiv> 31"
abbreviation Key_D :: Key where "Key_D \<equiv> 32"
abbreviation Key_F :: Key where "Key_F \<equiv> 33"
abbreviation Key_G :: Key where "Key_G \<equiv> 34"
abbreviation Key_H :: Key where "Key_H \<equiv> 35"
abbreviation Key_J :: Key where "Key_J \<equiv> 36"
abbreviation Key_K :: Key where "Key_K \<equiv> 37"
abbreviation Key_L :: Key where "Key_L \<equiv> 38"
abbreviation Key_Semicolon :: Key where "Key_Semicolon \<equiv> 39"
abbreviation Key_Colon :: Key where "Key_Colon \<equiv> 40"
abbreviation Key_RightBracket :: Key where "Key_RightBracket \<equiv> 41"
abbreviation Key_Z :: Key where "Key_Z \<equiv> 42"
abbreviation Key_X :: Key where "Key_X \<equiv> 43"
abbreviation Key_C :: Key where "Key_C \<equiv> 44"
abbreviation Key_V :: Key where "Key_V \<equiv> 45"
abbreviation Key_B :: Key where "Key_B \<equiv> 46"
abbreviation Key_N :: Key where "Key_N \<equiv> 47"
abbreviation Key_M :: Key where "Key_M \<equiv> 48"
abbreviation Key_Comma :: Key where "Key_Comma \<equiv> 49"
abbreviation Key_Period :: Key where "Key_Period \<equiv> 50"
abbreviation Key_Slash :: Key where "Key_Slash \<equiv> 51"
abbreviation Key_Underscore :: Key where "Key_Underscore \<equiv> 52"
abbreviation Key_Space :: Key where "Key_Space \<equiv> 53"
abbreviation Key_Xfer :: Key where "Key_Xfer \<equiv> 54"
abbreviation Key_RollUp :: Key where "Key_RollUp \<equiv> 55"
abbreviation Key_RollDown :: Key where "Key_RollDown \<equiv> 56"
abbreviation Key_Insert :: Key where "Key_Insert \<equiv> 57"
abbreviation Key_Delete :: Key where "Key_Delete \<equiv> 58"
abbreviation Key_Up :: Key where "Key_Up \<equiv> 59"
abbreviation Key_Left :: Key where "Key_Left \<equiv> 60"
abbreviation Key_Right :: Key where "Key_Right \<equiv> 61"
abbreviation Key_Down :: Key where "Key_Down \<equiv> 62"
abbreviation Key_HomeClear :: Key where "Key_HomeClear \<equiv> 63"
abbreviation Key_Help :: Key where "Key_Help \<equiv> 64"
abbreviation Key_KeypadMinus :: Key where "Key_KeypadMinus \<equiv> 65"
abbreviation Key_KeypadDivide :: Key where "Key_KeypadDivide \<equiv> 66"
abbreviation Key_Keypad7 :: Key where "Key_Keypad7 \<equiv> 67"
abbreviation Key_Keypad8 :: Key where "Key_Keypad8 \<equiv> 68"
abbreviation Key_Keypad9 :: Key where "Key_Keypad9 \<equiv> 69"
abbreviation Key_KeypadMultiply :: Key where "Key_KeypadMultiply \<equiv> 70"
abbreviation Key_Keypad4 :: Key where "Key_Keypad4 \<equiv> 71"
abbreviation Key_Keypad5 :: Key where "Key_Keypad5 \<equiv> 72"
abbreviation Key_Keypad6 :: Key where "Key_Keypad6 \<equiv> 73"
abbreviation Key_KeypadPlus :: Key where "Key_KeypadPlus \<equiv> 74"
abbreviation Key_Keypad1 :: Key where "Key_Keypad1 \<equiv> 75"
abbreviation Key_Keypad2 :: Key where "Key_Keypad2 \<equiv> 76"
abbreviation Key_Keypad3 :: Key where "Key_Keypad3 \<equiv> 77"
abbreviation Key_KeypadEquals :: Key where "Key_KeypadEquals \<equiv> 78"
abbreviation Key_Keypad0 :: Key where "Key_Keypad0 \<equiv> 79"
abbreviation Key_KeypadComma :: Key where "Key_KeypadComma \<equiv> 80"
abbreviation Key_KeypadPeriod :: Key where "Key_KeypadPeriod \<equiv> 81"
abbreviation Key_KeypadEnter :: Key where "Key_KeypadEnter \<equiv> 82"
abbreviation Key_Nfer :: Key where "Key_Nfer \<equiv> 83"
abbreviation Key_F1 :: Key where "Key_F1 \<equiv> 84"
abbreviation Key_F2 :: Key where "Key_F2 \<equiv> 85"
abbreviation Key_F3 :: Key where "Key_F3 \<equiv> 86"
abbreviation Key_F4 :: Key where "Key_F4 \<equiv> 87"
abbreviation Key_F5 :: Key where "Key_F5 \<equiv> 88"
abbreviation Key_F6 :: Key where "Key_F6 \<equiv> 89"
abbreviation Key_F7 :: Key where "Key_F7 \<equiv> 90"
abbreviation Key_F8 :: Key where "Key_F8 \<equiv> 91"
abbreviation Key_F9 :: Key where "Key_F9 \<equiv> 92"
abbreviation Key_F10 :: Key where "Key_F10 \<equiv> 93"
abbreviation Key_LeftShift :: Key where "Key_LeftShift \<equiv> 94"
abbreviation Key_CapsLock :: Key where "Key_CapsLock \<equiv> 95"
abbreviation Key_Kana :: Key where "Key_Kana \<equiv> 96"
abbreviation Key_Grph :: Key where "Key_Grph \<equiv> 97"
abbreviation Key_Control :: Key where "Key_Control \<equiv> 98"
abbreviation Key_RightShift :: Key where "Key_RightShift \<equiv> 99"
abbreviation Key_Stop :: Key where "Key_Stop \<equiv> 100"
abbreviation Key_Copy :: Key where "Key_Copy \<equiv> 101"
abbreviation Key_Count :: Key where "Key_Count \<equiv> 102"

abbreviation Id_Escape :: FrontendKeyId where "Id_Escape \<equiv> 0x00"
abbreviation Id_Digit1 :: FrontendKeyId where "Id_Digit1 \<equiv> 0x01"
abbreviation Id_Digit2 :: FrontendKeyId where "Id_Digit2 \<equiv> 0x02"
abbreviation Id_Digit3 :: FrontendKeyId where "Id_Digit3 \<equiv> 0x03"
abbreviation Id_Digit4 :: FrontendKeyId where "Id_Digit4 \<equiv> 0x04"
abbreviation Id_Digit5 :: FrontendKeyId where "Id_Digit5 \<equiv> 0x05"
abbreviation Id_Digit6 :: FrontendKeyId where "Id_Digit6 \<equiv> 0x06"
abbreviation Id_Digit7 :: FrontendKeyId where "Id_Digit7 \<equiv> 0x07"
abbreviation Id_Digit8 :: FrontendKeyId where "Id_Digit8 \<equiv> 0x08"
abbreviation Id_Digit9 :: FrontendKeyId where "Id_Digit9 \<equiv> 0x09"
abbreviation Id_Digit0 :: FrontendKeyId where "Id_Digit0 \<equiv> 0x0a"
abbreviation Id_Minus :: FrontendKeyId where "Id_Minus \<equiv> 0x0b"
abbreviation Id_Circumflex :: FrontendKeyId where "Id_Circumflex \<equiv> 0x0c"
abbreviation Id_Yen :: FrontendKeyId where "Id_Yen \<equiv> 0x0d"
abbreviation Id_Backspace :: FrontendKeyId where "Id_Backspace \<equiv> 0x0e"
abbreviation Id_Tab :: FrontendKeyId where "Id_Tab \<equiv> 0x0f"
abbreviation Id_Q :: FrontendKeyId where "Id_Q \<equiv> 0x10"
abbreviation Id_W :: FrontendKeyId where "Id_W \<equiv> 0x11"
abbreviation Id_E :: FrontendKeyId where "Id_E \<equiv> 0x12"
abbreviation Id_R :: FrontendKeyId where "Id_R \<equiv> 0x13"
abbreviation Id_T :: FrontendKeyId where "Id_T \<equiv> 0x14"
abbreviation Id_Y :: FrontendKeyId where "Id_Y \<equiv> 0x15"
abbreviation Id_U :: FrontendKeyId where "Id_U \<equiv> 0x16"
abbreviation Id_I :: FrontendKeyId where "Id_I \<equiv> 0x17"
abbreviation Id_O :: FrontendKeyId where "Id_O \<equiv> 0x18"
abbreviation Id_P :: FrontendKeyId where "Id_P \<equiv> 0x19"
abbreviation Id_At :: FrontendKeyId where "Id_At \<equiv> 0x1a"
abbreviation Id_LeftBracket :: FrontendKeyId where "Id_LeftBracket \<equiv> 0x1b"
abbreviation Id_Enter :: FrontendKeyId where "Id_Enter \<equiv> 0x1c"
abbreviation Id_A :: FrontendKeyId where "Id_A \<equiv> 0x1d"
abbreviation Id_S :: FrontendKeyId where "Id_S \<equiv> 0x1e"
abbreviation Id_D :: FrontendKeyId where "Id_D \<equiv> 0x1f"
abbreviation Id_F :: FrontendKeyId where "Id_F \<equiv> 0x20"
abbreviation Id_G :: FrontendKeyId where "Id_G \<equiv> 0x21"
abbreviation Id_H :: FrontendKeyId where "Id_H \<equiv> 0x22"
abbreviation Id_J :: FrontendKeyId where "Id_J \<equiv> 0x23"
abbreviation Id_K :: FrontendKeyId where "Id_K \<equiv> 0x24"
abbreviation Id_L :: FrontendKeyId where "Id_L \<equiv> 0x25"
abbreviation Id_Semicolon :: FrontendKeyId where "Id_Semicolon \<equiv> 0x26"
abbreviation Id_Colon :: FrontendKeyId where "Id_Colon \<equiv> 0x27"
abbreviation Id_RightBracket :: FrontendKeyId where "Id_RightBracket \<equiv> 0x28"
abbreviation Id_Z :: FrontendKeyId where "Id_Z \<equiv> 0x29"
abbreviation Id_X :: FrontendKeyId where "Id_X \<equiv> 0x2a"
abbreviation Id_C :: FrontendKeyId where "Id_C \<equiv> 0x2b"
abbreviation Id_V :: FrontendKeyId where "Id_V \<equiv> 0x2c"
abbreviation Id_B :: FrontendKeyId where "Id_B \<equiv> 0x2d"
abbreviation Id_N :: FrontendKeyId where "Id_N \<equiv> 0x2e"
abbreviation Id_M :: FrontendKeyId where "Id_M \<equiv> 0x2f"
abbreviation Id_Comma :: FrontendKeyId where "Id_Comma \<equiv> 0x30"
abbreviation Id_Period :: FrontendKeyId where "Id_Period \<equiv> 0x31"
abbreviation Id_Slash :: FrontendKeyId where "Id_Slash \<equiv> 0x32"
abbreviation Id_Underscore :: FrontendKeyId where "Id_Underscore \<equiv> 0x33"
abbreviation Id_Space :: FrontendKeyId where "Id_Space \<equiv> 0x34"
abbreviation Id_Xfer :: FrontendKeyId where "Id_Xfer \<equiv> 0x35"
abbreviation Id_RollUp :: FrontendKeyId where "Id_RollUp \<equiv> 0x36"
abbreviation Id_RollDown :: FrontendKeyId where "Id_RollDown \<equiv> 0x37"
abbreviation Id_Insert :: FrontendKeyId where "Id_Insert \<equiv> 0x38"
abbreviation Id_Delete :: FrontendKeyId where "Id_Delete \<equiv> 0x39"
abbreviation Id_Up :: FrontendKeyId where "Id_Up \<equiv> 0x3a"
abbreviation Id_Left :: FrontendKeyId where "Id_Left \<equiv> 0x3b"
abbreviation Id_Right :: FrontendKeyId where "Id_Right \<equiv> 0x3c"
abbreviation Id_Down :: FrontendKeyId where "Id_Down \<equiv> 0x3d"
abbreviation Id_HomeClear :: FrontendKeyId where "Id_HomeClear \<equiv> 0x3e"
abbreviation Id_Help :: FrontendKeyId where "Id_Help \<equiv> 0x3f"
abbreviation Id_KeypadMinus :: FrontendKeyId where "Id_KeypadMinus \<equiv> 0x40"
abbreviation Id_KeypadDivide :: FrontendKeyId where "Id_KeypadDivide \<equiv> 0x41"
abbreviation Id_Keypad7 :: FrontendKeyId where "Id_Keypad7 \<equiv> 0x42"
abbreviation Id_Keypad8 :: FrontendKeyId where "Id_Keypad8 \<equiv> 0x43"
abbreviation Id_Keypad9 :: FrontendKeyId where "Id_Keypad9 \<equiv> 0x44"
abbreviation Id_KeypadMultiply :: FrontendKeyId where "Id_KeypadMultiply \<equiv> 0x45"
abbreviation Id_Keypad4 :: FrontendKeyId where "Id_Keypad4 \<equiv> 0x46"
abbreviation Id_Keypad5 :: FrontendKeyId where "Id_Keypad5 \<equiv> 0x47"
abbreviation Id_Keypad6 :: FrontendKeyId where "Id_Keypad6 \<equiv> 0x48"
abbreviation Id_KeypadPlus :: FrontendKeyId where "Id_KeypadPlus \<equiv> 0x49"
abbreviation Id_Keypad1 :: FrontendKeyId where "Id_Keypad1 \<equiv> 0x4a"
abbreviation Id_Keypad2 :: FrontendKeyId where "Id_Keypad2 \<equiv> 0x4b"
abbreviation Id_Keypad3 :: FrontendKeyId where "Id_Keypad3 \<equiv> 0x4c"
abbreviation Id_KeypadEquals :: FrontendKeyId where "Id_KeypadEquals \<equiv> 0x4d"
abbreviation Id_Keypad0 :: FrontendKeyId where "Id_Keypad0 \<equiv> 0x4e"
abbreviation Id_KeypadComma :: FrontendKeyId where "Id_KeypadComma \<equiv> 0x4f"
abbreviation Id_KeypadPeriod :: FrontendKeyId where "Id_KeypadPeriod \<equiv> 0x50"
abbreviation Id_Nfer :: FrontendKeyId where "Id_Nfer \<equiv> 0x51"
abbreviation Id_F1 :: FrontendKeyId where "Id_F1 \<equiv> 0x62"
abbreviation Id_F2 :: FrontendKeyId where "Id_F2 \<equiv> 0x63"
abbreviation Id_F3 :: FrontendKeyId where "Id_F3 \<equiv> 0x64"
abbreviation Id_F4 :: FrontendKeyId where "Id_F4 \<equiv> 0x65"
abbreviation Id_F5 :: FrontendKeyId where "Id_F5 \<equiv> 0x66"
abbreviation Id_F6 :: FrontendKeyId where "Id_F6 \<equiv> 0x67"
abbreviation Id_F7 :: FrontendKeyId where "Id_F7 \<equiv> 0x68"
abbreviation Id_F8 :: FrontendKeyId where "Id_F8 \<equiv> 0x69"
abbreviation Id_F9 :: FrontendKeyId where "Id_F9 \<equiv> 0x6a"
abbreviation Id_F10 :: FrontendKeyId where "Id_F10 \<equiv> 0x6b"
abbreviation Id_LeftShift :: FrontendKeyId where "Id_LeftShift \<equiv> 0x70"
abbreviation Id_CapsLock :: FrontendKeyId where "Id_CapsLock \<equiv> 0x71"
abbreviation Id_Kana :: FrontendKeyId where "Id_Kana \<equiv> 0x72"
abbreviation Id_Grph :: FrontendKeyId where "Id_Grph \<equiv> 0x73"
abbreviation Id_Control :: FrontendKeyId where "Id_Control \<equiv> 0x74"
abbreviation Id_Stop :: FrontendKeyId where "Id_Stop \<equiv> 0x60"
abbreviation Id_Copy :: FrontendKeyId where "Id_Copy \<equiv> 0x61"
abbreviation Id_RightShift :: FrontendKeyId where "Id_RightShift \<equiv> 0x7d"

abbreviation Action_Press :: Action where "Action_Press \<equiv> 0"
abbreviation Action_Release :: Action where "Action_Release \<equiv> 1"

definition kSyntheticSource :: SourceId where "kSyntheticSource = 1"
definition kUsbKeyboardSource :: SourceId where "kUsbKeyboardSource = 2"
definition kUartInjectionSource :: SourceId where "kUartInjectionSource = 3"

record Event =
  ev_source :: SourceId
  ev_key :: Key
  ev_action :: Action

text \<open>The switch of \<^verbatim>\<open>to_frontend_key_id\<close>, in its order, as a table in two parts.\<close>

definition main_keys :: "(Key \<times> FrontendKeyId) list" where
  "main_keys =
     [(Key_Escape, Id_Escape), (Key_Digit1, Id_Digit1), (Key_Digit2, Id_Digit2),
      (Key_Digit3, Id_Digit3), (Key_Digit4, Id_Digit4), (Key_Digit5, Id_Digit5),
      (Key_Digit6, Id_Digit6), (Key_Digit7, Id_Digit7), (Key_Digit8, Id_Digit8),
      (Key_Digit9, Id_Digit9), (Key_Digit0, Id_Digit0), (Key_Minus, Id_Minus),
      (Key_Circumflex, Id_Circumflex), (Key_Yen, Id_Yen), (Key_Backspace, Id_Backspace),
      (Key_Tab, Id_Tab), (Key_Q, Id_Q), (Key_W, Id_W), (Key_E, Id_E), (Key_R, Id_R),
      (Key_T, Id_T), (Key_Y, Id_Y), (Key_U, Id_U), (Key_I, Id_I), (Key_O, Id_O),
      (Key_P, Id_P), (Key_At, Id_At), (Key_LeftBracket, Id_LeftBracket),
      (Key_Enter, Id_Enter), (Key_KeypadEnter, Id_Enter), (Key_A, Id_A), (Key_S, Id_S),
      (Key_D, Id_D), (Key_F, Id_F), (Key_G, Id_G), (Key_H, Id_H), (Key_J, Id_J),
      (Key_K, Id_K), (Key_L, Id_L), (Key_Semicolon, Id_Semicolon), (Key_Colon, Id_Colon),
      (Key_RightBracket, Id_RightBracket), (Key_Z, Id_Z), (Key_X, Id_X), (Key_C, Id_C),
      (Key_V, Id_V), (Key_B, Id_B), (Key_N, Id_N), (Key_M, Id_M), (Key_Comma, Id_Comma),
      (Key_Period, Id_Period), (Key_Slash, Id_Slash), (Key_Underscore, Id_Underscore),
      (Key_Space, Id_Space), (Key_Xfer, Id_Xfer)]"

definition other_keys :: "(Key \<times> FrontendKeyId) list" where
  "other_keys =
     [(Key_RollUp, Id_RollUp), (Key_RollDown, Id_RollDown), (Key_Insert, Id_Insert),
      (Key_Delete, Id_Delete), (Key_Up, Id_Up), (Key_Left, Id_Left), (Key_Right, Id_Right),
      (Key_Down, Id_Down), (Key_HomeClear, Id_HomeClear), (Key_Help, Id_Help),
      (Key_KeypadMinus, Id_KeypadMinus), (Key_KeypadDivide, Id_KeypadDivide),
      (Key_Keypad7, Id_Keypad7), (Key_Keypad8, Id_Keypad8), (Key_Keypad9, Id_Keypad9),
      (Key_KeypadMultiply, Id_KeypadMultiply), (Key_Keypad4, Id_Keypad4),
      (Key_Keypad5, Id_Keypad5), (Key_Keypad6, Id_Keypad6), (Key_KeypadPlus, Id_KeypadPlus),
      (Key_Keypad1, Id_Keypad1), (Key_Keypad2, Id_Keypad2), (Key_Keypad3, Id_Keypad3),
      (Key_KeypadEquals, Id_KeypadEquals), (Key_Keypad0, Id_Keypad0),
      (Key_KeypadComma, Id_KeypadComma), (Key_KeypadPeriod, Id_KeypadPeriod),
      (Key_Nfer, Id_Nfer), (Key_F1, Id_F1), (Key_F2, Id_F2), (Key_F3, Id_F3),
      (Key_F4, Id_F4), (Key_F5, Id_F5), (Key_F6, Id_F6), (Key_F7, Id_F7), (Key_F8, Id_F8),
      (Key_F9, Id_F9), (Key_F10, Id_F10), (Key_LeftShift, Id_LeftShift),
      (Key_CapsLock, Id_CapsLock), (Key_Kana, Id_Kana), (Key_Grph, Id_Grph),
      (Key_Control, Id_Control), (Key_RightShift, Id_RightShift), (Key_Stop, Id_Stop),
      (Key_Copy, Id_Copy)]"

definition to_frontend_key_id :: "Key \<Rightarrow> FrontendKeyId option" where
  "to_frontend_key_id key = map_of (main_keys @ other_keys) key"

lemma frontend_id_total:
  "list_all (\<lambda>k. case to_frontend_key_id (word_of_nat k) of None \<Rightarrow> False | Some f \<Rightarrow> unat f < 128)
     [1..<unat Key_Count]"
  by code_simp

lemma frontend_id_defined:
  assumes "key \<noteq> Key_Unknown" "key < Key_Count"
  obtains f where "to_frontend_key_id key = Some f" "unat f < 128"
proof -
  have "unat key \<noteq> 0" "unat key < unat Key_Count" using assms by (simp_all add: unat_eq_zero word_less_nat_alt)
  then have "unat key \<in> set [1..<unat Key_Count]" by auto
  with frontend_id_total have "case to_frontend_key_id (word_of_nat (unat key)) of None \<Rightarrow> False | Some f \<Rightarrow> unat f < 128"
    unfolding list_all_iff by blast
  then show thesis using that by (auto split: option.splits)
qed

text \<open>The table without the keypad's enter key, which shares the id of the main one.\<close>

definition single_keys :: "(Key \<times> FrontendKeyId) list" where
  "single_keys = filter (\<lambda>(k, f). k \<noteq> Key_KeypadEnter) (main_keys @ other_keys)"

lemma table_in_range: "list_all (\<lambda>(k, f). k \<noteq> Key_Unknown \<and> k < Key_Count) (main_keys @ other_keys)"
  by code_simp

lemma single_ids_distinct: "distinct (map snd single_keys)"
  by code_simp

lemma single_entry: "to_frontend_key_id k = Some f \<Longrightarrow> k \<noteq> Key_KeypadEnter \<Longrightarrow> (k, f) \<in> set single_keys"
  unfolding to_frontend_key_id_def by (drule map_of_SomeD) (simp add: single_keys_def)

lemma single_unique: "(k1, f) \<in> set single_keys \<Longrightarrow> (k2, f) \<in> set single_keys \<Longrightarrow> k1 = k2"
  using single_ids_distinct by (fastforce simp: distinct_map inj_on_def)

lemma enter_ids: "to_frontend_key_id Key_Enter = Some Id_Enter" "to_frontend_key_id Key_KeypadEnter = Some Id_Enter"
  by code_simp+

lemma frontend_id_shared:
  assumes "to_frontend_key_id k1 = Some f" "to_frontend_key_id k2 = Some f"
  shows "k1 = k2 \<or> {k1, k2} = {Key_Enter, Key_KeypadEnter}"
proof -
  have enter: "k = Key_Enter \<or> k = Key_KeypadEnter" if "to_frontend_key_id k = Some Id_Enter" for k
    using single_entry [OF that] single_entry [OF enter_ids(1)] single_unique [of k Id_Enter Key_Enter] by auto
  show ?thesis
  proof (cases "k1 = Key_KeypadEnter \<or> k2 = Key_KeypadEnter")
    case True
    then have "f = Id_Enter" using assms enter_ids(2) by auto
    then show ?thesis using enter assms True by blast
  next
    case False
    then show ?thesis using single_unique single_entry assms by blast
  qed
qed

text \<open>
  (C40) Every key has a code, and only keys have one. \<^verbatim>\<open>to_frontend_key_id\<close> returns an id exactly for the enumerators of
  \<^verbatim>\<open>Key\<close> other than Unknown and Count, whatever byte is passed; the id leaves the top bit free, which the emulated keyboard uses
  to mark a release; and two different keys share an id only if they are the two enter keys.
\<close>

theorem key_table_well_typed:
  "(to_frontend_key_id key \<noteq> None \<longleftrightarrow> key \<noteq> Key_Unknown \<and> key < Key_Count) \<and>
   (\<forall>f. to_frontend_key_id key = Some f \<longrightarrow> unat f < 128 \<and>
      (\<forall>key'. to_frontend_key_id key' = Some f \<longrightarrow> key' = key \<or> {key', key} = {Key_Enter, Key_KeypadEnter}))"
proof -
  have range: "key \<noteq> Key_Unknown \<and> key < Key_Count" if "to_frontend_key_id key = Some f" for f
    using map_of_SomeD [OF that [unfolded to_frontend_key_id_def]] table_in_range unfolding list_all_iff by blast
  moreover have "unat f < 128" if "to_frontend_key_id key = Some f" for f
    using frontend_id_defined [of key] range [OF that] that by (metis option.inject)
  moreover have "to_frontend_key_id key \<noteq> None" if "key \<noteq> Key_Unknown \<and> key < Key_Count"
    using frontend_id_defined [of key] that by fastforce
  ultimately show ?thesis using frontend_id_shared by blast
qed

lemma key_table_well_typed_witness: "\<exists>f. to_frontend_key_id Key_Escape = Some f \<and> unat f < 128"
proof -
  have "to_frontend_key_id Key_Escape \<noteq> None" by code_simp
  then show ?thesis using key_table_well_typed [of Key_Escape] by blast
qed

end
