(* ===== verification/Key_Ownership.thy ===== *)
theory Key_Ownership
  imports Keyboard_Input
begin

section \<open>Key ownership engine (np2_keyboard_input/ownership.cpp)\<close>

text \<open>
  Several sources (USB keyboard, UART injection, synthetic) may hold the same key. The engine keeps for
  each source the set of keys it holds and counts the holders of every frontend id, so that the emulated
  keyboard sees one press when the first source presses and one release when the last one releases.
  The object behind \<^verbatim>\<open>sink.context\<close> is a value of the type parameter \<open>'s\<close>; a slot pointer is an index.
\<close>

definition kMaxActiveSources :: nat where "kMaxActiveSources = 4"
definition kFrontendKeyDomain :: nat where "kFrontendKeyDomain = 128"
definition kKeyCount :: nat where "kKeyCount = unat Key_Count"
definition kKeyStateWords :: nat where "kKeyStateWords = (kKeyCount + 63) div 64"

datatype ShiftMode = Collapsed | Separate
datatype EventResult = Injected | Accepted | Duplicate | Invalid | Quarantined | SourceCapacityExceeded
datatype InputState = Ready | Desynchronized

record OwnershipCounters =
  oc_accepted_events :: u32
  oc_press_injected :: u32
  oc_release_injected :: u32
  oc_duplicate_suppressed :: u32
  oc_invalid_rejected :: u32
  oc_source_disconnects :: u32
  oc_source_capacity_failures :: u32
  oc_blocked_events :: u32
  oc_global_recoveries :: u32

definition default_counters :: OwnershipCounters where
  "default_counters = \<lparr>oc_accepted_events = 0, oc_press_injected = 0, oc_release_injected = 0,
     oc_duplicate_suppressed = 0, oc_invalid_rejected = 0, oc_source_disconnects = 0,
     oc_source_capacity_failures = 0, oc_blocked_events = 0, oc_global_recoveries = 0\<rparr>"

record 's Sink =
  sk_press :: "(FrontendKeyId \<Rightarrow> 's \<Rightarrow> 's) option"
  sk_release :: "(FrontendKeyId \<Rightarrow> 's \<Rightarrow> 's) option"
  sk_all_release :: "('s \<Rightarrow> 's) option"

record SourceSlot =
  sl_active :: bool
  sl_id :: SourceId
  sl_held :: "u64 list"
  sl_effective_ids :: bytes

definition default_slot :: SourceSlot where
  "default_slot = \<lparr>sl_active = False, sl_id = 0, sl_held = replicate kKeyStateWords 0,
     sl_effective_ids = replicate kKeyCount 0\<rparr>"

record 's OwnershipEngine =
  oe_sink :: "'s Sink"
  oe_shift_mode :: ShiftMode
  oe_state :: InputState
  oe_recovery_done :: bool
  oe_sources :: "SourceSlot list"
  oe_owner_counts :: "u16 list"
  oe_counters :: OwnershipCounters

definition new_engine :: "'s Sink \<Rightarrow> ShiftMode \<Rightarrow> 's OwnershipEngine" where
  "new_engine sink shift_mode =
     \<lparr>oe_sink = sink, oe_shift_mode = shift_mode, oe_state = Ready, oe_recovery_done = False,
      oe_sources = replicate kMaxActiveSources default_slot,
      oe_owner_counts = replicate kFrontendKeyDomain 0, oe_counters = default_counters\<rparr>"

definition key_index :: "Key \<Rightarrow> nat" where "key_index key = unat key"
definition frontend_index :: "FrontendKeyId \<Rightarrow> nat" where "frontend_index key = unat key"

definition valid_action :: "Action \<Rightarrow> bool" where
  "valid_action action \<longleftrightarrow> action = Action_Press \<or> action = Action_Release"

definition is_valid_event :: "Event \<Rightarrow> bool" where
  "is_valid_event event \<longleftrightarrow>
     ev_source event \<noteq> 0 \<and> ev_key event \<noteq> Key_Unknown \<and> ev_key event < Key_Count \<and>
     valid_action (ev_action event)"

definition is_toggle_key :: "Key \<Rightarrow> bool" where
  "is_toggle_key key \<longleftrightarrow> key = Key_CapsLock \<or> key = Key_Kana"

definition effective_frontend_key_id :: "FrontendKeyId \<Rightarrow> ShiftMode \<Rightarrow> FrontendKeyId" where
  "effective_frontend_key_id key mode =
     (if mode = Collapsed \<and> key = Id_RightShift then Id_LeftShift else key)"

definition bit_is_set :: "SourceSlot \<Rightarrow> nat \<Rightarrow> bool" where
  "bit_is_set slot index \<longleftrightarrow> (sl_held slot ! (index div 64)) AND push_bit (index mod 64) 1 \<noteq> 0"

definition set_bit :: "SourceSlot \<Rightarrow> nat \<Rightarrow> SourceSlot" where
  "set_bit slot index =
     slot\<lparr>sl_held := (sl_held slot)
       [index div 64 := (sl_held slot ! (index div 64)) OR push_bit (index mod 64) 1]\<rparr>"

definition clear_bit :: "SourceSlot \<Rightarrow> nat \<Rightarrow> SourceSlot" where
  "clear_bit slot index =
     slot\<lparr>sl_held := (sl_held slot)
       [index div 64 := (sl_held slot ! (index div 64)) AND NOT (push_bit (index mod 64) 1)]\<rparr>"

definition has_held_keys :: "SourceSlot \<Rightarrow> bool" where
  "has_held_keys slot \<longleftrightarrow> list_ex (\<lambda>word. word \<noteq> 0) (sl_held slot)"

definition find_source :: "SourceId \<Rightarrow> SourceSlot list \<Rightarrow> nat option" where
  "find_source source slots = first_index (\<lambda>slot. sl_active slot \<and> sl_id slot = source) slots"

definition allocate_source :: "SourceId \<Rightarrow> SourceSlot list \<Rightarrow> (nat \<times> SourceSlot list) option" where
  "allocate_source source slots =
     map_option (\<lambda>i. (i, slots[i := default_slot\<lparr>sl_active := True, sl_id := source\<rparr>]))
       (first_index (\<lambda>slot. \<not> sl_active slot) slots)"

definition clear_state :: "'s OwnershipEngine \<Rightarrow> 's OwnershipEngine" where
  "clear_state e = e\<lparr>oe_sources := map (\<lambda>_. default_slot) (oe_sources e),
     oe_owner_counts := map (\<lambda>_. 0) (oe_owner_counts e)\<rparr>"

definition count_up :: "(OwnershipCounters \<Rightarrow> OwnershipCounters) \<Rightarrow> 's OwnershipEngine \<Rightarrow> 's OwnershipEngine" where
  "count_up f e = e\<lparr>oe_counters := f (oe_counters e)\<rparr>"

definition press_sink :: "FrontendKeyId \<Rightarrow> 's OwnershipEngine \<Rightarrow> 's \<Rightarrow> 's OwnershipEngine \<times> 's" where
  "press_sink key e s =
     (count_up (\<lambda>c. c\<lparr>oc_press_injected := oc_press_injected c + 1\<rparr>) e,
      case sk_press (oe_sink e) of None \<Rightarrow> s | Some press \<Rightarrow> press key s)"

definition release_sink :: "FrontendKeyId \<Rightarrow> 's OwnershipEngine \<Rightarrow> 's \<Rightarrow> 's OwnershipEngine \<times> 's" where
  "release_sink key e s =
     (count_up (\<lambda>c. c\<lparr>oc_release_injected := oc_release_injected c + 1\<rparr>) e,
      case sk_release (oe_sink e) of None \<Rightarrow> s | Some release \<Rightarrow> release key s)"

definition recovery_sink :: "'s OwnershipEngine \<Rightarrow> 's \<Rightarrow> 's OwnershipEngine \<times> 's" where
  "recovery_sink e s =
     (count_up (\<lambda>c. c\<lparr>oc_global_recoveries := oc_global_recoveries c + 1\<rparr>) e,
      case sk_all_release (oe_sink e) of None \<Rightarrow> s | Some all_release \<Rightarrow> all_release s)"

definition put_slot :: "nat \<Rightarrow> SourceSlot \<Rightarrow> 's OwnershipEngine \<Rightarrow> 's OwnershipEngine" where
  "put_slot i slot e = e\<lparr>oe_sources := (oe_sources e)[i := slot]\<rparr>"

text \<open>Dropping one holder of a frontend id, shared by a release and a disconnect.\<close>

definition drop_owner :: "FrontendKeyId \<Rightarrow> 's OwnershipEngine \<Rightarrow> 's \<Rightarrow> 's OwnershipEngine \<times> 's" where
  "drop_owner effective e s =
     (let i = frontend_index effective in
      if oe_owner_counts e ! i > 0 then
        let e = e\<lparr>oe_owner_counts := (oe_owner_counts e)[i := oe_owner_counts e ! i - 1]\<rparr> in
        if oe_owner_counts e ! i = 0 then release_sink effective e s else (e, s)
      else (e, s))"

text \<open>Adding one holder: the end of the press branch.\<close>

definition add_owner :: "FrontendKeyId \<Rightarrow> 's OwnershipEngine \<Rightarrow> 's \<Rightarrow> EventResult \<times> 's OwnershipEngine \<times> 's" where
  "add_owner effective e s =
     (let i = frontend_index effective;
          (e, s) = (if oe_owner_counts e ! i = 0 then press_sink effective e s else (e, s));
          e = e\<lparr>oe_owner_counts := (oe_owner_counts e)[i := oe_owner_counts e ! i + 1]\<rparr>
      in (if oe_owner_counts e ! i = 1 then Injected else Accepted, e, s))"

definition process_press ::
  "Event \<Rightarrow> FrontendKeyId \<Rightarrow> nat \<Rightarrow> 's OwnershipEngine \<Rightarrow> 's \<Rightarrow> EventResult \<times> 's OwnershipEngine \<times> 's" where
  "process_press event effective i e s =
     (let slot = oe_sources e ! i; index = key_index (ev_key event) in
      if bit_is_set slot index then
        (Duplicate, count_up (\<lambda>c. c\<lparr>oc_duplicate_suppressed := oc_duplicate_suppressed c + 1\<rparr>) e, s)
      else
        let slot = set_bit slot index;
            slot = slot\<lparr>sl_effective_ids := (sl_effective_ids slot)[index := effective]\<rparr>;
            e = count_up (\<lambda>c. c\<lparr>oc_accepted_events := oc_accepted_events c + 1\<rparr>) (put_slot i slot e)
        in if is_toggle_key (ev_key event) then (Injected, press_sink effective e s)
           else add_owner effective e s)"

definition process_release ::
  "Event \<Rightarrow> nat \<Rightarrow> 's OwnershipEngine \<Rightarrow> 's \<Rightarrow> EventResult \<times> 's OwnershipEngine \<times> 's" where
  "process_release event i e s =
     (let slot = oe_sources e ! i; index = key_index (ev_key event);
          held_effective = sl_effective_ids slot ! index;
          slot = (clear_bit slot index)\<lparr>sl_effective_ids := (sl_effective_ids slot)[index := 0]\<rparr>;
          e = count_up (\<lambda>c. c\<lparr>oc_accepted_events := oc_accepted_events c + 1\<rparr>) (put_slot i slot e);
          (e, s) = (if \<not> is_toggle_key (ev_key event) then drop_owner held_effective e s else (e, s));
          e = (if \<not> has_held_keys (oe_sources e ! i) then put_slot i default_slot e else e)
      in (Accepted, e, s))"

definition process ::
  "Event \<Rightarrow> 's OwnershipEngine \<Rightarrow> 's \<Rightarrow> EventResult \<times> 's OwnershipEngine \<times> 's" where
  "process event e s =
     (if oe_state e = Desynchronized then
        (Quarantined, count_up (\<lambda>c. c\<lparr>oc_blocked_events := oc_blocked_events c + 1\<rparr>) e, s)
      else if \<not> is_valid_event event then
        (Invalid, count_up (\<lambda>c. c\<lparr>oc_invalid_rejected := oc_invalid_rejected c + 1\<rparr>) e, s)
      else case to_frontend_key_id (ev_key event) of
        None \<Rightarrow> (Invalid, count_up (\<lambda>c. c\<lparr>oc_invalid_rejected := oc_invalid_rejected c + 1\<rparr>) e, s)
      | Some mapped \<Rightarrow>
          let effective = effective_frontend_key_id mapped (oe_shift_mode e);
              slot = find_source (ev_source event) (oe_sources e)
          in if ev_action event = Action_Press then
               (case slot of
                  Some i \<Rightarrow> process_press event effective i e s
                | None \<Rightarrow>
                    case allocate_source (ev_source event) (oe_sources e) of
                      None \<Rightarrow>
                        (SourceCapacityExceeded,
                         (count_up (\<lambda>c. c\<lparr>oc_source_capacity_failures := oc_source_capacity_failures c + 1\<rparr>) e)
                           \<lparr>oe_state := Desynchronized\<rparr>, s)
                    | Some (i, sources) \<Rightarrow> process_press event effective i (e\<lparr>oe_sources := sources\<rparr>) s)
             else
               case slot of
                 None \<Rightarrow> (Duplicate, count_up (\<lambda>c. c\<lparr>oc_duplicate_suppressed := oc_duplicate_suppressed c + 1\<rparr>) e, s)
               | Some i \<Rightarrow>
                   if \<not> bit_is_set (oe_sources e ! i) (key_index (ev_key event)) then
                     (Duplicate, count_up (\<lambda>c. c\<lparr>oc_duplicate_suppressed := oc_duplicate_suppressed c + 1\<rparr>) e, s)
                   else process_release event i e s)"

text \<open>One iteration of the loop of \<^verbatim>\<open>disconnect_source\<close>.\<close>

definition disconnect_key :: "nat \<Rightarrow> nat \<Rightarrow> 's OwnershipEngine \<times> 's \<Rightarrow> 's OwnershipEngine \<times> 's" where
  "disconnect_key i index es =
     (let (e, s) = es; slot = oe_sources e ! i in
      if \<not> bit_is_set slot index then (e, s)
      else
        let effective = sl_effective_ids slot ! index;
            e = put_slot i ((clear_bit slot index)\<lparr>sl_effective_ids := (sl_effective_ids slot)[index := 0]\<rparr>) e
        in if is_toggle_key (word_of_nat index) then (e, s) else drop_owner effective e s)"

definition disconnect_source :: "SourceId \<Rightarrow> 's OwnershipEngine \<Rightarrow> 's \<Rightarrow> bool \<times> 's OwnershipEngine \<times> 's" where
  "disconnect_source source e s =
     (if source = 0 then
        (False, count_up (\<lambda>c. c\<lparr>oc_invalid_rejected := oc_invalid_rejected c + 1\<rparr>) e, s)
      else
        let slot = find_source source (oe_sources e);
            e = count_up (\<lambda>c. c\<lparr>oc_source_disconnects := oc_source_disconnects c + 1\<rparr>) e
        in case slot of
             None \<Rightarrow> (False, e, s)
           | Some i \<Rightarrow>
               let (e, s) = fold (disconnect_key i) [1..<kKeyCount] (e, s)
               in (True, put_slot i default_slot e, s))"

definition emergency_recover :: "'s OwnershipEngine \<Rightarrow> 's \<Rightarrow> bool \<times> 's OwnershipEngine \<times> 's" where
  "emergency_recover e s =
     (if oe_recovery_done e then (False, e, s)
      else (True, recovery_sink ((clear_state e)\<lparr>oe_state := Desynchronized, oe_recovery_done := True\<rparr>) s))"

definition engine_rearm :: "'s OwnershipEngine \<Rightarrow> bool \<times> 's OwnershipEngine" where
  "engine_rearm e =
     (if oe_state e \<noteq> Desynchronized \<or> \<not> oe_recovery_done e then (False, e)
      else (True, (clear_state e)\<lparr>oe_state := Ready, oe_recovery_done := False\<rparr>))"

definition discard_without_injection :: "'s OwnershipEngine \<Rightarrow> 's OwnershipEngine" where
  "discard_without_injection e = (clear_state e)\<lparr>oe_state := Ready, oe_recovery_done := False\<rparr>"

definition set_shift_mode :: "ShiftMode \<Rightarrow> 's OwnershipEngine \<Rightarrow> 's OwnershipEngine" where
  "set_shift_mode mode e = e\<lparr>oe_shift_mode := mode\<rparr>"

subsection \<open>Bit sets\<close>

lemma bit_is_set_bit:
  "bit_is_set slot i \<longleftrightarrow> bit (sl_held slot ! (i div 64)) (i mod 64)"
  by (simp add: bit_is_set_def bit_iff_and_push_bit_not_eq_0)

definition held :: "SourceSlot \<Rightarrow> nat set" where
  "held slot = {k. bit_is_set slot k \<and> k < 64 * kKeyStateWords}"

lemma same_bit: "j div 64 = k div 64 \<Longrightarrow> j mod 64 = k mod 64 \<Longrightarrow> j = (k :: nat)"
  by (metis div_mult_mod_eq)

lemma word_bit_push: "bit (2 ^ (k mod 64) :: u64) (j mod 64) \<longleftrightarrow> j mod 64 = k mod 64"
  by (auto simp: bit_exp_iff)

lemma held_set_bit:
  assumes "length (sl_held slot) = kKeyStateWords" "k < 64 * kKeyStateWords"
  shows "held (set_bit slot k) = insert k (held slot)"
proof -
  have l: "k div 64 < length (sl_held slot)" using assms by (simp add: div_less_iff_less_mult mult.commute)
  have "bit_is_set (set_bit slot k) j \<longleftrightarrow> j = k \<or> bit_is_set slot j" for j
  proof (cases "j div 64 = k div 64")
    case True
    then have "bit_is_set (set_bit slot k) j \<longleftrightarrow> bit_is_set slot j \<or> j mod 64 = k mod 64"
      using l unfolding bit_is_set_bit by (simp add: set_bit_def bit_or_iff word_bit_push)
    then show ?thesis using same_bit [OF True] by (cases "j = k") (simp, blast)
  next
    case False
    then show ?thesis unfolding bit_is_set_bit by (auto simp: set_bit_def)
  qed
  then show ?thesis using assms(2) by (auto simp: held_def)
qed

lemma held_clear_bit:
  assumes "length (sl_held slot) = kKeyStateWords" "k < 64 * kKeyStateWords"
  shows "held (clear_bit slot k) = held slot - {k}"
proof -
  have l: "k div 64 < length (sl_held slot)" using assms by (simp add: div_less_iff_less_mult mult.commute)
  have "bit_is_set (clear_bit slot k) j \<longleftrightarrow> j \<noteq> k \<and> bit_is_set slot j" for j
  proof (cases "j div 64 = k div 64")
    case True
    then have "bit_is_set (clear_bit slot k) j \<longleftrightarrow> bit_is_set slot j \<and> j mod 64 \<noteq> k mod 64"
      using l unfolding bit_is_set_bit by (simp add: clear_bit_def bit_and_iff bit_not_iff word_bit_push word_size)
    then show ?thesis using same_bit [OF True] by (cases "j = k") (simp, blast)
  next
    case False
    then show ?thesis unfolding bit_is_set_bit by (auto simp: clear_bit_def)
  qed
  then show ?thesis by (auto simp: held_def)
qed

lemma has_held_keys_held:
  assumes "length (sl_held slot) = kKeyStateWords"
  shows "has_held_keys slot \<longleftrightarrow> held slot \<noteq> {}"
proof
  assume "has_held_keys slot"
  then obtain i where i: "i < kKeyStateWords" "sl_held slot ! i \<noteq> 0"
    using assms by (auto simp: has_held_keys_def list_ex_iff in_set_conv_nth)
  then obtain n where n: "bit (sl_held slot ! i) n" "n < 64"
    by (auto simp: bit_eq_iff word_size dest: bit_imp_le_length)
  then have "bit_is_set slot (i * 64 + n)" unfolding bit_is_set_bit by simp
  moreover have "i * 64 + n < 64 * kKeyStateWords" using i(1) n(2) by linarith
  ultimately show "held slot \<noteq> {}" by (auto simp: held_def)
next
  assume "held slot \<noteq> {}"
  then obtain k where k: "bit_is_set slot k" "k < 64 * kKeyStateWords" by (auto simp: held_def)
  then have "sl_held slot ! (k div 64) \<noteq> 0" unfolding bit_is_set_bit by auto
  moreover have "k div 64 < length (sl_held slot)" using k(2) assms by (simp add: div_less_iff_less_mult mult.commute)
  ultimately show "has_held_keys slot" by (auto simp: has_held_keys_def list_ex_iff)
qed

lemma held_default [simp]: "held default_slot = {}"
proof -
  have "\<not> bit_is_set default_slot k" if "k < 64 * kKeyStateWords" for k
  proof -
    have "k div 64 < kKeyStateWords" using that by (simp add: div_less_iff_less_mult mult.commute)
    then show ?thesis by (simp add: bit_is_set_bit default_slot_def)
  qed
  then show ?thesis by (auto simp: held_def)
qed

subsection \<open>Invariant\<close>

text \<open>
  \<open>owners\<close> is the set of pairs of a slot and a (non-toggle) key that hold a frontend id. The invariant
  says that the counter of every id is the number of its owners, that active slots have distinct ids and
  hold at least one key, and that free slots are blank.
\<close>

definition owners :: "SourceSlot list \<Rightarrow> FrontendKeyId \<Rightarrow> (nat \<times> nat) set" where
  "owners slots f =
     {(i, k). i < length slots \<and> k \<in> held (slots ! i) \<and> \<not> is_toggle_key (word_of_nat k) \<and>
        sl_effective_ids (slots ! i) ! k = f}"

definition slot_ok :: "SourceSlot \<Rightarrow> bool" where
  "slot_ok slot \<longleftrightarrow>
     length (sl_held slot) = kKeyStateWords \<and> length (sl_effective_ids slot) = kKeyCount \<and>
     held slot \<subseteq> {1..<kKeyCount} \<and> (\<forall>k\<in>held slot. frontend_index (sl_effective_ids slot ! k) < kFrontendKeyDomain) \<and>
     (\<not> sl_active slot \<longrightarrow> slot = default_slot)"

definition slots_ok :: "SourceSlot list \<Rightarrow> bool" where
  "slots_ok slots \<longleftrightarrow>
     length slots = kMaxActiveSources \<and> (\<forall>slot\<in>set slots. slot_ok slot) \<and>
     (\<forall>i<length slots. \<forall>j<length slots. sl_active (slots ! i) \<and> sl_active (slots ! j) \<and>
        sl_id (slots ! i) = sl_id (slots ! j) \<longrightarrow> i = j)"

definition counts_ok :: "SourceSlot list \<Rightarrow> u16 list \<Rightarrow> bool" where
  "counts_ok slots counts \<longleftrightarrow>
     length counts = kFrontendKeyDomain \<and>
     (\<forall>f. frontend_index f < kFrontendKeyDomain \<longrightarrow> unat (counts ! frontend_index f) = card (owners slots f))"

definition engine_ok :: "'s OwnershipEngine \<Rightarrow> bool" where
  "engine_ok e \<longleftrightarrow> slots_ok (oe_sources e) \<and> counts_ok (oe_sources e) (oe_owner_counts e)"

lemma key_constants: "kKeyCount = 102" "kKeyStateWords = 2" "kMaxActiveSources = 4" "kFrontendKeyDomain = 128"
  by (simp_all add: kKeyCount_def kKeyStateWords_def kMaxActiveSources_def kFrontendKeyDomain_def)

lemma slot_ok_default: "slot_ok default_slot"
  by (simp add: slot_ok_def) (simp add: default_slot_def)

lemma owners_subset: "slots_ok slots \<Longrightarrow> owners slots f \<subseteq> {..<4} \<times> {..<102}"
  by (fastforce simp: owners_def slots_ok_def slot_ok_def key_constants in_set_conv_nth)

lemma owners_finite:
  assumes "slots_ok slots"
  shows "finite (owners slots f)" "card (owners slots f) \<le> 408"
  using finite_subset [OF owners_subset [OF assms]] card_mono [OF _ owners_subset [OF assms], of f] by simp_all

text \<open>Putting one key into a slot, and taking one out.\<close>

definition give :: "nat \<Rightarrow> FrontendKeyId \<Rightarrow> SourceSlot \<Rightarrow> SourceSlot" where
  "give k f slot = (set_bit slot k)\<lparr>sl_effective_ids := (sl_effective_ids slot)[k := f]\<rparr>"

definition take_away :: "nat \<Rightarrow> SourceSlot \<Rightarrow> SourceSlot" where
  "take_away k slot = (clear_bit slot k)\<lparr>sl_effective_ids := (sl_effective_ids slot)[k := 0]\<rparr>"

lemma held_effective [simp]: "held (slot\<lparr>sl_effective_ids := x\<rparr>) = held slot"
  by (simp add: held_def bit_is_set_def)

lemma give_fields:
  assumes "slot_ok slot" "k < kKeyCount"
  shows "held (give k f slot) = insert k (held slot)" "length (sl_held (give k f slot)) = kKeyStateWords"
    "sl_effective_ids (give k f slot) = (sl_effective_ids slot)[k := f]"
    "sl_active (give k f slot) = sl_active slot" "sl_id (give k f slot) = sl_id slot"
  using assms held_set_bit [of slot k]
  by (simp_all add: give_def slot_ok_def key_constants) (simp_all add: set_bit_def)

lemma take_away_fields:
  assumes "slot_ok slot" "k < kKeyCount"
  shows "held (take_away k slot) = held slot - {k}" "length (sl_held (take_away k slot)) = kKeyStateWords"
    "sl_effective_ids (take_away k slot) = (sl_effective_ids slot)[k := 0]"
    "sl_active (take_away k slot) = sl_active slot" "sl_id (take_away k slot) = sl_id slot"
  using assms held_clear_bit [of slot k]
  by (simp_all add: take_away_def slot_ok_def key_constants) (simp_all add: clear_bit_def)

lemma slots_ok_update:
  assumes "slots_ok slots" "i < kMaxActiveSources" "slot_ok slot"
    "sl_active slot \<Longrightarrow> sl_active (slots ! i) \<and> sl_id slot = sl_id (slots ! i)"
  shows "slots_ok (slots[i := slot])"
proof -
  have "slot_ok x" if "x \<in> set (slots[i := slot])" for x
    using that assms(1,3) set_update_subset_insert [of slots i slot] by (auto simp: slots_ok_def)
  moreover have "length slots = kMaxActiveSources" using assms(1) by (simp add: slots_ok_def)
  moreover have "a = b" if "a < kMaxActiveSources" "b < kMaxActiveSources" "sl_active (slots[i := slot] ! a)"
      "sl_active (slots[i := slot] ! b)" "sl_id (slots[i := slot] ! a) = sl_id (slots[i := slot] ! b)" for a b
  proof -
    have f: "sl_active (slots ! j) \<and> sl_id (slots ! j) = sl_id (slots[i := slot] ! j)"
      if "j < kMaxActiveSources" "sl_active (slots[i := slot] ! j)" for j
      using that assms(2,4) calculation(2) by (cases "j = i") auto
    show ?thesis
      using assms(1) f [OF that(1,3)] f [OF that(2,4)] that(1,2,5) calculation(2) unfolding slots_ok_def by metis
  qed
  ultimately show ?thesis unfolding slots_ok_def by auto
qed

lemma slot_nth_ok: "slots_ok slots \<Longrightarrow> i < kMaxActiveSources \<Longrightarrow> slot_ok (slots ! i)"
  by (simp add: slots_ok_def)

lemma give_ok:
  assumes "slot_ok slot" "sl_active slot" "1 \<le> k" "k < kKeyCount" "frontend_index f < kFrontendKeyDomain"
  shows "slot_ok (give k f slot)"
  using assms give_fields [OF assms(1,4), of f]
  by (auto simp: slot_ok_def nth_list_update)

lemma take_away_ok:
  assumes "slot_ok slot" "sl_active slot" "k < kKeyCount"
  shows "slot_ok (take_away k slot)"
  using assms take_away_fields [OF assms(1,3)]
  by (auto simp: slot_ok_def nth_list_update)

lemma owners_give:
  assumes ok: "slots_ok slots" and i: "i < kMaxActiveSources" and k: "k < kKeyCount" "k \<notin> held (slots ! i)"
  shows "owners (slots[i := give k f (slots ! i)]) g =
    (if g = f \<and> \<not> is_toggle_key (word_of_nat k) then insert (i, k) (owners slots g) else owners slots g)"
proof -
  note so = slot_nth_ok [OF ok i] and len = ok [unfolded slots_ok_def, THEN conjunct1]
  note gf = give_fields [OF so k(1), of f]
  have "sl_effective_ids (give k f (slots ! i)) ! j = (if j = k then f else sl_effective_ids (slots ! i) ! j)" for j
    using so k(1) gf(3) by (auto simp: slot_ok_def nth_list_update)
  then show ?thesis using i len k(2) gf(1) by (auto simp: owners_def nth_list_update split: if_splits)
qed

lemma owners_take_away:
  assumes ok: "slots_ok slots" and i: "i < kMaxActiveSources" and k: "k < kKeyCount"
  shows "owners (slots[i := take_away k (slots ! i)]) g = owners slots g - {(i, k)}"
proof -
  note so = slot_nth_ok [OF ok i] and len = ok [unfolded slots_ok_def, THEN conjunct1]
  note tf = take_away_fields [OF so k]
  have "sl_effective_ids (take_away k (slots ! i)) ! j = sl_effective_ids (slots ! i) ! j" if "j \<noteq> k" for j
    using tf(3) that by simp
  then show ?thesis using i len tf(1) by (auto simp: owners_def nth_list_update split: if_splits)
qed

lemma owners_blank:
  assumes "slots_ok slots" "i < kMaxActiveSources" "held (slots ! i) = held slot" "held slot = {}"
  shows "owners (slots[i := slot]) g = owners slots g"
  using assms by (auto simp: owners_def slots_ok_def nth_list_update split: if_splits)

lemma counts_ok_nth:
  assumes "slots_ok slots" "counts_ok slots counts" "frontend_index f < kFrontendKeyDomain"
  shows "unat (counts ! frontend_index f) = card (owners slots f)" "unat (counts ! frontend_index f) \<le> 408"
    "counts ! frontend_index f = 0 \<longleftrightarrow> owners slots f = {}"
  using assms(2,3) owners_finite [OF assms(1), of f]
  by (auto simp: counts_ok_def unat_eq_zero [symmetric])

lemma frontend_index_inj: "frontend_index f = frontend_index g \<longleftrightarrow> f = g"
  by (auto simp: frontend_index_def dest: unsigned_word_eqI)

lemma counts_ok_change:
  assumes "counts_ok slots counts" "frontend_index f < kFrontendKeyDomain"
    "\<And>g. g \<noteq> f \<Longrightarrow> owners slots' g = owners slots g" "unat c = card (owners slots' f)"
  shows "counts_ok slots' (counts[frontend_index f := c])"
  using assms by (auto simp: counts_ok_def nth_list_update frontend_index_inj)

lemma counts_ok_same:
  assumes "counts_ok slots counts" "\<And>g. owners slots' g = owners slots g"
  shows "counts_ok slots' counts"
  using assms by (simp add: counts_ok_def)

lemma unat_inc_u16: "unat (c :: u16) \<le> 408 \<Longrightarrow> unat (c + 1) = unat c + 1"
  using unat_add_no_wrap [of c 1] by simp

lemma unat_dec_u16: "(c :: u16) \<noteq> 0 \<Longrightarrow> unat (c - 1) = unat c - 1"
  by (simp add: unat_minus_one)

text \<open>After a recovery nothing is held, so re-arming keeps the keyboard and the owners in step.\<close>

definition blank :: "'s OwnershipEngine \<Rightarrow> bool" where
  "blank e \<longleftrightarrow> (\<forall>slot\<in>set (oe_sources e). slot = default_slot)"

definition quiet :: "'s OwnershipEngine \<Rightarrow> bool" where
  "quiet e \<longleftrightarrow> (oe_recovery_done e \<longrightarrow> oe_state e = Desynchronized \<and> blank e)"

lemma blank_clear_state [simp]: "blank (clear_state e)"
  by (simp add: blank_def clear_state_def)

lemma blank_owners:
  assumes "blank e"
  shows "owners (oe_sources e) f = {}"
proof -
  have "held (oe_sources e ! i) = {}" if "i < length (oe_sources e)" for i
    using assms that by (metis blank_def held_default nth_mem)
  then show ?thesis by (auto simp: owners_def)
qed

lemma drop_owner_flags:
  "drop_owner f e s = (e', s') \<Longrightarrow> oe_recovery_done e' = oe_recovery_done e \<and> oe_state e' = oe_state e"
  by (auto simp: drop_owner_def release_sink_def count_up_def Let_def split: if_splits)

lemma add_owner_flags:
  "add_owner f e s = (r, e', s') \<Longrightarrow> oe_recovery_done e' = oe_recovery_done e"
  by (auto simp: add_owner_def press_sink_def count_up_def Let_def split: if_splits)

lemma process_press_flags:
  "process_press event f i e s = (r, e', s') \<Longrightarrow> oe_recovery_done e' = oe_recovery_done e"
  using add_owner_flags
  by (fastforce simp: process_press_def press_sink_def count_up_def put_slot_def Let_def split: if_splits)

lemma process_release_flags:
  "process_release event i e s = (r, e', s') \<Longrightarrow> oe_recovery_done e' = oe_recovery_done e"
  using drop_owner_flags
  by (fastforce simp: process_release_def count_up_def put_slot_def Let_def split: if_splits prod.splits)

lemma process_quiet:
  assumes q: "quiet e" and p: "process event e s = (r, e', s')"
  shows "quiet e'"
proof (cases "oe_state e = Desynchronized")
  case True
  then show ?thesis using p q by (auto simp: process_def quiet_def blank_def count_up_def)
next
  case False
  then have "\<not> oe_recovery_done e" using q by (simp add: quiet_def)
  moreover have "oe_recovery_done e' = oe_recovery_done e"
    using p process_press_flags process_release_flags
    by (fastforce simp: process_def count_up_def Let_def split: if_splits option.splits)
  ultimately show ?thesis by (simp add: quiet_def)
qed

lemma find_source_blank: "blank e \<Longrightarrow> find_source source (oe_sources e) = None"
  by (auto simp: blank_def find_source_def first_index_None default_slot_def)

lemma disconnect_keys_flags:
  "fold (disconnect_key i) ks (e, s) = (e', s') \<Longrightarrow> oe_recovery_done e' = oe_recovery_done e"
proof (induction ks arbitrary: e s)
  case (Cons k ks)
  obtain e1 s1 where d: "disconnect_key i k (e, s) = (e1, s1)" by force
  then have "oe_recovery_done e1 = oe_recovery_done e"
    using drop_owner_flags by (fastforce simp: disconnect_key_def put_slot_def Let_def split: if_splits)
  with Cons d show ?case by auto
qed simp

lemma disconnect_quiet:
  assumes q: "quiet e" and d: "disconnect_source source e s = (r, e', s')"
  shows "quiet e'"
proof (cases "oe_recovery_done e")
  case True
  then have "blank e" using q by (simp add: quiet_def)
  then show ?thesis
    using d q find_source_blank [of e source]
    by (auto simp: disconnect_source_def count_up_def quiet_def blank_def Let_def split: if_splits)
next
  case False
  then have "\<not> oe_recovery_done e'"
    using d disconnect_keys_flags
    by (fastforce simp: disconnect_source_def count_up_def put_slot_def Let_def split: if_splits option.splits prod.splits)
  then show ?thesis by (simp add: quiet_def)
qed

lemma emergency_recover_blank:
  assumes "quiet e" "emergency_recover e s = (r, e', s')"
  shows "quiet e'" "blank e'"
  using assms
  by (auto simp: emergency_recover_def recovery_sink_def count_up_def quiet_def blank_def clear_state_def split: if_splits)

definition toggle_id :: "FrontendKeyId \<Rightarrow> bool" where
  "toggle_id f \<longleftrightarrow> f = Id_CapsLock \<or> f = Id_Kana"

subsection \<open>The emulated keyboard sees a key down exactly while some source holds it\<close>

text \<open>
  The contract of a sink: \<open>down\<close> is the set of frontend ids that are pressed in the world. Inside the
  locale, every operation of the engine keeps the pressed keys in step with the owners, except for the
  two toggle keys, whose presses are complete actions.
\<close>

locale key_sink =
  fixes press release :: "FrontendKeyId \<Rightarrow> 's \<Rightarrow> 's" and all_release :: "'s \<Rightarrow> 's"
    and down :: "'s \<Rightarrow> FrontendKeyId set"
  assumes down_press: "down (press f s) = insert f (down s)"
    and down_release: "down (release f s) = down s - {f}"
    and down_all_release: "f \<in> down (all_release s) \<Longrightarrow> toggle_id f"
begin

definition sink :: "'s Sink" where
  "sink = \<lparr>sk_press = Some press, sk_release = Some release, sk_all_release = Some all_release\<rparr>"

definition in_sync :: "'s OwnershipEngine \<Rightarrow> 's \<Rightarrow> bool" where
  "in_sync e s \<longleftrightarrow>
     engine_ok e \<and> oe_sink e = sink \<and>
     (\<forall>f. \<not> toggle_id f \<longrightarrow> (f \<in> down s \<longleftrightarrow> owners (oe_sources e) f \<noteq> {}))"

lemma in_sync_count_up [simp]: "in_sync (count_up f e) s = in_sync e s"
  by (simp add: in_sync_def engine_ok_def count_up_def)

lemma in_sync_state [simp]: "in_sync (e\<lparr>oe_state := st\<rparr>) s = in_sync e s"
  "in_sync (e\<lparr>oe_recovery_done := b\<rparr>) s = in_sync e s" "in_sync (e\<lparr>oe_shift_mode := m\<rparr>) s = in_sync e s"
  by (simp_all add: in_sync_def engine_ok_def)

lemma drop_owner_sync:
  assumes sl: "slots_ok (oe_sources e)" and before: "slots_ok slots" "counts_ok slots (oe_owner_counts e)"
    and own: "(i, k) \<in> owners slots f" "\<And>g. owners (oe_sources e) g = owners slots g - {(i, k)}"
    and f: "frontend_index f < kFrontendKeyDomain" and snk: "oe_sink e = sink"
    and dn: "\<forall>g. \<not> toggle_id g \<longrightarrow> (g \<in> down s \<longleftrightarrow> owners slots g \<noteq> {})"
    and d: "drop_owner f e s = (e', s')"
  shows "in_sync e' s'" "oe_sources e' = oe_sources e"
proof -
  let ?c = "oe_owner_counts e ! frontend_index f"
  let ?e = "e\<lparr>oe_owner_counts := (oe_owner_counts e)[frontend_index f := ?c - 1]\<rparr>"
  have ne: "?c \<noteq> 0" using counts_ok_nth(3) [OF before f] own(1) by auto
  have len: "frontend_index f < length (oe_owner_counts e)" using before(2) f by (simp add: counts_ok_def)
  have other: "owners (oe_sources e) g = owners slots g" if "g \<noteq> f" for g
    using own that by (auto simp: owners_def)
  have cnt: "unat (?c - 1) = card (owners (oe_sources e) f)"
    using unat_dec_u16 [OF ne] counts_ok_nth(1) [OF before f] own owners_finite(1) [OF before(1), of f] by simp
  have eok: "engine_ok ?e"
    using sl counts_ok_change [OF before(2) f other cnt] by (simp add: engine_ok_def)
  have zero: "?c - 1 = 0 \<longleftrightarrow> owners (oe_sources e) f = {}"
    using counts_ok_nth(3) [OF sl _ f, of "oe_owner_counts ?e"] eok len by (simp add: engine_ok_def)
  show "in_sync e' s'"
  proof (cases "?c - 1 = 0")
    case True
    then have r: "(e', s') = release_sink f ?e s" using d ne len by (simp add: drop_owner_def Let_def word_gt_0)
    then have "s' = release f s" "in_sync e' s' = in_sync ?e s'"
      using snk by (simp_all add: release_sink_def sink_def)
    moreover have "in_sync ?e (release f s)"
      unfolding in_sync_def down_release
    proof (intro conjI allI impI)
      fix g assume "\<not> toggle_id g"
      then show "g \<in> down s - {f} \<longleftrightarrow> owners (oe_sources ?e) g \<noteq> {}"
        using dn other [of g] zero True by (cases "g = f") auto
    qed (use eok snk in simp_all)
    ultimately show ?thesis by simp
  next
    case False
    then have "e' = ?e" "s' = s" using d ne len by (simp_all add: drop_owner_def Let_def word_gt_0)
    moreover have "g \<in> down s \<longleftrightarrow> owners (oe_sources ?e) g \<noteq> {}" if "\<not> toggle_id g" for g
      using dn other [of g] zero False own(1) that by (cases "g = f") auto
    ultimately show ?thesis using eok snk by (simp add: in_sync_def)
  qed
  show "oe_sources e' = oe_sources e"
    using d by (auto simp: drop_owner_def release_sink_def count_up_def Let_def split: if_splits)
qed

lemma add_owner_sync:
  assumes sl: "slots_ok (oe_sources e)" and before: "slots_ok slots" "counts_ok slots (oe_owner_counts e)"
    and own: "(i, k) \<notin> owners slots f" "owners (oe_sources e) f = insert (i, k) (owners slots f)"
      "\<And>g. g \<noteq> f \<Longrightarrow> owners (oe_sources e) g = owners slots g"
    and f: "frontend_index f < kFrontendKeyDomain" and snk: "oe_sink e = sink"
    and dn: "\<And>g. \<not> toggle_id g \<Longrightarrow> g \<in> down s \<longleftrightarrow> owners slots g \<noteq> {}"
    and d: "add_owner f e s = (r, e', s')"
  shows "in_sync e' s' \<and> (r = Injected \<or> r = Accepted)"
proof -
  let ?c = "oe_owner_counts e ! frontend_index f"
  let ?counts = "(oe_owner_counts e)[frontend_index f := ?c + 1]"
  have cnt: "unat (?c + 1) = card (owners (oe_sources e) f)"
    using unat_inc_u16 [OF counts_ok_nth(2) [OF before f]] counts_ok_nth(1) [OF before f] own(1,2)
      owners_finite(1) [OF before(1), of f] by simp
  have co: "counts_ok (oe_sources e) ?counts" by (rule counts_ok_change [OF before(2) f own(3) cnt])
  have s': "s' = (if ?c = 0 then press f s else s)" and e': "oe_sources e' = oe_sources e"
      "oe_owner_counts e' = ?counts" "oe_sink e' = sink" and r: "r = Injected \<or> r = Accepted"
    using d snk by (auto simp: add_owner_def press_sink_def sink_def count_up_def Let_def split: if_splits)
  have "g \<in> down s' \<longleftrightarrow> owners (oe_sources e) g \<noteq> {}" if "\<not> toggle_id g" for g
  proof (cases "g = f")
    case True
    then show ?thesis using s' own(2) dn [OF that] counts_ok_nth(3) [OF before f] by (auto simp: down_press)
  next
    case False
    then show ?thesis using s' own(3) dn [OF that] by (auto simp: down_press)
  qed
  then show ?thesis using r sl co e' by (simp add: in_sync_def engine_ok_def)
qed

lemma press_slot_sync:
  assumes sync: "in_sync e s" and i: "i < kMaxActiveSources" "sl_active (oe_sources e ! i)"
    and ev: "is_valid_event event" "frontend_index effective < kFrontendKeyDomain"
      "is_toggle_key (ev_key event) \<Longrightarrow> toggle_id effective"
    and p: "process_press event effective i e s = (r, e', s')"
  shows "in_sync e' s' \<and> (r = Duplicate \<or> r = Injected \<or> r = Accepted)"
proof -
  let ?slots = "oe_sources e" and ?k = "key_index (ev_key event)"
  have so: "slots_ok ?slots" and co: "counts_ok ?slots (oe_owner_counts e)" and snk: "oe_sink e = sink"
    and dn: "\<not> toggle_id f \<Longrightarrow> f \<in> down s \<longleftrightarrow> owners ?slots f \<noteq> {}" for f
    using sync by (auto simp: in_sync_def engine_ok_def)
  have k: "?k < kKeyCount" "1 \<le> ?k" "word_of_nat ?k = ev_key event"
    using ev(1) by (auto simp: is_valid_event_def key_index_def kKeyCount_def word_less_nat_alt)
      (metis One_nat_def Suc_leI neq0_conv unat_eq_zero)
  show ?thesis
  proof (cases "bit_is_set (?slots ! i) ?k")
    case True
    then show ?thesis using p sync by (auto simp: process_press_def)
  next
    case False
    then have nh: "?k \<notin> held (?slots ! i)" by (simp add: held_def)
    let ?slot = "give ?k effective (?slots ! i)" and ?up = "\<lambda>c. c\<lparr>oc_accepted_events := oc_accepted_events c + 1\<rparr>"
    let ?e = "count_up ?up (put_slot i ?slot e)" and ?new = "?slots[i := ?slot]"
    have slot: "(set_bit (?slots ! i) ?k)\<lparr>sl_effective_ids := (sl_effective_ids (set_bit (?slots ! i) ?k))[?k := effective]\<rparr> = ?slot"
      by (simp add: give_def set_bit_def)
    have gok: "slots_ok ?new"
      using give_ok [OF slot_nth_ok [OF so i(1)] i(2) k(2,1) ev(2)] give_fields(4,5) [OF slot_nth_ok [OF so i(1)] k(1)] i
      by (intro slots_ok_update [OF so i(1)]) auto
    note og = owners_give [OF so i(1) k(1) nh, of effective, unfolded k(3)]
    have ef: "oe_sources ?e = ?new" "oe_owner_counts ?e = oe_owner_counts e" "oe_sink ?e = sink"
      using snk by (simp_all add: count_up_def put_slot_def)
    show ?thesis
    proof (cases "is_toggle_key (ev_key event)")
      case True
      then have r: "r = Injected" "(e', s') = press_sink effective ?e s"
        using p False slot by (auto simp: process_press_def Let_def)
      have "in_sync ?e (press effective s)"
        using og True gok co ef dn ev(3) by (auto simp: in_sync_def engine_ok_def down_press counts_ok_same)
      then show ?thesis using r ef(3) by (simp add: press_sink_def sink_def)
    next
      case nt: False
      have "in_sync e' s' \<and> (r = Injected \<or> r = Accepted)"
      proof (rule add_owner_sync [of ?e ?slots, unfolded ef, OF gok so co _ _ _ ev(2) refl])
        show "(i, ?k) \<notin> owners ?slots effective" using nh by (simp add: owners_def)
        show "owners ?new effective = insert (i, ?k) (owners ?slots effective)" using og nt by simp
        show "owners ?new g = owners ?slots g" if "g \<noteq> effective" for g using og that by simp
        show "add_owner effective ?e s = (r, e', s')" using p False slot nt by (simp add: process_press_def Let_def)
      qed (rule dn)
      then show ?thesis by blast
    qed
  qed
qed

lemma take_away_sync:
  assumes sync: "in_sync e s" and i: "i < kMaxActiveSources" "sl_active (oe_sources e ! i)"
    and k: "k \<in> held (oe_sources e ! i)" "\<not> is_toggle_key (word_of_nat k)"
    and d: "drop_owner (sl_effective_ids (oe_sources e ! i) ! k)
      (count_up up (put_slot i (take_away k (oe_sources e ! i)) e)) s = (e', s')"
  shows "in_sync e' s' \<and> oe_sources e' = (oe_sources e)[i := take_away k (oe_sources e ! i)]"
proof -
  let ?slots = "oe_sources e" and ?f = "sl_effective_ids (oe_sources e ! i) ! k"
  let ?e = "count_up up (put_slot i (take_away k (?slots ! i)) e)"
  let ?new = "?slots[i := take_away k (?slots ! i)]"
  have so: "slots_ok ?slots" and co: "counts_ok ?slots (oe_owner_counts e)" and snk: "oe_sink e = sink"
    and dn: "\<forall>f. \<not> toggle_id f \<longrightarrow> (f \<in> down s \<longleftrightarrow> owners ?slots f \<noteq> {})"
    using sync by (auto simp: in_sync_def engine_ok_def)
  have sok: "slot_ok (?slots ! i)" using slot_nth_ok [OF so i(1)] .
  then have kc: "k < kKeyCount" "frontend_index ?f < kFrontendKeyDomain" using k(1) by (auto simp: slot_ok_def)
  have ef: "oe_sources ?e = ?new" "oe_owner_counts ?e = oe_owner_counts e" "oe_sink ?e = sink"
    using snk by (simp_all add: count_up_def put_slot_def)
  have new: "slots_ok ?new"
    using take_away_ok [OF sok i(2) kc(1)] take_away_fields(4,5) [OF sok kc(1)] i
    by (intro slots_ok_update [OF so i(1)]) auto
  have own: "(i, k) \<in> owners ?slots ?f" using i k so by (auto simp: owners_def slots_ok_def)
  note r = drop_owner_sync [of ?e ?slots, unfolded ef, OF new so co own owners_take_away [OF so i(1) kc(1)] kc(2) refl dn d]
  then show ?thesis by simp
qed

lemma same_owners_sync:
  assumes "in_sync e s" "slots_ok slots" "\<And>g. owners slots g = owners (oe_sources e) g"
  shows "in_sync (e\<lparr>oe_sources := slots\<rparr>) s"
  using assms counts_ok_same [of "oe_sources e" "oe_owner_counts e" slots]
  by (simp add: in_sync_def engine_ok_def)

lemma blank_sync:
  assumes "in_sync e s" "i < kMaxActiveSources" "held (oe_sources e ! i) = {}"
  shows "in_sync (put_slot i default_slot e) s"
proof -
  have so: "slots_ok (oe_sources e)" using assms(1) by (simp add: in_sync_def engine_ok_def)
  have "owners ((oe_sources e)[i := default_slot]) g = owners (oe_sources e) g" for g
    using owners_blank [OF so assms(2)] assms(3) by simp
  moreover have "slots_ok ((oe_sources e)[i := default_slot])"
    by (rule slots_ok_update [OF so assms(2) slot_ok_default]) (simp add: default_slot_def)
  ultimately show ?thesis unfolding put_slot_def by (intro same_owners_sync [OF assms(1)])
qed

lemma toggle_take_away_sync:
  assumes sync: "in_sync e s" and i: "i < kMaxActiveSources" "sl_active (oe_sources e ! i)"
    and k: "k \<in> held (oe_sources e ! i)" "is_toggle_key (word_of_nat k)"
  shows "in_sync (count_up up (put_slot i (take_away k (oe_sources e ! i)) e)) s"
proof -
  let ?slots = "oe_sources e"
  have so: "slots_ok ?slots" using sync by (simp add: in_sync_def engine_ok_def)
  have sok: "slot_ok (?slots ! i)" using slot_nth_ok [OF so i(1)] .
  then have kc: "k < kKeyCount" using k(1) by (auto simp: slot_ok_def)
  have "owners (?slots[i := take_away k (?slots ! i)]) g = owners ?slots g" for g
    using owners_take_away [OF so i(1) kc] k(2) by (auto simp: owners_def)
  moreover have "slots_ok (?slots[i := take_away k (?slots ! i)])"
    using take_away_ok [OF sok i(2) kc] take_away_fields(4,5) [OF sok kc] i
    by (intro slots_ok_update [OF so i(1)]) auto
  ultimately show ?thesis
    unfolding in_sync_count_up put_slot_def by (intro same_owners_sync [OF sync])
qed

lemma release_slot_sync:
  assumes sync: "in_sync e s" and i: "i < kMaxActiveSources" "sl_active (oe_sources e ! i)"
    and k: "key_index (ev_key event) \<in> held (oe_sources e ! i)"
    and p: "process_release event i e s = (r, e', s')"
  shows "in_sync e' s'"
proof -
  let ?k = "key_index (ev_key event)" and ?up = "\<lambda>c. c\<lparr>oc_accepted_events := oc_accepted_events c + 1\<rparr>"
  let ?slot = "take_away ?k (oe_sources e ! i)"
  let ?e = "count_up ?up (put_slot i ?slot e)"
  obtain e1 s1 where d: "(if \<not> is_toggle_key (ev_key event)
      then drop_owner (sl_effective_ids (oe_sources e ! i) ! ?k) ?e s else (?e, s)) = (e1, s1)" by force
  have w: "word_of_nat ?k = ev_key event" by (simp add: key_index_def)
  have len: "i < length (oe_sources e)" and sok: "slot_ok (oe_sources e ! i)"
    using sync i(1) slot_nth_ok by (auto simp: in_sync_def engine_ok_def slots_ok_def)
  have 1: "in_sync e1 s1 \<and> oe_sources e1 = (oe_sources e)[i := ?slot]"
  proof (cases "is_toggle_key (ev_key event)")
    case True
    then show ?thesis using toggle_take_away_sync [OF sync i k] d w by (auto simp: put_slot_def count_up_def)
  next
    case False
    then show ?thesis using take_away_sync [OF sync i k, of ?up e1 s1] d w by simp
  qed
  have e': "(r, e', s') = (Accepted, if \<not> has_held_keys (oe_sources e1 ! i) then put_slot i default_slot e1 else e1, s1)"
    using p d [unfolded take_away_def] by (simp add: process_release_def Let_def)
  have "length (sl_held ?slot) = kKeyStateWords"
    using take_away_fields(2) [OF sok] sok k by (auto simp: slot_ok_def)
  then have "held (oe_sources e1 ! i) = {}" if "\<not> has_held_keys (oe_sources e1 ! i)"
    using that 1 len has_held_keys_held [of ?slot] by simp
  with 1 e' i(1) show ?thesis by (auto intro: blank_sync)
qed

lemma find_source_Some:
  assumes "slots_ok slots" "find_source source slots = Some i"
  shows "i < kMaxActiveSources" "sl_active (slots ! i)" "sl_id (slots ! i) = source"
  using first_index_Some [OF assms(2) [unfolded find_source_def]] assms(1) by (auto simp: slots_ok_def)

lemma allocate_sync:
  assumes sync: "in_sync e s" and none: "find_source source (oe_sources e) = None"
    and al: "allocate_source source (oe_sources e) = Some (i, slots)"
  shows "in_sync (e\<lparr>oe_sources := slots\<rparr>) s" "i < kMaxActiveSources" "sl_active (slots ! i)"
proof -
  let ?new = "default_slot\<lparr>sl_active := True, sl_id := source\<rparr>"
  have so: "slots_ok (oe_sources e)" using sync by (simp add: in_sync_def engine_ok_def)
  then have len: "length (oe_sources e) = kMaxActiveSources" by (simp add: slots_ok_def)
  have i: "first_index (\<lambda>slot. \<not> sl_active slot) (oe_sources e) = Some i" and slots: "slots = (oe_sources e)[i := ?new]"
    using al by (auto simp: allocate_source_def)
  note f = first_index_Some [OF i]
  then show "i < kMaxActiveSources" "sl_active (slots ! i)" using len slots by auto
  have "oe_sources e ! i = default_slot" using slot_nth_ok [OF so] f len by (auto simp: slot_ok_def)
  moreover have hn: "held ?new = {}" using held_default by (simp add: held_def bit_is_set_def)
  ultimately have own: "owners slots g = owners (oe_sources e) g" for g
    unfolding slots using owners_blank [OF so, of i ?new] f len by simp
  have "slot_ok ?new" using slot_ok_default hn by (simp add: slot_ok_def)
  moreover have "\<not> (sl_active (oe_sources e ! j) \<and> sl_id (oe_sources e ! j) = source)" if "j < kMaxActiveSources" for j
    using none that len by (auto simp: find_source_def first_index_None_nth)
  ultimately have "slots_ok slots"
    unfolding slots_ok_def slots using so f len set_update_subset_insert [of "oe_sources e" i ?new]
    by (auto simp: slots_ok_def nth_list_update)
  with own show "in_sync (e\<lparr>oe_sources := slots\<rparr>) s" by (intro same_owners_sync [OF sync])
qed

lemma effective_facts:
  assumes "is_valid_event event" "to_frontend_key_id (ev_key event) = Some mapped"
  shows "frontend_index (effective_frontend_key_id mapped mode) < kFrontendKeyDomain"
    "is_toggle_key (ev_key event) \<Longrightarrow> toggle_id (effective_frontend_key_id mapped mode)"
proof -
  obtain f where "to_frontend_key_id (ev_key event) = Some f" "unat f < 128"
    using assms(1) frontend_id_defined [of "ev_key event"] by (auto simp: is_valid_event_def)
  with assms(2) show "frontend_index (effective_frontend_key_id mapped mode) < kFrontendKeyDomain"
    by (simp add: effective_frontend_key_id_def frontend_index_def key_constants)
  have "to_frontend_key_id Key_CapsLock = Some Id_CapsLock" "to_frontend_key_id Key_Kana = Some Id_Kana"
    by code_simp+
  with assms(2) show "toggle_id (effective_frontend_key_id mapped mode)" if "is_toggle_key (ev_key event)"
    using that by (auto simp: is_toggle_key_def toggle_id_def effective_frontend_key_id_def)
qed

lemma process_sync:
  assumes sync: "in_sync e s" and p: "process event e s = (r, e', s')"
  shows "in_sync e' s'"
proof (cases "oe_state e = Desynchronized \<or> \<not> is_valid_event event \<or> to_frontend_key_id (ev_key event) = None")
  case True
  then show ?thesis using p sync by (auto simp: process_def split: if_splits option.splits)
next
  case False
  then obtain mapped where m: "to_frontend_key_id (ev_key event) = Some mapped" and v: "is_valid_event event"
      and st: "oe_state e \<noteq> Desynchronized" by auto
  let ?eff = "effective_frontend_key_id mapped (oe_shift_mode e)"
  note eff = effective_facts [OF v m]
  have so: "slots_ok (oe_sources e)" using sync by (simp add: in_sync_def engine_ok_def)
  show ?thesis
  proof (cases "find_source (ev_source event) (oe_sources e)")
    case None
    show ?thesis
    proof (cases "ev_action event = Action_Press \<and> allocate_source (ev_source event) (oe_sources e) \<noteq> None")
      case True
      then obtain i slots where al: "allocate_source (ev_source event) (oe_sources e) = Some (i, slots)" by auto
      note a = allocate_sync [OF sync None al]
      have "process_press event ?eff i (e\<lparr>oe_sources := slots\<rparr>) s = (r, e', s')"
        using p st v m None True al by (simp add: process_def Let_def)
      with press_slot_sync [OF a(1,2) _ v eff] a(3) show ?thesis by simp
    next
      case False
      then show ?thesis using p st v m None sync by (auto simp: process_def Let_def split: if_splits option.splits)
    qed
  next
    case (Some i)
    note fs = find_source_Some [OF so Some]
    show ?thesis
    proof (cases "ev_action event = Action_Press")
      case True
      then have "process_press event ?eff i e s = (r, e', s')" using p st v m Some by (simp add: process_def Let_def)
      then show ?thesis using press_slot_sync [OF sync fs(1,2) v eff] by blast
    next
      case False
      show ?thesis
      proof (cases "bit_is_set (oe_sources e ! i) (key_index (ev_key event))")
        case True
        then have "process_release event i e s = (r, e', s')" using p st v m Some False by (simp add: process_def Let_def)
        moreover have "key_index (ev_key event) \<in> held (oe_sources e ! i)"
          using True v by (auto simp: held_def is_valid_event_def key_index_def key_constants word_less_nat_alt)
        ultimately show ?thesis using release_slot_sync [OF sync fs(1,2)] by blast
      next
        case no: False
        then show ?thesis using p st v m Some False sync by (auto simp: process_def Let_def)
      qed
    qed
  qed
qed

lemma disconnect_key_sync:
  assumes sync: "in_sync e s" and i: "i < kMaxActiveSources" "sl_active (oe_sources e ! i)" and k: "k < kKeyCount"
    and d: "disconnect_key i k (e, s) = (e', s')"
  shows "in_sync e' s'" "sl_active (oe_sources e' ! i)" "held (oe_sources e' ! i) = held (oe_sources e ! i) - {k}"
proof -
  let ?slot = "oe_sources e ! i"
  have so: "slots_ok (oe_sources e)" using sync by (simp add: in_sync_def engine_ok_def)
  note tf = take_away_fields [OF slot_nth_ok [OF so i(1)] k]
  have len: "i < length (oe_sources e)" using so i(1) by (simp add: slots_ok_def)
  have all: "in_sync e' s' \<and> sl_active (oe_sources e' ! i) \<and> held (oe_sources e' ! i) = held (oe_sources e ! i) - {k}"
  proof (cases "bit_is_set ?slot k")
    case False
    then show ?thesis using d sync i(2) by (auto simp: disconnect_key_def held_def)
  next
    case True
    then have h: "k \<in> held ?slot" using k by (simp add: held_def key_constants)
    let ?e = "put_slot i (take_away k ?slot) e"
    have ta: "(clear_bit ?slot k)\<lparr>sl_effective_ids := (sl_effective_ids ?slot)[k := 0]\<rparr> = take_away k ?slot"
      by (simp add: take_away_def)
    have id: "count_up (\<lambda>c. c) x = x" for x :: "'s OwnershipEngine" by (simp add: count_up_def)
    show ?thesis
    proof (cases "is_toggle_key (word_of_nat k)")
      case t: True
      then have "e' = ?e" "s' = s" using d True ta by (simp_all add: disconnect_key_def Let_def)
      then show ?thesis using toggle_take_away_sync [OF sync i h t, of "\<lambda>c. c", unfolded id] tf(1,4) i(2) len
        by (simp add: put_slot_def)
    next
      case t: False
      then have "drop_owner (sl_effective_ids ?slot ! k) ?e s = (e', s')"
        using d True ta by (simp add: disconnect_key_def Let_def)
      from take_away_sync [OF sync i h t, of "\<lambda>c. c" e' s', unfolded id, OF this] show ?thesis
        using tf(1,4) i(2) len by simp
    qed
  qed
  then show "in_sync e' s'" "sl_active (oe_sources e' ! i)" "held (oe_sources e' ! i) = held (oe_sources e ! i) - {k}"
    by blast+
qed

lemma disconnect_keys_sync:
  "in_sync e s \<Longrightarrow> i < kMaxActiveSources \<Longrightarrow> sl_active (oe_sources e ! i) \<Longrightarrow> set ks \<subseteq> {..<kKeyCount} \<Longrightarrow>
   fold (disconnect_key i) ks (e, s) = (e', s') \<Longrightarrow>
   in_sync e' s' \<and> held (oe_sources e' ! i) = held (oe_sources e ! i) - set ks"
proof (induction ks arbitrary: e s)
  case (Cons k ks)
  obtain e1 s1 where d: "disconnect_key i k (e, s) = (e1, s1)" by force
  have kc: "k < kKeyCount" using Cons.prems(4) by simp
  note dk = disconnect_key_sync [OF Cons.prems(1-3) kc d]
  have "in_sync e' s' \<and> held (oe_sources e' ! i) = held (oe_sources e1 ! i) - set ks"
    using Cons.prems(2,4,5) d by (intro Cons.IH [OF dk(1) _ dk(2)]) auto
  with dk(3) show ?case by auto
qed simp

lemma disconnect_source_sync:
  assumes sync: "in_sync e s" and d: "disconnect_source source e s = (r, e', s')"
  shows "in_sync e' s'"
proof (cases "source = 0 \<or> find_source source (oe_sources e) = None")
  case True
  then show ?thesis using d sync
    by (cases "source = 0") (auto simp: disconnect_source_def Let_def)
next
  case False
  then obtain i where fs: "find_source source (oe_sources e) = Some i" and nz: "source \<noteq> 0" by auto
  let ?e = "count_up (\<lambda>c. c\<lparr>oc_source_disconnects := oc_source_disconnects c + 1\<rparr>) e"
  have src: "oe_sources ?e = oe_sources e" by (simp add: count_up_def)
  have so: "slots_ok (oe_sources e)" using sync by (simp add: in_sync_def engine_ok_def)
  note f = find_source_Some [OF so fs]
  obtain e1 s1 where fo: "fold (disconnect_key i) [1..<kKeyCount] (?e, s) = (e1, s1)" by force
  have sub: "set [1..<kKeyCount] \<subseteq> {..<kKeyCount}" by auto
  have e': "e' = put_slot i default_slot e1" "s' = s1"
    using d nz fs fo by (auto simp: disconnect_source_def Let_def)
  have "in_sync e1 s1 \<and> held (oe_sources e1 ! i) = held (oe_sources e ! i) - set [1..<kKeyCount]"
    using disconnect_keys_sync [of ?e s i, unfolded src, OF _ f(1,2) sub fo] sync by simp
  moreover have "held (oe_sources e ! i) \<subseteq> set [1..<kKeyCount]"
    using slot_nth_ok [OF so f(1)] by (auto simp: slot_ok_def)
  ultimately show ?thesis using blank_sync [OF _ f(1), of e1 s1] e' by auto
qed

lemma owners_map_default: "owners (map (\<lambda>_. default_slot) slots) g = {}"
  by (auto simp: owners_def)

lemma clear_state_ok:
  assumes "in_sync e s"
  shows "engine_ok (clear_state e)" "oe_sink (clear_state e) = sink" "owners (oe_sources (clear_state e)) g = {}"
proof -
  have "slots_ok (map (\<lambda>_. default_slot) (oe_sources e))"
    using assms slot_ok_default by (auto simp: in_sync_def engine_ok_def slots_ok_def default_slot_def)
  moreover have "counts_ok (map (\<lambda>_. default_slot) (oe_sources e)) (map (\<lambda>_. 0) (oe_owner_counts e))"
    using assms by (auto simp: in_sync_def engine_ok_def counts_ok_def owners_map_default)
  ultimately show "engine_ok (clear_state e)" by (simp add: clear_state_def engine_ok_def)
  show "oe_sink (clear_state e) = sink" using assms by (simp add: clear_state_def in_sync_def)
  show "owners (oe_sources (clear_state e)) g = {}" by (simp add: clear_state_def owners_map_default)
qed

lemma emergency_recover_sync:
  assumes sync: "in_sync e s" and d: "emergency_recover e s = (r, e', s')"
  shows "in_sync e' s'"
proof (cases "oe_recovery_done e")
  case True
  then show ?thesis using d sync by (simp add: emergency_recover_def)
next
  case False
  have "in_sync (clear_state e) (all_release s)"
    using clear_state_ok [OF sync] down_all_release by (auto simp: in_sync_def)
  then show ?thesis
    using d False clear_state_ok(2) [OF sync] by (auto simp: emergency_recover_def recovery_sink_def sink_def)
qed

lemma rearm_sync:
  assumes "in_sync e s" "quiet e" "engine_rearm e = (r, e')"
  shows "in_sync e' s"
proof (cases "oe_state e \<noteq> Desynchronized \<or> \<not> oe_recovery_done e")
  case True
  then show ?thesis using assms by (auto simp: engine_rearm_def)
next
  case False
  then have "blank e" using assms(2) by (simp add: quiet_def)
  then have "owners (oe_sources e) g = {}" for g by (rule blank_owners)
  then have "in_sync (clear_state e) s"
    using assms(1) clear_state_ok [OF assms(1)] by (simp add: in_sync_def)
  then show ?thesis using False assms(3) by (auto simp: engine_rearm_def)
qed

end

end
