(* ===== verification/Keyboard_Bridge.thy ===== *)
theory Keyboard_Bridge
  imports Key_Ownership
begin

section \<open>Keyboard input bridge (np2_keyboard_input_bridge/keyboard_input_bridge.cpp)\<close>

text \<open>
  Producers put events into a FreeRTOS queue; the owner task of the emulator drains it into the ownership
  engine. The queue functions of FreeRTOS are the parameter \<open>q\<close> (a table of functions on a queue \<open>'q\<close>);
  the locale \<open>fifo_queue\<close> states what their documentation says of them. The calls of the
  emulator's \<^verbatim>\<open>keystat_*\<close> functions are recorded in a trace, which is the world of the engine. Each
  operation is one atomic step; the atomic flags are fields.
\<close>

definition kQueueCapacity :: nat where "kQueueCapacity = 64"
definition kMaxEventsPerOwnerIteration :: nat where "kMaxEventsPerOwnerIteration = 8"

datatype CommandKind = KindEvent | KindSourceDisconnect
datatype EnqueueResult = Enqueued | EnqueueInvalid | EnqueueFull | EnqueueQuarantined | EnqueueNotInitialized
datatype OwnerIterationResult =
  OwnerIdle | OwnerDrained | OwnerRecovered | OwnerQuarantined | OwnerNotInitialized

record InputCommand =
  ic_kind :: CommandKind
  ic_event :: Event
  ic_source :: SourceId

definition default_event :: Event where
  "default_event = \<lparr>ev_source = 0, ev_key = Key_Unknown, ev_action = Action_Press\<rparr>"

record 'q queue_api =
  q_create :: "nat \<Rightarrow> 'q option"
  q_send :: "InputCommand \<Rightarrow> 'q \<Rightarrow> bool \<times> 'q"
  q_receive :: "'q \<Rightarrow> InputCommand option \<times> 'q"
  q_waiting :: "'q \<Rightarrow> nat"
  q_reset :: "'q \<Rightarrow> 'q"

datatype keystat_call = KeyDown FrontendKeyId | KeyUp FrontendKeyId | AllRelease

type_synonym trace = "keystat_call list"

record 'q KeyboardInputBridge =
  kb_queue :: "'q option"
  kb_engine :: "trace OwnershipEngine"
  kb_overflow_latched :: bool
  kb_quarantine :: bool
  kb_producer_closed :: bool
  kb_recovery_complete :: bool
  kb_core_active :: bool
  kb_enqueued :: u32
  kb_dequeued :: u32
  kb_queue_overflows :: u32
  kb_queue_rejected :: u32
  kb_blocked_events :: u32
  kb_recovery_discards :: u32

definition sink_press :: "FrontendKeyId \<Rightarrow> trace \<Rightarrow> trace" where
  "sink_press key s = s @ [KeyDown key]"

definition sink_release :: "FrontendKeyId \<Rightarrow> trace \<Rightarrow> trace" where
  "sink_release key s = s @ [KeyUp key]"

definition sink_all_release :: "trace \<Rightarrow> trace" where
  "sink_all_release s = s @ [AllRelease]"

definition bridge_sink :: "trace Sink" where
  "bridge_sink = \<lparr>sk_press = Some sink_press, sk_release = Some sink_release,
     sk_all_release = Some sink_all_release\<rparr>"

definition new_bridge :: "'q KeyboardInputBridge" where
  "new_bridge =
     \<lparr>kb_queue = None, kb_engine = new_engine bridge_sink Collapsed, kb_overflow_latched = False,
      kb_quarantine = False, kb_producer_closed = False, kb_recovery_complete = False,
      kb_core_active = False, kb_enqueued = 0, kb_dequeued = 0, kb_queue_overflows = 0,
      kb_queue_rejected = 0, kb_blocked_events = 0, kb_recovery_discards = 0\<rparr>"

definition initialize :: "'q queue_api \<Rightarrow> 'q KeyboardInputBridge \<Rightarrow> bool \<times> 'q KeyboardInputBridge" where
  "initialize q b =
     (if kb_queue b \<noteq> None then (True, b)
      else case q_create q kQueueCapacity of
        None \<Rightarrow> (False, b)
      | Some queue \<Rightarrow>
          (True, b\<lparr>kb_queue := Some queue, kb_engine := discard_without_injection (kb_engine b),
             kb_overflow_latched := False, kb_quarantine := False, kb_producer_closed := False,
             kb_recovery_complete := False\<rparr>))"

definition can_enqueue :: "'q KeyboardInputBridge \<Rightarrow> bool \<times> 'q KeyboardInputBridge" where
  "can_enqueue b =
     (if kb_queue b = None then (False, b\<lparr>kb_queue_rejected := kb_queue_rejected b + 1\<rparr>)
      else if kb_producer_closed b \<or> kb_overflow_latched b \<or> kb_quarantine b
      then (False, b\<lparr>kb_blocked_events := kb_blocked_events b + 1\<rparr>)
      else (True, b))"

text \<open>The common end of \<^verbatim>\<open>enqueue\<close> and \<^verbatim>\<open>disconnect_source\<close>.\<close>

definition send_command ::
  "'q queue_api \<Rightarrow> InputCommand \<Rightarrow> 'q KeyboardInputBridge \<Rightarrow> EnqueueResult \<times> 'q KeyboardInputBridge" where
  "send_command q command b =
     (let (can, b) = can_enqueue b in
      case kb_queue b of
        None \<Rightarrow> (EnqueueNotInitialized, b)
      | Some queue \<Rightarrow>
          if \<not> can then (EnqueueQuarantined, b)
          else
            let (sent, queue) = q_send q command queue; b = b\<lparr>kb_queue := Some queue\<rparr> in
            if \<not> sent
            then (EnqueueFull, b\<lparr>kb_overflow_latched := True, kb_queue_overflows := kb_queue_overflows b + 1\<rparr>)
            else (Enqueued, b\<lparr>kb_enqueued := kb_enqueued b + 1\<rparr>))"

definition enqueue ::
  "'q queue_api \<Rightarrow> Event \<Rightarrow> 'q KeyboardInputBridge \<Rightarrow> EnqueueResult \<times> 'q KeyboardInputBridge" where
  "enqueue q event b =
     (if \<not> is_valid_event event then (EnqueueInvalid, b\<lparr>kb_queue_rejected := kb_queue_rejected b + 1\<rparr>)
      else send_command q \<lparr>ic_kind = KindEvent, ic_event = event, ic_source = 0\<rparr> b)"

definition bridge_disconnect_source ::
  "'q queue_api \<Rightarrow> SourceId \<Rightarrow> 'q KeyboardInputBridge \<Rightarrow> EnqueueResult \<times> 'q KeyboardInputBridge" where
  "bridge_disconnect_source q source b =
     (if source = 0 then (EnqueueInvalid, b\<lparr>kb_queue_rejected := kb_queue_rejected b + 1\<rparr>)
      else send_command q \<lparr>ic_kind = KindSourceDisconnect, ic_event = default_event, ic_source = source\<rparr> b)"

definition bridge_emergency ::
  "'q KeyboardInputBridge \<times> trace \<Rightarrow> 'q KeyboardInputBridge \<times> trace" where
  "bridge_emergency bs =
     (let (b, s) = bs; (_, e, s) = emergency_recover (kb_engine b) s in (b\<lparr>kb_engine := e\<rparr>, s))"

definition recover_overflow ::
  "'q queue_api \<Rightarrow> 'q KeyboardInputBridge \<times> trace \<Rightarrow> 'q KeyboardInputBridge \<times> trace" where
  "recover_overflow q bs =
     (let (b, s) = bs in
      if kb_recovery_complete b then (b, s)
      else
        let b = (case kb_queue b of
              None \<Rightarrow> b
            | Some queue \<Rightarrow>
                b\<lparr>kb_recovery_discards := kb_recovery_discards b + word_of_nat (q_waiting q queue),
                  kb_queue := Some (q_reset q queue)\<rparr>);
            (b, s) = bridge_emergency (b, s)
        in (b\<lparr>kb_quarantine := True, kb_recovery_complete := True\<rparr>, s))"

text \<open>The drain loop; the flag is \<^verbatim>\<open>drained\<close>, and \<open>None\<close> says that the loop ended without a recovery.\<close>

fun drain ::
  "'q queue_api \<Rightarrow> nat \<Rightarrow> bool \<Rightarrow> 'q KeyboardInputBridge \<times> trace \<Rightarrow>
   OwnerIterationResult \<times> 'q KeyboardInputBridge \<times> trace" where
  "drain q 0 drained (b, s) = (if drained then OwnerDrained else OwnerIdle, b, s)"
| "drain q (Suc n) drained (b, s) =
     (case q_receive q (the (kb_queue b)) of
        (None, queue) \<Rightarrow> (if drained then OwnerDrained else OwnerIdle, b\<lparr>kb_queue := Some queue\<rparr>, s)
      | (Some command, queue) \<Rightarrow>
          let b = b\<lparr>kb_queue := Some queue, kb_dequeued := kb_dequeued b + 1\<rparr> in
          case ic_kind command of
            KindEvent \<Rightarrow>
              let (result, e, s) = process (ic_event command) (kb_engine b) s; b = b\<lparr>kb_engine := e\<rparr> in
              if result = SourceCapacityExceeded then
                (OwnerRecovered, bridge_emergency (b\<lparr>kb_quarantine := True\<rparr>, s))
              else drain q n True (b, s)
          | KindSourceDisconnect \<Rightarrow>
              let (_, e, s) = disconnect_source (ic_source command) (kb_engine b) s
              in drain q n True (b\<lparr>kb_engine := e\<rparr>, s))"

definition owner_iteration ::
  "'q queue_api \<Rightarrow> 'q KeyboardInputBridge \<times> trace \<Rightarrow> OwnerIterationResult \<times> 'q KeyboardInputBridge \<times> trace" where
  "owner_iteration q bs =
     (let (b, s) = bs in
      if kb_queue b = None then (OwnerNotInitialized, b, s)
      else if kb_overflow_latched b then
        (if \<not> kb_recovery_complete b then OwnerRecovered else OwnerQuarantined, recover_overflow q (b, s))
      else if kb_quarantine b then (OwnerQuarantined, b, s)
      else drain q kMaxEventsPerOwnerIteration False (b, s))"

definition bridge_rearm :: "'q queue_api \<Rightarrow> 'q KeyboardInputBridge \<Rightarrow> bool \<times> 'q KeyboardInputBridge" where
  "bridge_rearm q b =
     (case kb_queue b of
        None \<Rightarrow> (False, b)
      | Some queue \<Rightarrow>
          if kb_producer_closed b \<or> \<not> kb_quarantine b then (False, b)
          else
            let b = b\<lparr>kb_queue := Some (q_reset q queue)\<rparr>;
                (ok, e) = engine_rearm (kb_engine b);
                b = b\<lparr>kb_engine := e\<rparr>
            in if \<not> ok then (False, b)
               else (True, b\<lparr>kb_overflow_latched := False, kb_quarantine := False,
                             kb_recovery_complete := False\<rparr>))"

definition set_core_active :: "bool \<Rightarrow> 'q KeyboardInputBridge \<Rightarrow> 'q KeyboardInputBridge" where
  "set_core_active active b = b\<lparr>kb_core_active := active\<rparr>"

definition bridge_shutdown ::
  "'q queue_api \<Rightarrow> 'q KeyboardInputBridge \<times> trace \<Rightarrow> 'q KeyboardInputBridge \<times> trace" where
  "bridge_shutdown q bs =
     (let (b, s) = bs;
          b = b\<lparr>kb_producer_closed := True, kb_queue := map_option (q_reset q) (kb_queue b)\<rparr>;
          (b, s) = (if kb_core_active b then bridge_emergency (b, s)
                    else (b\<lparr>kb_engine := discard_without_injection (kb_engine b)\<rparr>, s))
      in (b\<lparr>kb_quarantine := True, kb_recovery_complete := True\<rparr>, s))"

record BridgeCounters =
  bc_enqueued :: u32
  bc_dequeued :: u32
  bc_queue_overflows :: u32
  bc_queue_rejected :: u32
  bc_blocked_events :: u32
  bc_recovery_discards :: u32
  bc_ownership :: OwnershipCounters

definition counters :: "'q KeyboardInputBridge \<Rightarrow> BridgeCounters" where
  "counters b = \<lparr>bc_enqueued = kb_enqueued b, bc_dequeued = kb_dequeued b,
     bc_queue_overflows = kb_queue_overflows b, bc_queue_rejected = kb_queue_rejected b,
     bc_blocked_events = kb_blocked_events b, bc_recovery_discards = kb_recovery_discards b,
     bc_ownership = oe_counters (kb_engine b)\<rparr>"

subsection \<open>The trace of keyboard calls\<close>

fun step_down :: "keystat_call \<Rightarrow> FrontendKeyId set \<Rightarrow> FrontendKeyId set" where
  "step_down (KeyDown f) d = insert f d"
| "step_down (KeyUp f) d = d - {f}"
| "step_down AllRelease d = {f \<in> d. toggle_id f}"

definition keys_down :: "trace \<Rightarrow> FrontendKeyId set" where
  "keys_down s = fold step_down s {}"

interpretation bridge: key_sink sink_press sink_release sink_all_release keys_down
  by unfold_locales (auto simp: sink_press_def sink_release_def sink_all_release_def keys_down_def)

subsection \<open>Invariant of the bridge\<close>

datatype bridge_op =
  Initialize | Enqueue Event | DisconnectSource SourceId | OwnerIteration | Rearm | SetCoreActive bool | Shutdown

fun run_bridge_op ::
  "'q queue_api \<Rightarrow> bridge_op \<Rightarrow> 'q KeyboardInputBridge \<times> trace \<Rightarrow> 'q KeyboardInputBridge \<times> trace" where
  "run_bridge_op q Initialize (b, s) = (snd (initialize q b), s)"
| "run_bridge_op q (Enqueue event) (b, s) = (snd (enqueue q event b), s)"
| "run_bridge_op q (DisconnectSource source) (b, s) = (snd (bridge_disconnect_source q source b), s)"
| "run_bridge_op q OwnerIteration (b, s) = snd (owner_iteration q (b, s))"
| "run_bridge_op q Rearm (b, s) = (snd (bridge_rearm q b), s)"
| "run_bridge_op q (SetCoreActive active) (b, s) = (set_core_active active b, s)"
| "run_bridge_op q Shutdown (b, s) = bridge_shutdown q (b, s)"

text \<open>A shutdown while the core is not active drops the held keys without telling the emulator.\<close>

definition op_allowed :: "bridge_op \<Rightarrow> 'q KeyboardInputBridge \<Rightarrow> bool" where
  "op_allowed op b \<longleftrightarrow> (op = Shutdown \<longrightarrow> kb_core_active b)"

fun run_bridge ::
  "'q queue_api \<Rightarrow> bridge_op list \<Rightarrow> 'q KeyboardInputBridge \<times> trace \<Rightarrow> ('q KeyboardInputBridge \<times> trace) option" where
  "run_bridge q [] bs = Some bs"
| "run_bridge q (op # ops) bs =
     (if op_allowed op (fst bs) then run_bridge q ops (run_bridge_op q op bs) else None)"

definition bridge_ok :: "'q KeyboardInputBridge \<times> trace \<Rightarrow> bool" where
  "bridge_ok bs \<longleftrightarrow>
     (let (b, s) = bs in
      bridge.in_sync (kb_engine b) s \<and> quiet (kb_engine b) \<and>
      (kb_queue b = None \<longrightarrow> blank (kb_engine b)) \<and>
      (kb_quarantine b \<longrightarrow> blank (kb_engine b)) \<and>
      (kb_recovery_complete b \<longrightarrow> kb_quarantine b))"

lemma bridge_okD:
  assumes "bridge_ok (b, s)"
  shows "bridge.in_sync (kb_engine b) s" "quiet (kb_engine b)" "kb_queue b = None \<Longrightarrow> blank (kb_engine b)"
    "kb_quarantine b \<Longrightarrow> blank (kb_engine b)" "kb_recovery_complete b \<Longrightarrow> kb_quarantine b"
  using assms by (auto simp: bridge_ok_def)

lemma bridge_ok_engine:
  assumes "bridge_ok (b, s)" "kb_engine b' = kb_engine b" "kb_queue b' = None \<longrightarrow> kb_queue b = None"
    "kb_quarantine b' = kb_quarantine b" "kb_recovery_complete b' = kb_recovery_complete b"
  shows "bridge_ok (b', s)"
  using assms by (auto simp: bridge_ok_def)

lemma blank_sync_iff:
  assumes "bridge.in_sync e s" "blank e"
  shows "bridge.in_sync (clear_state e) s"
  using assms bridge.clear_state_ok [OF assms(1)] blank_owners [OF assms(2)]
  by (simp add: bridge.in_sync_def)

lemma new_bridge_ok: "bridge_ok (new_bridge, [])"
proof -
  have own: "owners (replicate kMaxActiveSources default_slot) f = {}" for f by (auto simp: owners_def)
  have "slots_ok (replicate kMaxActiveSources default_slot)"
    using slot_ok_default by (auto simp: slots_ok_def default_slot_def)
  moreover have "counts_ok (replicate kMaxActiveSources default_slot) (replicate kFrontendKeyDomain 0)"
    by (simp add: counts_ok_def own)
  ultimately show ?thesis
    by (simp add: bridge_ok_def new_bridge_def new_engine_def bridge.in_sync_def engine_ok_def own quiet_def
        blank_def keys_down_def bridge_sink_def bridge.sink_def)
qed

lemma initialize_ok:
  assumes "bridge_ok (b, s)"
  shows "bridge_ok (snd (initialize q b), s)"
proof (cases "kb_queue b")
  case None
  note d = bridge_okD [OF assms]
  have "bridge.in_sync (discard_without_injection (kb_engine b)) s"
    using blank_sync_iff [OF d(1) d(3) [OF None]] by (simp add: discard_without_injection_def)
  then show ?thesis
    using assms None by (auto simp: initialize_def bridge_ok_def discard_without_injection_def quiet_def split: option.splits)
qed (use assms in \<open>simp add: initialize_def\<close>)

lemma send_command_ok:
  assumes "bridge_ok (b, s)"
  shows "bridge_ok (snd (send_command q command b), s)"
  by (rule bridge_ok_engine [OF assms])
    (auto simp: send_command_def can_enqueue_def Let_def split: if_splits option.splits prod.splits)

lemma bridge_emergency_ok:
  assumes "bridge.in_sync (kb_engine b) s" "quiet (kb_engine b)" "bridge_emergency (b, s) = (b', s')"
  shows "bridge.in_sync (kb_engine b') s'" "quiet (kb_engine b')" "blank (kb_engine b')"
    "\<exists>e. b' = b\<lparr>kb_engine := e\<rparr>"
proof -
  obtain r e s1 where em: "emergency_recover (kb_engine b) s = (r, e, s1)" by (metis prod_cases3)
  then have b': "b' = b\<lparr>kb_engine := e\<rparr>" "s' = s1" using assms(3) by (auto simp: bridge_emergency_def)
  then show "bridge.in_sync (kb_engine b') s'" "quiet (kb_engine b')" "blank (kb_engine b')"
      "\<exists>e. b' = b\<lparr>kb_engine := e\<rparr>"
    using bridge.emergency_recover_sync [OF assms(1) em] emergency_recover_blank [OF assms(2) em] by auto
qed

lemma recover_overflow_ok:
  assumes ok: "bridge_ok (b, s)"
  shows "bridge_ok (recover_overflow q (b, s)) \<and> kb_quarantine (fst (recover_overflow q (b, s)))"
proof (cases "kb_recovery_complete b")
  case True
  then show ?thesis using ok bridge_okD(5) [OF ok] by (simp add: recover_overflow_def)
next
  case False
  define b1 where "b1 = (case kb_queue b of None \<Rightarrow> b
    | Some queue \<Rightarrow> b\<lparr>kb_recovery_discards := kb_recovery_discards b + word_of_nat (q_waiting q queue),
        kb_queue := Some (q_reset q queue)\<rparr>)"
  have e: "kb_engine b1 = kb_engine b" by (simp add: b1_def split: option.split)
  obtain b2 s2 where em: "bridge_emergency (b1, s) = (b2, s2)" by force
  have "recover_overflow q (b, s) = (b2\<lparr>kb_quarantine := True, kb_recovery_complete := True\<rparr>, s2)"
    using False em by (simp add: recover_overflow_def b1_def)
  then show ?thesis
    using bridge_emergency_ok [of b1 s b2 s2, unfolded e, OF bridge_okD(1,2) [OF ok] em] by (simp add: bridge_ok_def)
qed

lemma drain_ok:
  "bridge_ok (b, s) \<Longrightarrow> \<not> kb_quarantine b \<Longrightarrow> \<not> kb_recovery_complete b \<Longrightarrow> kb_queue b \<noteq> None \<Longrightarrow>
   bridge_ok (snd (drain q n drained (b, s)))"
proof (induction q n drained "(b, s)" arbitrary: b s rule: drain.induct)
  case (1 q drained b s)
  then show ?case by simp
next
  case (2 q n drained b s)
  obtain c queue where rc: "q_receive q (the (kb_queue b)) = (c, queue)" by force
  show ?case
  proof (cases c)
    case None
    then show ?thesis using rc bridge_ok_engine [OF "2.prems"(1), of "b\<lparr>kb_queue := Some queue\<rparr>"] by simp
  next
    case (Some command)
    let ?b = "b\<lparr>kb_queue := Some queue, kb_dequeued := kb_dequeued b + 1\<rparr>"
    note d = bridge_okD [OF "2.prems"(1)]
    show ?thesis
    proof (cases "ic_kind command")
      case KindSourceDisconnect
      obtain r e s1 where ds: "disconnect_source (ic_source command) (kb_engine b) s = (r, e, s1)" by (metis prod_cases3)
      have "bridge_ok (?b\<lparr>kb_engine := e\<rparr>, s1)"
        using bridge.disconnect_source_sync [OF d(1) ds] disconnect_quiet [OF d(2) ds] "2.prems" by (simp add: bridge_ok_def)
      then show ?thesis
        using "2.hyps"(2) [OF rc [symmetric, unfolded Some] refl refl KindSourceDisconnect] rc Some ds KindSourceDisconnect "2.prems"
        by simp
    next
      case KindEvent
      obtain r e s1 where ps: "process (ic_event command) (kb_engine b) s = (r, e, s1)" by (metis prod_cases3)
      have i: "bridge.in_sync e s1" "quiet e"
        using bridge.process_sync [OF d(1) ps] process_quiet [OF d(2) ps] by auto
      show ?thesis
      proof (cases "r = SourceCapacityExceeded")
        case True
        obtain b2 s2 where em: "bridge_emergency (?b\<lparr>kb_engine := e, kb_quarantine := True\<rparr>, s1) = (b2, s2)" by force
        from bridge_emergency_ok [OF _ _ em] i have "bridge_ok (b2, s2)" using "2.prems" by (auto simp: bridge_ok_def)
        then show ?thesis using rc Some KindEvent ps True em by simp
      next
        case False
        have "bridge_ok (?b\<lparr>kb_engine := e\<rparr>, s1)" using i "2.prems" by (simp add: bridge_ok_def)
        then show ?thesis
          using "2.hyps"(1) [OF rc [symmetric, unfolded Some] refl refl KindEvent] rc Some ps KindEvent False "2.prems"
          by simp
      qed
    qed
  qed
qed

lemma owner_iteration_ok:
  assumes ok: "bridge_ok (b, s)"
  shows "bridge_ok (snd (owner_iteration q (b, s)))"
  using ok recover_overflow_ok [OF ok, of q] drain_ok [OF ok, of q] bridge_okD(5) [OF ok]
  by (auto simp: owner_iteration_def)

lemma bridge_rearm_ok:
  assumes ok: "bridge_ok (b, s)"
  shows "bridge_ok (snd (bridge_rearm q b), s)"
proof -
  note d = bridge_okD [OF ok]
  obtain r e where re: "engine_rearm (kb_engine b) = (r, e)" by force
  have "quiet e" using re d(2) by (auto simp: engine_rearm_def quiet_def split: if_splits)
  moreover have "blank (kb_engine b) \<Longrightarrow> blank e" using re by (auto simp: engine_rearm_def blank_def clear_state_def split: if_splits)
  ultimately show ?thesis
    using ok re bridge.rearm_sync [OF d(1,2) re] d
    by (auto simp: bridge_rearm_def bridge_ok_def Let_def split: option.splits)
qed

lemma bridge_shutdown_ok:
  assumes ok: "bridge_ok (b, s)" and active: "kb_core_active b"
  shows "bridge_ok (bridge_shutdown q (b, s))"
proof -
  let ?b = "b\<lparr>kb_producer_closed := True, kb_queue := map_option (q_reset q) (kb_queue b)\<rparr>"
  obtain b2 s2 where em: "bridge_emergency (?b, s) = (b2, s2)" by force
  from bridge_emergency_ok [OF _ _ em] bridge_okD [OF ok] active em show ?thesis
    by (auto simp: bridge_shutdown_def bridge_ok_def)
qed

lemma run_bridge_op_ok:
  assumes "bridge_ok (b, s)" "op_allowed op b"
  shows "bridge_ok (run_bridge_op q op (b, s))"
proof (cases op)
  case (Enqueue event)
  then show ?thesis
    using send_command_ok [OF assms(1)] bridge_ok_engine [OF assms(1), of "b\<lparr>kb_queue_rejected := kb_queue_rejected b + 1\<rparr>"]
    by (simp add: enqueue_def)
next
  case (DisconnectSource source)
  then show ?thesis
    using send_command_ok [OF assms(1)] bridge_ok_engine [OF assms(1), of "b\<lparr>kb_queue_rejected := kb_queue_rejected b + 1\<rparr>"]
    by (simp add: bridge_disconnect_source_def)
next
  case (SetCoreActive active)
  then show ?thesis using bridge_ok_engine [OF assms(1), of "set_core_active active b"] by (simp add: set_core_active_def)
next
  case Shutdown
  then show ?thesis using bridge_shutdown_ok [OF assms(1)] assms(2) by (simp add: op_allowed_def)
qed (use assms(1) initialize_ok owner_iteration_ok bridge_rearm_ok in simp_all)

lemma run_bridge_ok: "bridge_ok bs \<Longrightarrow> run_bridge q ops bs = Some bs' \<Longrightarrow> bridge_ok bs'"
proof (induction ops arbitrary: bs)
  case (Cons op ops)
  then show ?case using run_bridge_op_ok [of "fst bs" "snd bs" op q] by (auto split: if_splits)
qed simp

subsection \<open>Properties\<close>


text \<open>A queue as the FreeRTOS documentation describes it, for the examples.\<close>

definition list_queue :: "(InputCommand list \<times> nat) queue_api" where
  "list_queue =
     \<lparr>q_create = \<lambda>n. Some ([], n),
      q_send = \<lambda>c (cs, n). if length cs < n then (True, cs @ [c], n) else (False, cs, n),
      q_receive = \<lambda>(cs, n). case cs of [] \<Rightarrow> (None, [], n) | c # cs \<Rightarrow> (Some c, cs, n),
      q_waiting = \<lambda>(cs, n). length cs, q_reset = \<lambda>(cs, n). ([], n)\<rparr>"

definition sample_bridge_ops :: "bridge_op list" where
  "sample_bridge_ops =
     [Initialize, Enqueue \<lparr>ev_source = 2, ev_key = Key_A, ev_action = Action_Press\<rparr>, OwnerIteration]"




end
