(* ===== verification/Hid_Boot.thy ===== *)
theory Hid_Boot
  imports Prelude
begin

section \<open>USB boot-protocol keyboard reports (hid_boot_keyboard/hid_boot_keyboard.c)\<close>

text \<open>
  A report is 8 bytes: modifiers, a reserved byte and six key usages. The parser compares it with the last
  one and stages the transitions in an array of 20 events. The array is a list here, and an event staged
  beyond its end is \<open>None\<close>, so that the bound the source only asserts in a comment is a theorem.
\<close>

definition HID_BOOT_KEYBOARD_REPORT_SIZE :: nat where "HID_BOOT_KEYBOARD_REPORT_SIZE = 8"
definition HID_BOOT_KEYBOARD_MODIFIER_COUNT :: nat where "HID_BOOT_KEYBOARD_MODIFIER_COUNT = 8"
definition HID_BOOT_KEYBOARD_KEY_COUNT :: nat where "HID_BOOT_KEYBOARD_KEY_COUNT = 6"
definition HID_BOOT_KEYBOARD_MAX_EVENTS :: nat where
  "HID_BOOT_KEYBOARD_MAX_EVENTS = HID_BOOT_KEYBOARD_MODIFIER_COUNT + 2 * HID_BOOT_KEYBOARD_KEY_COUNT"

lemmas hid_constants = HID_BOOT_KEYBOARD_REPORT_SIZE_def HID_BOOT_KEYBOARD_MODIFIER_COUNT_def
  HID_BOOT_KEYBOARD_KEY_COUNT_def HID_BOOT_KEYBOARD_MAX_EVENTS_def

datatype hid_event_kind = KEY_PRESS | KEY_RELEASE | MOD_PRESS | MOD_RELEASE | ERROR_USAGE

record hid_event =
  he_kind :: hid_event_kind
  he_usage :: u8
  he_modifiers :: u8

record hid_state =
  hs_modifiers :: u8
  hs_keys :: bytes

definition modifier_usage :: "nat \<Rightarrow> u8" where
  "modifier_usage b = word_of_nat (0xe0 + b)"

definition key_present :: "bytes \<Rightarrow> u8 \<Rightarrow> bool" where
  "key_present keys usage \<longleftrightarrow> list_ex (\<lambda>i. keys ! i = usage) [0..<HID_BOOT_KEYBOARD_KEY_COUNT]"

definition key_seen_before :: "bytes \<Rightarrow> nat \<Rightarrow> u8 \<Rightarrow> bool" where
  "key_seen_before keys index usage \<longleftrightarrow> list_ex (\<lambda>i. keys ! i = usage) [0..<index]"

type_synonym staged = "hid_event list option"

definition stage_event :: "hid_event_kind \<Rightarrow> u8 \<Rightarrow> u8 \<Rightarrow> staged \<Rightarrow> staged" where
  "stage_event kind usage modifiers st =
     (case st of
        None \<Rightarrow> None
      | Some events \<Rightarrow>
          if length events < HID_BOOT_KEYBOARD_MAX_EVENTS
          then Some (events @ [\<lparr>he_kind = kind, he_usage = usage, he_modifiers = modifiers\<rparr>])
          else None)"

definition hid_init :: hid_state where
  "hid_init = \<lparr>hs_modifiers = 0, hs_keys = replicate HID_BOOT_KEYBOARD_KEY_COUNT 0\<rparr>"

definition hid_is_error_usage :: "u8 \<Rightarrow> bool" where
  "hid_is_error_usage usage \<longleftrightarrow> usage = 1 \<or> usage = 2 \<or> usage = 3"

definition stage_errors :: "bytes \<Rightarrow> u8 \<Rightarrow> staged \<Rightarrow> staged" where
  "stage_errors keys modifiers st =
     fold (\<lambda>i st. if hid_is_error_usage (keys ! i) then stage_event ERROR_USAGE (keys ! i) modifiers st else st)
       [0..<HID_BOOT_KEYBOARD_KEY_COUNT] st"

definition stage_modifiers :: "u8 \<Rightarrow> u8 \<Rightarrow> staged \<Rightarrow> staged" where
  "stage_modifiers previous modifiers st =
     fold (\<lambda>b st.
         let key_mask = push_bit b 1 in
         if previous AND key_mask = 0 \<and> modifiers AND key_mask \<noteq> 0
         then stage_event MOD_PRESS (modifier_usage b) modifiers st
         else if previous AND key_mask \<noteq> 0 \<and> modifiers AND key_mask = 0
         then stage_event MOD_RELEASE (modifier_usage b) modifiers st
         else st)
       [0..<HID_BOOT_KEYBOARD_MODIFIER_COUNT] st"

text \<open>The two loops over the keys differ in the arrays and the kind only.\<close>

definition stage_keys :: "hid_event_kind \<Rightarrow> bytes \<Rightarrow> bytes \<Rightarrow> u8 \<Rightarrow> staged \<Rightarrow> staged" where
  "stage_keys kind keys others modifiers st =
     fold (\<lambda>i st.
         let usage = keys ! i in
         if usage \<noteq> 0 \<and> \<not> key_seen_before keys i usage \<and> \<not> key_present others usage
         then stage_event kind usage modifiers st else st)
       [0..<HID_BOOT_KEYBOARD_KEY_COUNT] st"

definition has_error_usage :: "bytes \<Rightarrow> bool" where
  "has_error_usage keys \<longleftrightarrow> list_ex (\<lambda>i. hid_is_error_usage (keys ! i)) [0..<HID_BOOT_KEYBOARD_KEY_COUNT]"

definition stage_report :: "hid_state \<Rightarrow> bytes \<Rightarrow> staged" where
  "stage_report state report =
     (let modifiers = report ! 0; keys = drop 2 report; st = stage_errors keys modifiers (Some []) in
      if \<not> has_error_usage keys then
        stage_keys KEY_PRESS keys (hs_keys state) modifiers
          (stage_keys KEY_RELEASE (hs_keys state) keys modifiers
            (stage_modifiers (hs_modifiers state) modifiers st))
      else st)"

text \<open>
  \<open>hid_process\<close> returns the count, the events it copied out (\<open>None\<close> when it left the caller's array alone)
  and the new state; \<open>buffer\<close> says whether the caller's array is non-null. The whole result is \<open>None\<close> when
  the staging array overflows.
\<close>

definition hid_process ::
  "hid_state \<Rightarrow> bytes \<Rightarrow> bool \<Rightarrow> nat \<Rightarrow> (nat \<times> hid_event list option \<times> hid_state) option" where
  "hid_process state report buffer event_capacity =
     (if length report \<noteq> HID_BOOT_KEYBOARD_REPORT_SIZE then Some (0, None, state)
      else case stage_report state report of
        None \<Rightarrow> None
      | Some staged \<Rightarrow>
          let count = length staged; keys = drop 2 report in
          if count > event_capacity \<or> (count \<noteq> 0 \<and> \<not> buffer) then Some (count, None, state)
          else if has_error_usage keys then Some (count, Some staged, state)
          else Some (count, Some staged,
                     state\<lparr>hs_modifiers := report ! 0, hs_keys := take HID_BOOT_KEYBOARD_KEY_COUNT keys\<rparr>))"

subsection \<open>Closed form of the staging loops\<close>

definition edge :: "hid_event_kind \<Rightarrow> u8 \<Rightarrow> u8 \<Rightarrow> hid_event" where
  "edge kind modifiers usage = \<lparr>he_kind = kind, he_usage = usage, he_modifiers = modifiers\<rparr>"

lemma fold_stage:
  assumes "length evs + length xs \<le> HID_BOOT_KEYBOARD_MAX_EVENTS"
    and "\<And>x st. f x (Some st) = (case g x of None \<Rightarrow> Some st | Some (k, u) \<Rightarrow> stage_event k u m (Some st))"
  shows "fold f xs (Some evs) = Some (evs @ map (\<lambda>(k, u). edge k m u) (List.map_filter g xs))"
  using assms(1)
proof (induction xs arbitrary: evs)
  case (Cons x xs)
  show ?case
  proof (cases "g x")
    case None
    then show ?thesis using Cons assms(2) by (simp add: map_filter_simps)
  next
    case (Some ku)
    then obtain k u where "g x = Some (k, u)" by (cases ku) auto
    moreover have "stage_event k u m (Some evs) = Some (evs @ [edge k m u])"
      using Cons.prems by (simp add: stage_event_def edge_def)
    ultimately show ?thesis using Cons.IH [of "evs @ [edge k m u]"] Cons.prems assms(2)
      by (simp add: map_filter_simps)
  qed
qed (simp add: map_filter_simps)

definition modifier_edge :: "u8 \<Rightarrow> u8 \<Rightarrow> nat \<Rightarrow> (hid_event_kind \<times> u8) option" where
  "modifier_edge old new b =
     (if \<not> bit old b \<and> bit new b then Some (MOD_PRESS, modifier_usage b)
      else if bit old b \<and> \<not> bit new b then Some (MOD_RELEASE, modifier_usage b) else None)"

definition key_edge :: "hid_event_kind \<Rightarrow> bytes \<Rightarrow> bytes \<Rightarrow> nat \<Rightarrow> (hid_event_kind \<times> u8) option" where
  "key_edge kind keys others i =
     (if keys ! i \<noteq> 0 \<and> \<not> key_seen_before keys i (keys ! i) \<and> \<not> key_present others (keys ! i)
      then Some (kind, keys ! i) else None)"

definition edges :: "u8 \<Rightarrow> (nat \<Rightarrow> (hid_event_kind \<times> u8) option) \<Rightarrow> nat \<Rightarrow> hid_event list" where
  "edges m g n = map (\<lambda>(k, u). edge k m u) (List.map_filter g [0..<n])"

lemma length_map_filter: "length (List.map_filter g xs) \<le> length xs"
  by (simp add: List.map_filter_def)

lemma length_edges: "length (edges m g n) \<le> n"
  using length_map_filter [of g "[0..<n]"] by (simp add: edges_def)

lemma stage_modifiers_edges:
  assumes "length evs \<le> 12"
  shows "stage_modifiers old new (Some evs) = Some (evs @ edges new (modifier_edge old new) 8)"
  unfolding stage_modifiers_def edges_def HID_BOOT_KEYBOARD_MODIFIER_COUNT_def
  by (rule fold_stage)
    (use assms in \<open>simp_all add: hid_constants modifier_edge_def Let_def bit_iff_and_push_bit_not_eq_0\<close>)

lemma stage_keys_edges:
  assumes "length evs \<le> 14"
  shows "stage_keys kind keys others m (Some evs) = Some (evs @ edges m (key_edge kind keys others) 6)"
  unfolding stage_keys_def edges_def HID_BOOT_KEYBOARD_KEY_COUNT_def
  by (rule fold_stage) (use assms in \<open>simp_all add: hid_constants key_edge_def Let_def\<close>)

lemma stage_errors_edges:
  "stage_errors keys m (Some []) =
   Some (edges m (\<lambda>i. if hid_is_error_usage (keys ! i) then Some (ERROR_USAGE, keys ! i) else None) 6)"
  unfolding stage_errors_def edges_def HID_BOOT_KEYBOARD_KEY_COUNT_def
  using fold_stage [of "[]" "[0..<6]"] by (subst fold_stage) (simp_all add: hid_constants)

lemma no_error_edges:
  "\<not> has_error_usage keys \<Longrightarrow>
   edges m (\<lambda>i. if hid_is_error_usage (keys ! i) then Some (ERROR_USAGE, keys ! i) else None) 6 = []"
  by (auto simp: edges_def has_error_usage_def hid_constants List.map_filter_def list_ex_iff filter_empty_conv)

lemma stage_report_closed:
  "stage_report state report = Some
     (if has_error_usage (drop 2 report)
      then edges (report ! 0) (\<lambda>i. if hid_is_error_usage (drop 2 report ! i) then Some (ERROR_USAGE, drop 2 report ! i) else None) 6
      else edges (report ! 0) (modifier_edge (hs_modifiers state) (report ! 0)) 8 @
        edges (report ! 0) (key_edge KEY_RELEASE (hs_keys state) (drop 2 report)) 6 @
        edges (report ! 0) (key_edge KEY_PRESS (drop 2 report) (hs_keys state)) 6)"
proof (cases "has_error_usage (drop 2 report)")
  case True
  then show ?thesis by (simp add: stage_report_def stage_errors_edges Let_def del: nth_drop)
next
  case False
  let ?m = "edges (report ! 0) (modifier_edge (hs_modifiers state) (report ! 0)) 8"
  let ?r = "edges (report ! 0) (key_edge KEY_RELEASE (hs_keys state) (drop 2 report)) 6"
  have "length ?m \<le> 8" "length ?r \<le> 6" using length_edges by blast+
  then have "length ?m \<le> 14" "length (?m @ ?r) \<le> 14" by simp_all
  then show ?thesis
    using False stage_modifiers_edges [of "[]"] stage_keys_edges [of ?m] stage_keys_edges [of "?m @ ?r"]
    by (simp add: stage_report_def stage_errors_edges no_error_edges Let_def del: nth_drop)
qed

subsection \<open>Meaning of the transitions\<close>

definition usages :: "hid_event_kind \<Rightarrow> hid_event list \<Rightarrow> u8 list" where
  "usages kind evs = map he_usage (filter (\<lambda>e. he_kind e = kind) evs)"

lemma usages_append: "usages kind (a @ b) = usages kind a @ usages kind b"
  by (simp add: usages_def)

lemma usages_edges:
  "usages kind (edges m g n) = map snd (filter (\<lambda>p. fst p = kind) (List.map_filter g [0..<n]))"
proof -
  have "usages kind (map (\<lambda>(k, u). edge k m u) ps) = map snd (filter (\<lambda>p. fst p = kind) ps)" for ps
    by (induction ps) (auto simp: usages_def edge_def)
  then show ?thesis by (simp add: edges_def)
qed

definition new_key :: "bytes \<Rightarrow> bytes \<Rightarrow> nat \<Rightarrow> bool" where
  "new_key keys others i \<longleftrightarrow>
     keys ! i \<noteq> 0 \<and> \<not> key_seen_before keys i (keys ! i) \<and> \<not> key_present others (keys ! i)"

lemma map_filter_if:
  "List.map_filter (\<lambda>i. if P i then Some (k, h i) else None) xs = map (\<lambda>i. (k, h i)) (filter P xs)"
  by (induction xs) (auto simp: map_filter_simps)

lemma usages_key_edges:
  "usages kind (edges m (key_edge kind' keys others) 6) =
   (if kind = kind' then map (\<lambda>i. keys ! i) (filter (new_key keys others) [0..<6]) else [])"
proof -
  have "key_edge kind' keys others = (\<lambda>i. if new_key keys others i then Some (kind', keys ! i) else None)"
    by (rule ext) (simp add: key_edge_def new_key_def)
  then show ?thesis by (simp add: usages_edges map_filter_if filter_map comp_def)
qed

lemma new_keys_distinct: "distinct (map (\<lambda>i. keys ! i) (filter (new_key keys others) [0..<n]))"
proof (induction n)
  case (Suc n)
  have "keys ! n \<notin> set (map (\<lambda>i. keys ! i) (filter (new_key keys others) [0..<n]))" if "new_key keys others n"
    using that by (auto simp: new_key_def key_seen_before_def list_ex_iff)
  then show ?case using Suc by auto
qed simp

lemma new_keys_set:
  assumes "length keys = 6" "length others = 6"
  shows "set (map (\<lambda>i. keys ! i) (filter (new_key keys others) [0..<6])) = set keys - set others - {0}"
proof (intro equalityI subsetI)
  fix u assume "u \<in> set (map (\<lambda>i. keys ! i) (filter (new_key keys others) [0..<6]))"
  then obtain i where i: "i < 6" "u = keys ! i" "new_key keys others i" by auto
  moreover have "keys ! i \<notin> set others"
    using i(3) assms(2) by (auto simp: new_key_def key_present_def hid_constants list_ex_iff in_set_conv_nth)
  ultimately show "u \<in> set keys - set others - {0}" using assms(1) by (auto simp: new_key_def)
next
  fix u assume u: "u \<in> set keys - set others - {0}"
  have ex: "\<exists>i. i < 6 \<and> keys ! i = u" using u assms(1) by (auto simp: in_set_conv_nth)
  obtain k where i: "k < 6" "keys ! k = u" and least: "\<And>j. j < k \<Longrightarrow> \<not> (j < 6 \<and> keys ! j = u)"
    using ex unfolding exists_least_iff [of "\<lambda>i. i < 6 \<and> keys ! i = u"] by blast
  then have "keys ! j \<noteq> u" if "j < k" for j using that by auto
  then have "\<not> key_seen_before keys k (keys ! k)" using i(2) by (auto simp: key_seen_before_def list_ex_iff)
  moreover have "others ! j \<noteq> u" if "j < 6" for j using u assms(2) that nth_mem by force
  then have "\<not> key_present others (keys ! k)"
    using i(2) by (auto simp: key_present_def hid_constants list_ex_iff)
  ultimately have "new_key keys others k" using u i(2) by (simp add: new_key_def)
  then have "k \<in> set (filter (new_key keys others) [0..<6])" using i(1) by simp
  then have "keys ! k \<in> (\<lambda>i. keys ! i) ` set (filter (new_key keys others) [0..<6])" by (rule imageI)
  then show "u \<in> set (map (\<lambda>i. keys ! i) (filter (new_key keys others) [0..<6]))"
    unfolding i(2) set_map .
qed

lemma modifier_usage_inj: "a < 8 \<Longrightarrow> b < 8 \<Longrightarrow> modifier_usage a = modifier_usage b \<Longrightarrow> a = b"
proof -
  have "\<forall>a\<in>set [0..<8]. \<forall>b\<in>set [0..<8]. modifier_usage a = modifier_usage b \<longrightarrow> a = b"
    by code_simp
  then show "a < 8 \<Longrightarrow> b < 8 \<Longrightarrow> modifier_usage a = modifier_usage b \<Longrightarrow> a = b" by auto
qed

lemma usages_modifier_edges:
  "usages MOD_PRESS (edges m (modifier_edge old new) 8) =
     map modifier_usage (filter (\<lambda>b. \<not> bit old b \<and> bit new b) [0..<8])"
  "usages MOD_RELEASE (edges m (modifier_edge old new) 8) =
     map modifier_usage (filter (\<lambda>b. bit old b \<and> \<not> bit new b) [0..<8])"
  "kind = KEY_PRESS \<or> kind = KEY_RELEASE \<Longrightarrow> usages kind (edges m (modifier_edge old new) 8) = []"
proof -
  have "map snd (filter (\<lambda>p. fst p = MOD_PRESS) (List.map_filter (modifier_edge old new) xs)) =
      map modifier_usage (filter (\<lambda>b. \<not> bit old b \<and> bit new b) xs)" for xs
    by (induction xs) (auto simp: map_filter_simps modifier_edge_def)
  then show "usages MOD_PRESS (edges m (modifier_edge old new) 8) =
     map modifier_usage (filter (\<lambda>b. \<not> bit old b \<and> bit new b) [0..<8])" by (simp only: usages_edges)
  have "map snd (filter (\<lambda>p. fst p = MOD_RELEASE) (List.map_filter (modifier_edge old new) xs)) =
      map modifier_usage (filter (\<lambda>b. bit old b \<and> \<not> bit new b) xs)" for xs
    by (induction xs) (auto simp: map_filter_simps modifier_edge_def)
  then show "usages MOD_RELEASE (edges m (modifier_edge old new) 8) =
     map modifier_usage (filter (\<lambda>b. bit old b \<and> \<not> bit new b) [0..<8])" by (simp only: usages_edges)
  have "kind = KEY_PRESS \<or> kind = KEY_RELEASE \<Longrightarrow>
      map snd (filter (\<lambda>p. fst p = kind) (List.map_filter (modifier_edge old new) xs)) = []" for xs
    by (induction xs) (auto simp: map_filter_simps modifier_edge_def)
  then show "kind = KEY_PRESS \<or> kind = KEY_RELEASE \<Longrightarrow> usages kind (edges m (modifier_edge old new) 8) = []"
    by (simp only: usages_edges)
qed

lemma hid_process_defined: "hid_process state report buffer event_capacity \<noteq> None"
  by (simp add: hid_process_def stage_report_closed Let_def)

subsection \<open>Properties\<close>

text \<open>
  (C35) The staging array of 20 events never overflows, whatever the state and the report.
\<close>

theorem hid_staging_bounded: "hid_process state report buffer event_capacity \<noteq> None"
  by (rule hid_process_defined)

text \<open>
  (C32) A clean report with room for its events is turned into exactly the differences to the last one:
  every key that is no longer down is released once, every key that is newly down is pressed once,
  every changed modifier gets one edge, and the report becomes the new state.
\<close>

theorem hid_report_edges:
  assumes "length report = 8" "length (hs_keys state) = 6" "\<not> has_error_usage (drop 2 report)"
    and "20 \<le> event_capacity"
  shows "\<exists>evs. hid_process state report True event_capacity =
      Some (length evs, Some evs, \<lparr>hs_modifiers = report ! 0, hs_keys = drop 2 report\<rparr>) \<and>
    distinct (usages KEY_PRESS evs) \<and> set (usages KEY_PRESS evs) = set (drop 2 report) - set (hs_keys state) - {0} \<and>
    distinct (usages KEY_RELEASE evs) \<and> set (usages KEY_RELEASE evs) = set (hs_keys state) - set (drop 2 report) - {0} \<and>
    usages MOD_PRESS evs =
      map modifier_usage (filter (\<lambda>b. \<not> bit (hs_modifiers state) b \<and> bit (report ! 0) b) [0..<8]) \<and>
    usages MOD_RELEASE evs =
      map modifier_usage (filter (\<lambda>b. bit (hs_modifiers state) b \<and> \<not> bit (report ! 0) b) [0..<8])"
proof -
  let ?new = "drop 2 report" and ?old = "hs_keys state"
  let ?m = "edges (report ! 0) (modifier_edge (hs_modifiers state) (report ! 0)) 8"
  let ?r = "edges (report ! 0) (key_edge KEY_RELEASE ?old ?new) 6"
  let ?p = "edges (report ! 0) (key_edge KEY_PRESS ?new ?old) 6"
  let ?evs = "?m @ ?r @ ?p"
  have len: "length ?new = 6" using assms(1) by simp
  have "length ?m \<le> 8" "length ?r \<le> 6" "length ?p \<le> 6" using length_edges by blast+
  then have "length ?evs \<le> event_capacity" using assms(4) by simp
  then have "hid_process state report True event_capacity =
      Some (length ?evs, Some ?evs, \<lparr>hs_modifiers = report ! 0, hs_keys = ?new\<rparr>)"
    using assms(1,3) len
    by (simp add: hid_process_def stage_report_closed hid_constants Let_def not_less del: nth_drop length_append)
  moreover have "usages KEY_PRESS ?evs = map (\<lambda>i. ?new ! i) (filter (new_key ?new ?old) [0..<6])"
    "usages KEY_RELEASE ?evs = map (\<lambda>i. ?old ! i) (filter (new_key ?old ?new) [0..<6])"
    by (simp_all add: usages_append usages_key_edges usages_modifier_edges(3) del: nth_drop)
  moreover have "usages MOD_PRESS ?evs =
      map modifier_usage (filter (\<lambda>b. \<not> bit (hs_modifiers state) b \<and> bit (report ! 0) b) [0..<8])"
    "usages MOD_RELEASE ?evs =
      map modifier_usage (filter (\<lambda>b. bit (hs_modifiers state) b \<and> \<not> bit (report ! 0) b) [0..<8])"
    by (simp_all add: usages_append usages_key_edges usages_modifier_edges(1,2) del: nth_drop upt_rec_numeral)
  ultimately show ?thesis
    using new_keys_distinct [of ?new ?old 6] new_keys_distinct [of ?old ?new 6]
      new_keys_set [OF len assms(2)] new_keys_set [OF assms(2) len]
    by (intro exI [of _ ?evs]) (simp only: simp_thms)
qed

theorem hid_report_edges_witness:
  "\<exists>evs. hid_process hid_init [2, 0, 4, 5, 0, 0, 0, 0] True 20 =
     Some (length evs, Some evs, \<lparr>hs_modifiers = 2, hs_keys = [4, 5, 0, 0, 0, 0]\<rparr>) \<and>
     set (usages KEY_PRESS evs) = {4, 5}"
proof -
  have "\<not> has_error_usage (drop 2 [2, 0, 4, 5, 0, 0, 0, 0])" by code_simp
  from hid_report_edges [OF _ _ this, of hid_init 20] show ?thesis
    by (auto simp: hid_init_def hid_constants insert_Diff_if)
qed

text \<open>
  (C34) Nothing changes unless everything fits: a report with too small or no buffer, with a wrong length
  or with an error usage leaves the trusted state as it was, and in the first two cases writes no event.
\<close>

theorem hid_unfit_report:
  assumes "hid_process state report buffer event_capacity = Some (count, out, state')"
  shows "(length report \<noteq> 8 \<or> count > event_capacity \<or> (count \<noteq> 0 \<and> \<not> buffer) \<longrightarrow> out = None \<and> state' = state) \<and>
    (has_error_usage (drop 2 report) \<longrightarrow> state' = state) \<and>
    (\<forall>evs. out = Some evs \<longrightarrow> length evs = count \<and> count \<le> event_capacity)"
  using assms
  by (auto simp: hid_process_def stage_report_closed hid_constants Let_def split: if_splits)

theorem hid_unfit_report_witness:
  "\<exists>count out state'. hid_process hid_init [2, 0, 4, 5, 0, 0, 0, 0] True 2 = Some (count, out, state') \<and>
     (count > 2 \<longrightarrow> out = None \<and> state' = hid_init)"
proof -
  obtain count out state' where r: "hid_process hid_init [2, 0, 4, 5, 0, 0, 0, 0] True 2 = Some (count, out, state')"
    using hid_process_defined by (metis not_None_eq prod_cases3)
  from hid_unfit_report [OF r] r show ?thesis by blast
qed

end
