(* ===== verification/Hid_Adapter.thy ===== *)
theory Hid_Adapter
  imports Hid_Boot Keyboard_Input
begin

section \<open>From HID usages to keys (usb_hid_keyboard_adapter/adapter.cpp)\<close>

text \<open>
  The adapter turns the transitions of one boot report into key events. The two control keys and the two
  ALT keys are aliases of one PC-98 key each; their edges are computed from the modifier bytes of the last
  and the new report. The staging array is a list of at most 20 events; the caller's array is written
  only when all events fit. \<open>tr_events\<close> is \<open>None\<close> when it is left alone.
\<close>

definition kControlMask :: u8 where "kControlMask = 1 OR 16"
definition kGrphMask :: u8 where "kGrphMask = 4 OR 64"
definition kMaxTransitions :: nat where "kMaxTransitions = HID_BOOT_KEYBOARD_MAX_EVENTS"
definition kMaxNeutralEvents :: nat where "kMaxNeutralEvents = HID_BOOT_KEYBOARD_MAX_EVENTS"

datatype TranslationStatus = Mapped | Unsupported | ErrorUsageStatus | CapacityInsufficient | InvalidInput

record TranslationResult =
  tr_status :: TranslationStatus
  tr_required_events :: nat
  tr_written_events :: nat
  tr_unsupported_usages :: nat

definition default_translation :: TranslationResult where
  "default_translation = \<lparr>tr_status = Mapped, tr_required_events = 0, tr_written_events = 0,
     tr_unsupported_usages = 0\<rparr>"

definition is_alias_usage :: "u8 \<Rightarrow> bool" where
  "is_alias_usage usage \<longleftrightarrow> usage = 0xe0 \<or> usage = 0xe2 \<or> usage = 0xe4 \<or> usage = 0xe6"

definition usage_table :: "(u8 \<times> Key) list" where
  "usage_table =
     [(0x28, Key_Enter), (0x29, Key_Escape), (0x2a, Key_Backspace), (0x2b, Key_Tab),
      (0x2c, Key_Space), (0x2d, Key_Minus), (0x2e, Key_Circumflex), (0x2f, Key_At),
      (0x30, Key_LeftBracket), (0x31, Key_RightBracket), (0x33, Key_Semicolon),
      (0x34, Key_Colon), (0x36, Key_Comma), (0x37, Key_Period), (0x38, Key_Slash),
      (0x39, Key_CapsLock), (0x46, Key_Copy), (0x48, Key_Stop), (0x49, Key_Insert),
      (0x4a, Key_HomeClear), (0x4b, Key_RollUp), (0x4c, Key_Delete), (0x4d, Key_Help),
      (0x4e, Key_RollDown), (0x4f, Key_Right), (0x50, Key_Left), (0x51, Key_Down),
      (0x52, Key_Up), (0x54, Key_KeypadDivide), (0x55, Key_KeypadMultiply),
      (0x56, Key_KeypadMinus), (0x57, Key_KeypadPlus), (0x58, Key_KeypadEnter),
      (0x59, Key_Keypad1), (0x5a, Key_Keypad2), (0x5b, Key_Keypad3), (0x5c, Key_Keypad4),
      (0x5d, Key_Keypad5), (0x5e, Key_Keypad6), (0x5f, Key_Keypad7), (0x60, Key_Keypad8),
      (0x61, Key_Keypad9), (0x62, Key_Keypad0), (0x63, Key_KeypadPeriod),
      (0x67, Key_KeypadEquals), (0x85, Key_KeypadComma), (0x87, Key_Underscore),
      (0x88, Key_Kana), (0x89, Key_Yen), (0x8a, Key_Xfer), (0x8b, Key_Nfer),
      (0xe1, Key_LeftShift), (0xe5, Key_RightShift)]"

definition map_usage :: "u8 \<Rightarrow> Key option" where
  "map_usage usage =
     (if usage \<ge> 0x04 \<and> usage \<le> 0x1d then Some (Key_A + (usage - 0x04))
      else if usage \<ge> 0x1e \<and> usage \<le> 0x27 then Some (Key_Digit1 + (usage - 0x1e))
      else if usage \<ge> 0x3a \<and> usage \<le> 0x43 then Some (Key_F1 + (usage - 0x3a))
      else map_of usage_table usage)"

text \<open>The staged events, or \<open>None\<close> when the function gives up with \<^verbatim>\<open>InvalidInput\<close>.\<close>

definition append_event :: "Key \<Rightarrow> Action \<Rightarrow> Event list \<Rightarrow> Event list option" where
  "append_event key action events =
     (if length events \<ge> kMaxNeutralEvents then None
      else Some (events @ [\<lparr>ev_source = kUsbKeyboardSource, ev_key = key, ev_action = action\<rparr>]))"

definition append_alias_edge :: "u8 \<Rightarrow> u8 \<Rightarrow> u8 \<Rightarrow> Key \<Rightarrow> Event list \<Rightarrow> Event list option" where
  "append_alias_edge old_modifiers new_modifiers alias_mask key events =
     (let old_held = (old_modifiers AND alias_mask \<noteq> 0); new_held = (new_modifiers AND alias_mask \<noteq> 0) in
      if old_held = new_held then Some events
      else append_event key (if new_held then Action_Press else Action_Release) events)"

definition append_aliases :: "u8 \<Rightarrow> u8 \<Rightarrow> Event list \<Rightarrow> Event list option" where
  "append_aliases old_modifiers new_modifiers events =
     Option.bind (append_alias_edge old_modifiers new_modifiers kControlMask Key_Control events)
       (append_alias_edge old_modifiers new_modifiers kGrphMask Key_Grph)"

definition transition_action :: "hid_event \<Rightarrow> Action" where
  "transition_action t =
     (if he_kind t = KEY_PRESS \<or> he_kind t = MOD_PRESS then Action_Press else Action_Release)"

fun translate_loop ::
  "u8 \<Rightarrow> u8 \<Rightarrow> hid_event list \<Rightarrow> bool \<Rightarrow> nat \<Rightarrow> Event list \<Rightarrow> (bool \<times> nat \<times> Event list) option" where
  "translate_loop old new [] emitted unsupported events = Some (emitted, unsupported, events)"
| "translate_loop old new (t # ts) emitted unsupported events =
     (if is_alias_usage (he_usage t) then
        if \<not> emitted then
          (case append_aliases old new events of
             None \<Rightarrow> None
           | Some events \<Rightarrow> translate_loop old new ts True unsupported events)
        else translate_loop old new ts emitted unsupported events
      else case map_usage (he_usage t) of
        None \<Rightarrow> translate_loop old new ts emitted (unsupported + 1) events
      | Some key \<Rightarrow>
          case append_event key (transition_action t) events of
            None \<Rightarrow> None
          | Some events \<Rightarrow> translate_loop old new ts emitted unsupported events)"

definition stage_translation :: "u8 \<Rightarrow> u8 \<Rightarrow> hid_event list \<Rightarrow> (nat \<times> Event list) option" where
  "stage_translation old new transitions =
     (case translate_loop old new transitions False 0 [] of
        None \<Rightarrow> None
      | Some (emitted, unsupported, events) \<Rightarrow>
          if emitted then Some (unsupported, events)
          else map_option (\<lambda>events. (unsupported, events)) (append_aliases old new events))"

definition adapter_reset :: u8 where "adapter_reset = 0"

definition translate_report ::
  "u8 \<Rightarrow> hid_event list \<Rightarrow> u8 \<Rightarrow> bool \<Rightarrow> nat \<Rightarrow> TranslationResult \<times> Event list option \<times> u8" where
  "translate_report modifiers transitions final_modifiers buffer capacity =
     (let fail = (\<lambda>status. (default_translation\<lparr>tr_status := status\<rparr>, None, modifiers)) in
      if length transitions > kMaxTransitions then fail InvalidInput
      else if list_ex (\<lambda>t. he_kind t = ERROR_USAGE) transitions then fail ErrorUsageStatus
      else case stage_translation modifiers final_modifiers transitions of
        None \<Rightarrow> fail InvalidInput
      | Some (unsupported, events) \<Rightarrow>
          let result = default_translation\<lparr>tr_unsupported_usages := unsupported,
                         tr_required_events := length events\<rparr>
          in if length events > capacity \<or> (length events \<noteq> 0 \<and> \<not> buffer)
             then (result\<lparr>tr_status := CapacityInsufficient\<rparr>, None, modifiers)
             else (result\<lparr>tr_written_events := length events,
                          tr_status := (if unsupported = 0 then Mapped else Unsupported)\<rparr>,
                   Some events, final_modifiers))"

subsection \<open>Alias keys\<close>

definition key_edges :: "Key \<Rightarrow> Event list \<Rightarrow> Action list" where
  "key_edges key events = map ev_action (filter (\<lambda>e. ev_key e = key) events)"

definition usb_event :: "Key \<Rightarrow> Action \<Rightarrow> Event" where
  "usb_event key action = \<lparr>ev_source = kUsbKeyboardSource, ev_key = key, ev_action = action\<rparr>"

definition alias_edge :: "u8 \<Rightarrow> u8 \<Rightarrow> u8 \<Rightarrow> Action list" where
  "alias_edge old new alias_mask =
     (if (old AND alias_mask \<noteq> 0) = (new AND alias_mask \<noteq> 0) then []
      else [if new AND alias_mask \<noteq> 0 then Action_Press else Action_Release])"

definition alias_events :: "u8 \<Rightarrow> u8 \<Rightarrow> Event list" where
  "alias_events old new =
     map (usb_event Key_Control) (alias_edge old new kControlMask) @
     map (usb_event Key_Grph) (alias_edge old new kGrphMask)"

definition plain_event :: "hid_event \<Rightarrow> Event option" where
  "plain_event t =
     (if is_alias_usage (he_usage t) then None
      else map_option (\<lambda>key. usb_event key (transition_action t)) (map_usage (he_usage t)))"

definition plain_events :: "hid_event list \<Rightarrow> Event list" where
  "plain_events = List.map_filter plain_event"

definition unmapped :: "hid_event list \<Rightarrow> hid_event list" where
  "unmapped = filter (\<lambda>t. \<not> is_alias_usage (he_usage t) \<and> map_usage (he_usage t) = None)"

lemma append_event_eq:
  "append_event key action events =
     (if length events < 20 then Some (events @ [usb_event key action]) else None)"
  by (simp add: append_event_def usb_event_def kMaxNeutralEvents_def hid_constants)

lemma append_aliases_eq:
  "append_aliases old new events =
     (if length events + length (alias_events old new) \<le> 20 \<or> alias_events old new = []
      then Some (events @ alias_events old new) else None)"
  by (simp add: append_aliases_def append_alias_edge_def append_event_eq alias_events_def alias_edge_def Let_def)

lemma plain_events_simps [simp]:
  "plain_events [] = []"
  "plain_events (t # ts) = (case plain_event t of None \<Rightarrow> plain_events ts | Some e \<Rightarrow> e # plain_events ts)"
  by (simp_all add: plain_events_def map_filter_simps split: option.split)

lemma translate_loop_emitted:
  assumes "translate_loop old new ts True n events = Some (emitted, n', events')"
  shows "emitted \<and> n' = n + length (unmapped ts) \<and> events' = events @ plain_events ts"
  using assms
proof (induction ts arbitrary: n events)
  case (Cons t ts)
  then show ?case
    by (cases "map_usage (he_usage t)")
      (fastforce simp: unmapped_def plain_event_def append_event_eq split: if_splits)+
qed (simp add: unmapped_def)

lemma translate_loop_fits:
  assumes "length events + length (plain_events ts) + (if emitted then 0 else length (alias_events old new)) \<le> 20"
  shows "translate_loop old new ts emitted n events \<noteq> None"
  using assms
  by (induction old new ts emitted n events rule: translate_loop.induct)
    (auto simp: plain_event_def append_event_eq append_aliases_eq split: if_splits option.splits)

text \<open>The alias edges stand together somewhere between the edges of the other keys.\<close>

lemma translate_loop_pending:
  assumes "translate_loop old new ts False n events = Some (emitted, n', events')"
  shows "n' = n + length (unmapped ts) \<and>
    (\<exists>before after. plain_events ts = before @ after \<and>
      events' = events @ before @ (if emitted then alias_events old new else []) @ after)"
  using assms
proof (induction ts arbitrary: n events)
  case (Cons t ts)
  show ?case
  proof (cases "is_alias_usage (he_usage t)")
    case True
    then have "translate_loop old new ts True n (events @ alias_events old new) = Some (emitted, n', events')"
      using Cons.prems by (simp add: append_aliases_eq split: if_splits)
    from translate_loop_emitted [OF this] True show ?thesis
      by (intro conjI exI [of _ "[]"] exI [of _ "plain_events ts"]) (simp_all add: unmapped_def plain_event_def)
  next
    case False
    show ?thesis
    proof (cases "map_usage (he_usage t)")
      case None
      then have "translate_loop old new ts False (n + 1) events = Some (emitted, n', events')"
        using Cons.prems False by simp
      from Cons.IH [OF this] None False show ?thesis by (simp add: unmapped_def plain_event_def)
    next
      case (Some key)
      let ?e = "usb_event key (transition_action t)"
      have "translate_loop old new ts False n (events @ [?e]) = Some (emitted, n', events')"
        using Cons.prems False Some by (simp add: append_event_eq split: if_splits)
      from Cons.IH [OF this] obtain before after where
        "n' = n + length (unmapped ts)" "plain_events ts = before @ after"
        "events' = (events @ [?e]) @ before @ (if emitted then alias_events old new else []) @ after" by blast
      then show ?thesis using Some False
        by (intro conjI exI [of _ "?e # before"] exI [of _ after]) (simp_all add: unmapped_def plain_event_def)
    qed
  qed
qed (simp add: unmapped_def)

lemma stage_translation_events:
  assumes "stage_translation old new ts = Some (n, events)"
  shows "n = length (unmapped ts) \<and>
    (\<exists>before after. plain_events ts = before @ after \<and> events = before @ alias_events old new @ after)"
proof -
  obtain emitted events' where l: "translate_loop old new ts False 0 [] = Some (emitted, n, events')"
    and e: "events = events' @ (if emitted then [] else alias_events old new)"
    using assms by (auto simp: stage_translation_def append_aliases_eq split: option.splits if_splits)
  from translate_loop_pending [OF l] obtain before after where
    b: "n = length (unmapped ts)" "plain_events ts = before @ after"
    "events' = before @ (if emitted then alias_events old new else []) @ after" by auto
  show ?thesis
  proof (cases emitted)
    case True
    then show ?thesis using b e by auto
  next
    case False
    then show ?thesis using b e
      by (intro conjI exI [of _ "before @ after"] exI [of _ "[]"]) simp_all
  qed
qed

lemma stage_translation_fits:
  assumes "length (plain_events ts) + length (alias_events old new) \<le> 20"
  shows "stage_translation old new ts \<noteq> None"
proof -
  obtain emitted n events where l: "translate_loop old new ts False 0 [] = Some (emitted, n, events)"
    using translate_loop_fits [of "[]" ts False old new 0] assms by (auto simp: not_None_eq)
  from translate_loop_pending [OF l] assms have "\<not> emitted \<Longrightarrow> length events + length (alias_events old new) \<le> 20"
    by auto
  then show ?thesis by (simp add: stage_translation_def l append_aliases_eq)
qed

subsection \<open>No usage of the table is an alias key\<close>

lemma usage_table_not_alias:
  "list_all (\<lambda>(u, k). k \<noteq> Key_Control \<and> k \<noteq> Key_Grph) usage_table"
  by code_simp

lemma map_usage_not_alias: "map_usage usage = Some key \<Longrightarrow> key \<noteq> Key_Control \<and> key \<noteq> Key_Grph"
proof -
  assume m: "map_usage usage = Some key"
  have range: "base + (usage - low) \<noteq> Key_Control \<and> base + (usage - low) \<noteq> Key_Grph"
    if "low \<le> usage" "usage \<le> high" "unat base + (unat high - unat low) < 97" for base low high :: u8
  proof -
    have "unat (usage - low) = unat usage - unat low" using that(1) by (simp add: unat_sub)
    moreover have "unat usage \<le> unat high" using that(2) by (simp add: word_le_nat_alt)
    ultimately have "unat base + unat (usage - low) < 97" using that(3) by linarith
    then have "unat (base + (usage - low)) < 97" by (simp add: unat_word_ariths)
    then show ?thesis by auto
  qed
  consider "usage \<ge> 0x04" "usage \<le> 0x1d" "key = Key_A + (usage - 0x04)"
    | "usage \<ge> 0x1e" "usage \<le> 0x27" "key = Key_Digit1 + (usage - 0x1e)"
    | "usage \<ge> 0x3a" "usage \<le> 0x43" "key = Key_F1 + (usage - 0x3a)"
    | "map_of usage_table usage = Some key"
    using m by (auto simp: map_usage_def split: if_splits)
  then show ?thesis
  proof cases
    case 4
    then show ?thesis using usage_table_not_alias by (fastforce simp: list_all_iff dest: map_of_SomeD)
  next
    case 1
    then show ?thesis using range [of "0x04" "0x1d" Key_A] by simp
  next
    case 2
    then show ?thesis using range [of "0x1e" "0x27" Key_Digit1] by simp
  next
    case 3
    then show ?thesis using range [of "0x3a" "0x43" Key_F1] by simp
  qed
qed

lemma key_edges_append: "key_edges key (a @ b) = key_edges key a @ key_edges key b"
  by (simp add: key_edges_def)

lemma key_edges_alias_events:
  "key_edges key (alias_events old new) =
     (if key = Key_Control then alias_edge old new kControlMask
      else if key = Key_Grph then alias_edge old new kGrphMask else [])"
  by (simp add: key_edges_def alias_events_def alias_edge_def usb_event_def)

lemma key_edges_plain:
  "key_edges key (plain_events ts) =
     map transition_action
       (filter (\<lambda>t. \<not> is_alias_usage (he_usage t) \<and> map_usage (he_usage t) = Some key) ts)"
  by (induction ts) (auto simp: key_edges_def plain_event_def usb_event_def split: option.splits)

lemma key_edges_plain_alias:
  "key = Key_Control \<or> key = Key_Grph \<Longrightarrow> key_edges key (plain_events ts) = []"
  by (auto simp: key_edges_plain filter_empty_conv dest: map_usage_not_alias)

lemma translate_report_cases:
  assumes "translate_report modifiers ts final buffer capacity = (result, out, modifiers')"
  obtains (committed) n events where
      "stage_translation modifiers final ts = Some (n, events)" "out = Some events" "modifiers' = final"
      "tr_status result = (if n = 0 then Mapped else Unsupported)" "tr_unsupported_usages result = n"
      "tr_written_events result = length events" "length events \<le> capacity"
      "\<not> list_ex (\<lambda>t. he_kind t = ERROR_USAGE) ts" "length ts \<le> 20"
    | (refused) "out = None" "modifiers' = modifiers" "tr_written_events result = 0"
      "tr_status result \<in> {InvalidInput, ErrorUsageStatus, CapacityInsufficient}"
  using assms
  by (auto simp: translate_report_def Let_def default_translation_def kMaxTransitions_def hid_constants
      split: if_splits option.splits)

subsection \<open>Properties\<close>

text \<open>
  (C30) When a report is translated, the two aliased keys get exactly the edge that the modifier bytes imply:
  the left and the right control key act as one CTRL key, the two ALT keys as one GRPH key, so that releasing
  one of two held control keys releases nothing. Every other key gets exactly the edges of the
  transitions mapped to it, in order; unknown usages are counted, and the new modifiers are remembered.
\<close>

theorem adapter_edges:
  assumes "translate_report modifiers ts final buffer capacity = (result, Some events, modifiers')"
  shows "modifiers' = final \<and> length events \<le> capacity \<and> tr_written_events result = length events \<and>
    tr_unsupported_usages result =
      length (filter (\<lambda>t. \<not> is_alias_usage (he_usage t) \<and> map_usage (he_usage t) = None) ts) \<and>
    key_edges Key_Control events = alias_edge modifiers final kControlMask \<and>
    key_edges Key_Grph events = alias_edge modifiers final kGrphMask \<and>
    (\<forall>key. key \<noteq> Key_Control \<and> key \<noteq> Key_Grph \<longrightarrow>
      key_edges key events = map transition_action
        (filter (\<lambda>t. \<not> is_alias_usage (he_usage t) \<and> map_usage (he_usage t) = Some key) ts))"
  using assms
proof (cases rule: translate_report_cases)
  case (committed n events')
  from stage_translation_events [OF committed(1)] committed(2) obtain before after where
    n: "n = length (unmapped ts)" and b: "plain_events ts = before @ after"
    and e: "events = before @ alias_events modifiers final @ after" by auto
  have k: "key_edges key (plain_events ts) = key_edges key before @ key_edges key after" for key
    by (simp add: b key_edges_append)
  have "key_edges key events = key_edges key (alias_events modifiers final)" if "key = Key_Control \<or> key = Key_Grph" for key
    using k [of key] key_edges_plain_alias [OF that, of ts] by (simp add: e key_edges_append)
  moreover have "key_edges key events = key_edges key (plain_events ts)" if "key \<noteq> Key_Control" "key \<noteq> Key_Grph" for key
    using that by (simp add: k e key_edges_append key_edges_alias_events)
  ultimately show ?thesis using committed n
    by (simp add: key_edges_alias_events key_edges_plain unmapped_def)
qed simp

theorem adapter_edges_witness:
  "key_edges Key_Control [usb_event Key_Enter Action_Press] = [] \<and>
   key_edges Key_Enter [usb_event Key_Enter Action_Press] = [Action_Press]"
proof -
  have r: "translate_report 0x11 [edge MOD_RELEASE 0x10 0xe0, edge KEY_PRESS 0x10 0x28] 0x10 True 20 =
      (default_translation\<lparr>tr_required_events := 1, tr_written_events := 1\<rparr>,
       Some [usb_event Key_Enter Action_Press], 0x10)" by code_simp
  have "alias_edge 0x11 0x10 kControlMask = []"
    "map transition_action (filter (\<lambda>t. \<not> is_alias_usage (he_usage t) \<and> map_usage (he_usage t) = Some Key_Enter)
       [edge MOD_RELEASE 0x10 0xe0, edge KEY_PRESS 0x10 0x28]) = [Action_Press]" by code_simp+
  then show ?thesis using adapter_edges [OF r] by simp
qed

text \<open>
  (C33) A report is translated as a whole or not at all: on every error status (bad count, error usage,
  destination too small or missing) the destination is left alone, nothing is counted as written and the
  modifiers last trusted are kept, so that the caller can present the same report again.
\<close>

theorem adapter_all_or_nothing:
  assumes "translate_report modifiers ts final buffer capacity = (result, out, modifiers')"
  shows "(out = None \<longleftrightarrow> tr_status result \<in> {InvalidInput, ErrorUsageStatus, CapacityInsufficient}) \<and>
    (out = None \<longrightarrow> modifiers' = modifiers \<and> tr_written_events result = 0)"
  using assms
proof (cases rule: translate_report_cases)
  case (committed n events)
  then show ?thesis by (cases "n = 0") simp_all
qed simp

theorem adapter_all_or_nothing_witness:
  "let r = translate_report 0x01 [edge KEY_PRESS 0x01 0x28] 0x01 True 0 in
     fst (snd r) = None \<and> tr_status (fst r) = CapacityInsufficient \<and> snd (snd r) = 0x01"
proof -
  have r: "translate_report 0x01 [edge KEY_PRESS 0x01 0x28] 0x01 True 0 =
      (default_translation\<lparr>tr_required_events := 1, tr_status := CapacityInsufficient\<rparr>, None, 0x01)" by code_simp
  from adapter_all_or_nothing [OF r] r show ?thesis by (simp add: Let_def)
qed

subsection \<open>The driver and the adapter together\<close>

lemma plain_events_append: "plain_events (a @ b) = plain_events a @ plain_events b"
  by (induction a) (simp_all split: option.split)

lemma length_plain_events: "length (plain_events ts) \<le> length ts"
  by (induction ts) (simp_all split: option.split)

lemma length_alias_events: "length (alias_events old new) \<le> 2"
  by (simp add: alias_events_def alias_edge_def)

text \<open>The four alias modifiers of a report yield no event of their own.\<close>

lemma length_plain_modifiers: "length (plain_events (edges m (modifier_edge old new) 8)) \<le> 4"
proof -
  have al: "is_alias_usage (modifier_usage 0)" "is_alias_usage (modifier_usage 2)"
    "is_alias_usage (modifier_usage 4)" "is_alias_usage (modifier_usage 6)" by code_simp+
  let ?f = "\<lambda>b. case modifier_edge old new b of None \<Rightarrow> [] | Some (k, u) \<Rightarrow> plain_events [edge k m u]"
  have c: "plain_events (map (\<lambda>(k, u). edge k m u) (List.map_filter (modifier_edge old new) xs)) = concat (map ?f xs)" for xs
    by (induction xs) (auto simp: map_filter_simps split: option.splits)
  have empty: "?f b = []" if "is_alias_usage (modifier_usage b)" for b
    using that by (auto simp: modifier_edge_def plain_event_def edge_def split: if_splits)
  have one: "length (?f b) \<le> 1" for b by (auto split: option.splits)
  have "concat (map ?f [0,1,2,3,4,5,6,7]) = ?f 1 @ ?f 3 @ ?f 5 @ ?f 7"
    using empty [OF al(1)] empty [OF al(2)] empty [OF al(3)] empty [OF al(4)] by simp
  then have "length (concat (map ?f [0,1,2,3,4,5,6,7])) \<le> 4"
    using one [of 1] one [of 3] one [of 5] one [of 7] by (simp only: length_append)
  moreover have "[0..<8] = [0,1,2,3,4,5,6,7::nat]" by code_simp
  ultimately show ?thesis by (simp only: edges_def c)
qed

text \<open>
  (C31) The driver and the adapter fit together: the transitions of every clean report, whatever was held before
  and whatever modifiers the adapter last saw, are translated with the adapter's own event capacity. No
  keyboard report is lost to a full staging array.
\<close>

theorem hid_reports_translated:
  assumes "hid_process state report True HID_BOOT_KEYBOARD_MAX_EVENTS = Some (count, Some transitions, state')"
    and "\<not> has_error_usage (drop 2 report)"
  shows "\<exists>result events. translate_report modifiers transitions (hs_modifiers state') True kMaxNeutralEvents =
    (result, Some events, hs_modifiers state')"
proof -
  let ?m = "edges (report ! 0) (modifier_edge (hs_modifiers state) (report ! 0)) 8"
  let ?r = "edges (report ! 0) (key_edge KEY_RELEASE (hs_keys state) (drop 2 report)) 6"
  let ?p = "edges (report ! 0) (key_edge KEY_PRESS (drop 2 report) (hs_keys state)) 6"
  have t: "transitions = ?m @ ?r @ ?p" and final: "hs_modifiers state' = report ! 0"
    using assms by (auto simp: hid_process_def stage_report_closed Let_def split: if_splits)
  have len: "length ?m \<le> 8" "length ?r \<le> 6" "length ?p \<le> 6" using length_edges by blast+
  have "length (plain_events ?r) \<le> 6" "length (plain_events ?p) \<le> 6"
    using length_plain_events [of ?r] length_plain_events [of ?p] len by linarith+
  then have plain: "length (plain_events transitions) + length (alias_events modifiers (report ! 0)) \<le> 18"
    using length_plain_modifiers [of "report ! 0" "hs_modifiers state" "report ! 0"]
      length_alias_events [of modifiers "report ! 0"] by (simp add: t plain_events_append)
  have kinds: "he_kind e \<noteq> ERROR_USAGE" if "e \<in> set transitions" for e
    using that by (auto simp: t edges_def edge_def List.map_filter_def modifier_edge_def key_edge_def split: if_splits)
  obtain n events where s: "stage_translation modifiers (report ! 0) transitions = Some (n, events)"
    using stage_translation_fits [of transitions modifiers "report ! 0"] plain by auto
  have "length events \<le> 18" using stage_translation_events [OF s] plain by auto
  moreover have "length transitions \<le> 20" using len by (simp add: t)
  ultimately show ?thesis using s kinds
    by (auto simp: translate_report_def final kMaxTransitions_def kMaxNeutralEvents_def hid_constants
        list_ex_iff Let_def)
qed

theorem hid_reports_translated_witness:
  "\<exists>result events. translate_report 0x40 [edge MOD_PRESS 0x02 0xe1, edge KEY_PRESS 0x02 0x28] 0x02 True kMaxNeutralEvents =
    (result, Some events, 0x02)"
proof -
  have p: "hid_process hid_init [2, 0, 0x28, 0, 0, 0, 0, 0] True HID_BOOT_KEYBOARD_MAX_EVENTS =
      Some (2, Some [edge MOD_PRESS 0x02 0xe1, edge KEY_PRESS 0x02 0x28],
        \<lparr>hs_modifiers = 2, hs_keys = [0x28, 0, 0, 0, 0, 0]\<rparr>)" by code_simp
  have e: "\<not> has_error_usage (drop 2 [2, 0, 0x28, 0, 0, 0, 0, 0])" by code_simp
  show ?thesis using hid_reports_translated [OF p e, of "0x40"] by simp
qed


end
