(* ===== verification/Ring.thy ===== *)
theory Ring
  imports Prelude
begin

section \<open>Rings with free-running 32-bit indices\<close>

text \<open>
  The audio path hands data between two tasks through rings of a power-of-two capacity. The indices \<^verbatim>\<open>head\<close> and
  \<^verbatim>\<open>tail\<close> are 32-bit counters that are never reduced and may wrap around; the slot of an index is its
  low bits. \<open>ring_content\<close> is the list that such a ring represents. The locale \<open>ring_geometry\<close> holds what all rings
  share; each ring interprets it at its own capacity.
\<close>

definition ring_slot :: "u32 \<Rightarrow> u32 \<Rightarrow> nat" where
  "ring_slot cap index = unat (index AND (cap - 1))"

definition ring_content :: "u32 \<Rightarrow> 'a list \<Rightarrow> u32 \<Rightarrow> u32 \<Rightarrow> 'a list" where
  "ring_content cap slots head tail =
     map (\<lambda>k. slots ! ring_slot cap (tail + word_of_nat k)) [0..<unat (head - tail)]"

lemma length_ring_content [simp]: "length (ring_content cap slots head tail) = unat (head - tail)"
  by (simp add: ring_content_def)

lemma ring_content_empty [simp]: "ring_content cap slots i i = []"
  by (simp add: ring_content_def)

locale ring_geometry =
  fixes cap :: u32 and bits :: nat
  assumes cap: "cap = 2 ^ bits" and bits: "bits < 32"
begin

abbreviation "size_cap \<equiv> unat cap"

lemma unat_cap: "unat cap = 2 ^ bits"
proof -
  have "(2::nat) ^ bits < 2 ^ 32" using bits by (intro power_strict_increasing) simp_all
  then have "unat (word_of_nat (2 ^ bits) :: u32) = 2 ^ bits" by (intro unat_of_nat_u32) simp
  then show ?thesis by (simp add: cap)
qed

lemma slot_mod: "ring_slot cap index = unat index mod size_cap"
proof -
  have "index AND (cap - 1) = take_bit bits index"
    by (simp add: cap take_bit_eq_mask mask_eq_exp_minus_1)
  then show ?thesis
    by (simp only: ring_slot_def unsigned_take_bit_eq) (simp add: take_bit_eq_mod unat_cap)
qed

lemma slot_less: "ring_slot cap index < size_cap"
  by (simp add: slot_mod unat_cap)

lemma slot_offset: "ring_slot cap (index + word_of_nat k) = (unat index + k) mod size_cap"
proof -
  have "(2::nat) ^ bits dvd 2 ^ 32" using bits by (intro le_imp_power_dvd) simp
  then have "(unat index + k) mod 2 ^ 32 mod 2 ^ bits = (unat index + k) mod 2 ^ bits" by (rule mod_mod_cancel)
  moreover have "unat (index + word_of_nat k) = (unat index + k) mod 2 ^ 32"
    by (simp add: unat_word_ariths unat_of_nat mod_add_right_eq)
  ultimately show ?thesis by (simp add: slot_mod unat_cap)
qed

lemma slot_offset_inj:
  assumes "i < size_cap" "j < size_cap" "ring_slot cap (index + word_of_nat i) = ring_slot cap (index + word_of_nat j)"
  shows "i = j"
proof -
  let ?n = "unat index"
  have le: "i = j" if "i \<le> j" "i < size_cap" "j < size_cap" "(?n + i) mod size_cap = (?n + j) mod size_cap" for i j
  proof -
    have "size_cap dvd (?n + j) - (?n + i)" using mod_eq_dvd_iff_nat [of "?n + i" "?n + j" size_cap] that by simp
    then have "size_cap dvd j - i" by simp
    then show "i = j" using that by (metis dvd_imp_le less_imp_diff_less not_le zero_less_diff le_eq_less_or_eq)
  qed
  show ?thesis
  proof (cases "i \<le> j")
    case True
    then show ?thesis using le [of i j] assms by (simp add: slot_offset)
  next
    case False
    then show ?thesis using le [of j i] assms by (simp add: slot_offset)
  qed
qed

lemma head_offset: "head = tail + word_of_nat (unat (head - tail))"
  by simp

text \<open>Storing a block behind the content, whatever the way it is copied.\<close>

lemma content_push:
  assumes "unat (head - tail) + length xs \<le> size_cap"
    and new: "\<And>k. k < length xs \<Longrightarrow> slots' ! ring_slot cap (head + word_of_nat k) = xs ! k"
    and old: "\<And>k. k < unat (head - tail) \<Longrightarrow>
      slots' ! ring_slot cap (tail + word_of_nat k) = slots ! ring_slot cap (tail + word_of_nat k)"
  shows "ring_content cap slots' (head + word_of_nat (length xs)) tail = ring_content cap slots head tail @ xs"
    and "unat (head + word_of_nat (length xs) - tail) = unat (head - tail) + length xs"
proof -
  let ?n = "unat (head - tail)" and ?m = "length xs"
  have "size_cap < 2 ^ 32" using unsigned_less [of cap, where 'a = nat] by simp
  then have sum: "?n + ?m < 2 ^ 32" using assms(1) by simp
  have e: "head + word_of_nat ?m - tail = word_of_nat (?n + ?m)"
    using head_offset [of head tail] by (simp add: algebra_simps)
  show len: "unat (head + word_of_nat ?m - tail) = ?n + ?m" unfolding e using sum by (intro unat_of_nat_u32) simp
  have sh: "tail + word_of_nat (?n + k) = head + word_of_nat k" for k
    using head_offset [of head tail] by (simp add: algebra_simps)
  show "ring_content cap slots' (head + word_of_nat ?m) tail = ring_content cap slots head tail @ xs"
  proof (rule nth_equalityI)
    show "length (ring_content cap slots' (head + word_of_nat ?m) tail) = length (ring_content cap slots head tail @ xs)"
      using len by simp
  next
    fix i assume "i < length (ring_content cap slots' (head + word_of_nat ?m) tail)"
    then have i: "i < ?n + ?m" using len by simp
    show "ring_content cap slots' (head + word_of_nat ?m) tail ! i = (ring_content cap slots head tail @ xs) ! i"
    proof (cases "i < ?n")
      case True
      then show ?thesis using i len old by (simp add: ring_content_def nth_append)
    next
      case False
      then obtain k where k: "i = ?n + k" using le_Suc_ex not_less by blast
      then have "slots' ! ring_slot cap (tail + word_of_nat i) = xs ! k"
        using new [of k] i unfolding k sh by simp
      then have "slots' ! ring_slot cap (tail + word_of_nat i) = xs ! (i - ?n)" by (simp add: k)
      then show ?thesis using i len False by (simp add: ring_content_def nth_append)
    qed
  qed
qed

lemma content_push_one:
  assumes "unat (head - tail) < size_cap" "length slots = size_cap"
  shows "ring_content cap (slots[ring_slot cap head := x]) (head + 1) tail = ring_content cap slots head tail @ [x]"
    and "unat (head + 1 - tail) = unat (head - tail) + 1"
proof -
  let ?slots = "slots[ring_slot cap head := x]"
  have h: "ring_slot cap head = ring_slot cap (tail + word_of_nat (unat (head - tail)))" by simp
  have "?slots ! ring_slot cap (tail + word_of_nat k) = slots ! ring_slot cap (tail + word_of_nat k)"
    if "k < unat (head - tail)" for k
  proof -
    have "ring_slot cap head \<noteq> ring_slot cap (tail + word_of_nat k)"
      unfolding h using slot_offset_inj [of "unat (head - tail)" k tail] that assms(1) by auto
    then show ?thesis by (rule nth_list_update_neq)
  qed
  moreover have "?slots ! ring_slot cap (head + word_of_nat k) = [x] ! k" if "k < length [x]" for k
    using that slot_less [of head] assms(2) by simp
  ultimately show "ring_content cap ?slots (head + 1) tail = ring_content cap slots head tail @ [x]"
    "unat (head + 1 - tail) = unat (head - tail) + 1"
    using content_push [of head tail "[x]" ?slots slots] assms(1) by simp_all
qed

lemma content_drop:
  assumes "n \<le> unat (head - tail)"
  shows "ring_content cap slots head (tail + word_of_nat n) = drop n (ring_content cap slots head tail)"
    and "unat (head - (tail + word_of_nat n)) = unat (head - tail) - n"
proof -
  have n: "unat (word_of_nat n :: u32) = n" using assms by (rule unat_of_nat_bounded)
  have "word_of_nat n \<le> head - tail" using assms n by (simp add: word_le_nat_alt)
  from unat_sub_le [OF this] n show len: "unat (head - (tail + word_of_nat n)) = unat (head - tail) - n"
    by (simp add: algebra_simps)
  show "ring_content cap slots head (tail + word_of_nat n) = drop n (ring_content cap slots head tail)"
  proof (rule nth_equalityI)
    fix i assume "i < length (ring_content cap slots head (tail + word_of_nat n))"
    then have i: "i < unat (head - tail) - n" using len by simp
    then have "[0..<unat (head - tail)] ! (n + i) = n + i" using nth_upt [of 0 "n + i"] by simp
    then show "ring_content cap slots head (tail + word_of_nat n) ! i = drop n (ring_content cap slots head tail) ! i"
      using i len by (simp add: ring_content_def algebra_simps)
  qed (use len in simp)
qed

lemma content_pop:
  assumes "head \<noteq> tail"
  shows "ring_content cap slots head tail = slots ! ring_slot cap tail # ring_content cap slots head (tail + 1)"
    and "unat (head - (tail + 1)) = unat (head - tail) - 1"
proof -
  have pos: "1 \<le> unat (head - tail)" using assms by (metis One_nat_def Suc_leI eq_iff_diff_eq_0 unat_gt_0)
  have "ring_content cap slots head tail \<noteq> []" using pos by (metis length_ring_content list.size(3) not_one_le_zero)
  moreover have "hd (ring_content cap slots head tail) = slots ! ring_slot cap tail"
    using pos by (simp add: ring_content_def hd_map hd_upt)
  ultimately show "ring_content cap slots head tail = slots ! ring_slot cap tail # ring_content cap slots head (tail + 1)"
    using content_drop(1) [OF pos, of slots] by (metis drop_Suc drop_0 list.collapse of_nat_1 One_nat_def)
  show "unat (head - (tail + 1)) = unat (head - tail) - 1" using content_drop(2) [OF pos] by simp
qed

text \<open>Blocks that are copied in two parts, up to the end of the array and from its start.\<close>

lemma slot_wrap:
  assumes "k < size_cap"
  shows "ring_slot cap (index + word_of_nat k) =
    (if ring_slot cap index + k < size_cap then ring_slot cap index + k else ring_slot cap index + k - size_cap)"
proof -
  let ?i = "ring_slot cap index"
  have e: "ring_slot cap (index + word_of_nat k) = (?i + k) mod size_cap"
    unfolding slot_offset by (simp add: slot_mod mod_add_left_eq)
  have less: "?i < size_cap" by (rule slot_less)
  show ?thesis
  proof (cases "?i + k < size_cap")
    case False
    then have "(?i + k) mod size_cap = (?i + k - size_cap) mod size_cap" by (simp add: le_mod_geq)
    also have "\<dots> = ?i + k - size_cap" using less assms by (intro mod_less) linarith
    finally show ?thesis using False e by simp
  qed (use e in simp)
qed

lemma content_prefix:
  assumes "count \<le> unat (head - tail)" "unat (head - tail) \<le> size_cap" "length slots = size_cap"
    and first: "first = min (size_cap - ring_slot cap tail) count"
  shows "take first (drop (ring_slot cap tail) slots) @ take (count - first) slots =
    take count (ring_content cap slots head tail)" (is "?l = ?r")
proof (rule nth_equalityI)
  let ?i = "ring_slot cap tail"
  have less: "?i < size_cap" by (rule slot_less)
  have len: "length (take first (drop ?i slots)) = first" "length (take (count - first) slots) = count - first"
    using assms less by simp_all
  show "length ?l = length ?r" using assms len by simp
  fix k assume "k < length ?l"
  then have k: "k < count" using len first by simp
  then have r: "?r ! k = slots ! ring_slot cap (tail + word_of_nat k)"
    using assms(1) by (simp add: ring_content_def)
  have "k < size_cap" using k assms by simp
  note slot = slot_wrap [OF this, of tail]
  show "?l ! k = ?r ! k"
  proof (cases "?i + k < size_cap")
    case True
    then have "k < first" using first k by simp
    then show ?thesis using r slot True len(1) assms(3) by (simp add: nth_append)
  next
    case False
    then have "first = size_cap - ?i" "\<not> k < first" using first k by simp_all
    then have "?l ! k = slots ! (k - (size_cap - ?i))"
      using len(1) nth_take [of "k - first" "count - first" slots] k by (simp add: nth_append diff_less_mono)
    moreover have "k - (size_cap - ?i) = ?i + k - size_cap" using less False by simp
    ultimately show ?thesis using r slot False by simp
  qed
qed

lemma block_written:
  assumes "length xs \<le> size_cap" "length slots = size_cap" "first = min (size_cap - ring_slot cap head) (length xs)"
    and slots': "slots' = overwrite (overwrite slots (ring_slot cap head) (take first xs)) 0 (drop first xs)"
  shows "length slots' = size_cap"
    and "k < length xs \<Longrightarrow> slots' ! ring_slot cap (head + word_of_nat k) = xs ! k"
    and "length xs \<le> k \<Longrightarrow> k < size_cap \<Longrightarrow>
      slots' ! ring_slot cap (head + word_of_nat k) = slots ! ring_slot cap (head + word_of_nat k)"
proof -
  let ?i = "ring_slot cap head" and ?mid = "overwrite slots (ring_slot cap head) (take first xs)"
  have less: "?i < size_cap" by (rule slot_less)
  have fits: "?i + length (take first xs) \<le> length slots" "first \<le> length xs" using assms less by simp_all
  have mid: "length ?mid = size_cap" using length_overwrite [OF fits(1)] assms(2) by simp
  have rest: "0 + length (drop first xs) \<le> length ?mid" using mid assms(1) by simp
  show "length slots' = size_cap" using length_overwrite [OF rest] mid slots' by simp
  have at: "slots' ! j = (if j < length xs - first then xs ! (first + j)
      else if ?i \<le> j \<and> j < ?i + first then xs ! (j - ?i) else slots ! j)" if "j < size_cap" for j
    using nth_overwrite [OF rest, of j] nth_overwrite [OF fits(1), of j] that mid assms(2) fits(2) slots'
    by auto
  show "slots' ! ring_slot cap (head + word_of_nat k) = xs ! k" if "k < length xs"
  proof (cases "?i + k < size_cap")
    case True
    then have "k < first" using that assms(3) by simp
    moreover have "\<not> ?i + k < length xs - first"
      using assms(1,3) \<open>k < first\<close> less True by (auto simp: min_def split: if_splits)
    ultimately show ?thesis using at [of "?i + k"] slot_wrap [of k head] True that assms(1) by simp
  next
    case False
    then have f: "first = size_cap - ?i" using that assms(3) by simp
    have "?i + k - size_cap < length xs - first" "first + (?i + k - size_cap) = k" "?i + k - size_cap < size_cap"
      using f False that less assms(1) by auto
    then show ?thesis using at [of "?i + k - size_cap"] slot_wrap [of k head] False that assms(1) by simp
  qed
  show "slots' ! ring_slot cap (head + word_of_nat k) = slots ! ring_slot cap (head + word_of_nat k)"
    if "length xs \<le> k" "k < size_cap"
  proof (cases "?i + k < size_cap")
    case True
    then have "first = length xs" using that assms(3) by simp
    then show ?thesis using at [of "?i + k"] slot_wrap [of k head] True that by simp
  next
    case False
    then have "\<not> ?i + k - size_cap < length xs - first" "?i + k - size_cap < ?i"
      using that less assms(3) by (auto simp: min_def)
    then show ?thesis using at [of "?i + k - size_cap"] slot_wrap [of k head] False that less by simp
  qed
qed

lemma content_push_block:
  assumes "unat (head - tail) + length xs \<le> size_cap" "length slots = size_cap"
    and "first = min (size_cap - ring_slot cap head) (length xs)"
    and "slots' = overwrite (overwrite slots (ring_slot cap head) (take first xs)) 0 (drop first xs)"
  shows "ring_content cap slots' (head + word_of_nat (length xs)) tail = ring_content cap slots head tail @ xs"
    and "unat (head + word_of_nat (length xs) - tail) = unat (head - tail) + length xs"
    and "length slots' = size_cap"
proof -
  have len: "length xs \<le> size_cap" using assms(1) by simp
  note blk = block_written [OF len assms(2-4)]
  have old: "slots' ! ring_slot cap (tail + word_of_nat k) = slots ! ring_slot cap (tail + word_of_nat k)"
    if "k < unat (head - tail)" for k
  proof -
    let ?k = "size_cap - unat (head - tail) + k"
    have e: "head + word_of_nat ?k = tail + word_of_nat k + word_of_nat size_cap"
      using head_offset [of head tail] assms(1) by (simp add: algebra_simps of_nat_diff)
    have "ring_slot cap (head + word_of_nat ?k) = ring_slot cap (tail + word_of_nat k)"
      unfolding e slot_offset [of _ size_cap] by (simp add: slot_mod)
    then show ?thesis using blk(3) [of ?k] that assms(1) by simp
  qed
  show "ring_content cap slots' (head + word_of_nat (length xs)) tail = ring_content cap slots head tail @ xs"
    "unat (head + word_of_nat (length xs) - tail) = unat (head - tail) + length xs"
    using content_push [OF assms(1) blk(2) old] by simp_all
  show "length slots' = size_cap" by (rule blk(1))
qed

end

end
