(* ===== verification/Spsc_Queue.thy ===== *)
theory Spsc_Queue
  imports Ring
begin

section \<open>Single-producer, single-consumer event queue (np2opngen_fixture/np2opngen_spsc.c)\<close>

text \<open>
  The queue copies events without looking at them, so their type is the parameter \<open>'e\<close>; an event pointer is
  \<open>None\<close> when null. The first part is the code of each function run alone. The second part cuts the two
  functions at their atomic accesses and lets a producer and a consumer task interleave arbitrarily. The loads and
  stores of the indices are acquire and release operations on the index of the other side, so every access to
  a slot happens in the order of the interleaving, provided that no slot is ever written while the other task
  copies it; that no such race happens is part of the property.
\<close>

definition NP2_OPNGEN_SPSC_CAPACITY :: u32 where "NP2_OPNGEN_SPSC_CAPACITY = 8"

datatype spsc_status = SPSC_OK | SPSC_EMPTY | SPSC_FULL | SPSC_ARGUMENT

record 'e spsc_queue =
  sq_slots :: "'e list"
  sq_head :: u32
  sq_tail :: u32

definition spsc_init :: "'e spsc_queue \<Rightarrow> 'e spsc_queue" where
  "spsc_init queue = queue\<lparr>sq_head := 0, sq_tail := 0\<rparr>"

definition spsc_enqueue :: "'e option \<Rightarrow> 'e spsc_queue \<Rightarrow> spsc_status \<times> 'e spsc_queue" where
  "spsc_enqueue event queue =
     (case event of
        None \<Rightarrow> (SPSC_ARGUMENT, queue)
      | Some e \<Rightarrow>
          let head = sq_head queue; tail = sq_tail queue in
          if head - tail = NP2_OPNGEN_SPSC_CAPACITY then (SPSC_FULL, queue)
          else
            let queue = queue\<lparr>sq_slots := (sq_slots queue)[ring_slot NP2_OPNGEN_SPSC_CAPACITY head := e]\<rparr>
            in (SPSC_OK, queue\<lparr>sq_head := head + 1\<rparr>))"

definition spsc_dequeue :: "'e spsc_queue \<Rightarrow> spsc_status \<times> 'e option \<times> 'e spsc_queue" where
  "spsc_dequeue queue =
     (let tail = sq_tail queue; head = sq_head queue in
      if head = tail then (SPSC_EMPTY, None, queue)
      else (SPSC_OK, Some (sq_slots queue ! ring_slot NP2_OPNGEN_SPSC_CAPACITY tail), queue\<lparr>sq_tail := tail + 1\<rparr>))"

definition spsc_occupancy :: "'e spsc_queue \<Rightarrow> u32" where
  "spsc_occupancy queue = sq_head queue - sq_tail queue"

subsection \<open>The two tasks\<close>

text \<open>Where a task stands inside its function, with the values of its local variables.\<close>

datatype 'e producer = P_idle | P_head 'e u32 | P_both 'e u32 u32 | P_stored 'e u32
datatype 'e consumer = C_idle | C_tail u32 | C_both u32 u32 | C_copied u32 'e

record 'e spsc_world =
  sw_queue :: "'e spsc_queue"
  sw_producer :: "'e producer"
  sw_consumer :: "'e consumer"
  sw_sent :: "'e list"
  sw_received :: "'e list"

text \<open>\<open>sw_sent\<close> and \<open>sw_received\<close> record the events of the calls that returned \<^verbatim>\<open>NP2_OPNGEN_SPSC_OK\<close>.\<close>

definition producer_step :: "'e \<Rightarrow> 'e spsc_world \<Rightarrow> 'e spsc_world" where
  "producer_step event w =
     (let q = sw_queue w in
      case sw_producer w of
        P_idle \<Rightarrow> w\<lparr>sw_producer := P_head event (sq_head q)\<rparr>
      | P_head e head \<Rightarrow> w\<lparr>sw_producer := P_both e head (sq_tail q)\<rparr>
      | P_both e head tail \<Rightarrow>
          if head - tail = NP2_OPNGEN_SPSC_CAPACITY then w\<lparr>sw_producer := P_idle\<rparr>
          else w\<lparr>sw_queue := q\<lparr>sq_slots := (sq_slots q)[ring_slot NP2_OPNGEN_SPSC_CAPACITY head := e]\<rparr>,
                 sw_producer := P_stored e head\<rparr>
      | P_stored e head \<Rightarrow>
          w\<lparr>sw_queue := q\<lparr>sq_head := head + 1\<rparr>, sw_producer := P_idle, sw_sent := sw_sent w @ [e]\<rparr>)"

definition consumer_step :: "'e spsc_world \<Rightarrow> 'e spsc_world" where
  "consumer_step w =
     (let q = sw_queue w in
      case sw_consumer w of
        C_idle \<Rightarrow> w\<lparr>sw_consumer := C_tail (sq_tail q)\<rparr>
      | C_tail tail \<Rightarrow> w\<lparr>sw_consumer := C_both tail (sq_head q)\<rparr>
      | C_both tail head \<Rightarrow>
          if head = tail then w\<lparr>sw_consumer := C_idle\<rparr>
          else w\<lparr>sw_consumer := C_copied tail (sq_slots q ! ring_slot NP2_OPNGEN_SPSC_CAPACITY tail)\<rparr>
      | C_copied tail e \<Rightarrow>
          w\<lparr>sw_queue := q\<lparr>sq_tail := tail + 1\<rparr>, sw_consumer := C_idle, sw_received := sw_received w @ [e]\<rparr>)"

text \<open>A schedule names the task that moves next, with the event the producer offers when it is idle.\<close>

fun spsc_step :: "'e option \<Rightarrow> 'e spsc_world \<Rightarrow> 'e spsc_world" where
  "spsc_step (Some event) w = producer_step event w"
| "spsc_step None w = consumer_step w"

definition spsc_run :: "'e option list \<Rightarrow> 'e spsc_world \<Rightarrow> 'e spsc_world" where
  "spsc_run schedule w = fold spsc_step schedule w"

definition spsc_start :: "'e spsc_queue \<Rightarrow> 'e spsc_world" where
  "spsc_start queue = \<lparr>sw_queue = spsc_init queue, sw_producer = P_idle, sw_consumer = C_idle, sw_sent = [], sw_received = []\<rparr>"

subsection \<open>Invariant\<close>

interpretation spsc: ring_geometry NP2_OPNGEN_SPSC_CAPACITY 3
  by unfold_locales (simp_all add: NP2_OPNGEN_SPSC_CAPACITY_def)

definition spsc_list :: "'e spsc_queue \<Rightarrow> 'e list" where
  "spsc_list q = ring_content NP2_OPNGEN_SPSC_CAPACITY (sq_slots q) (sq_head q) (sq_tail q)"

definition queue_ok :: "'e spsc_queue \<Rightarrow> bool" where
  "queue_ok q \<longleftrightarrow> length (sq_slots q) = 8 \<and> unat (sq_head q - sq_tail q) \<le> 8"

definition producer_ok :: "'e spsc_queue \<Rightarrow> 'e producer \<Rightarrow> bool" where
  "producer_ok q p = (case p of
       P_idle \<Rightarrow> True
     | P_head e head \<Rightarrow> head = sq_head q
     | P_both e head tail \<Rightarrow> head = sq_head q \<and> unat (head - sq_tail q) \<le> unat (head - tail) \<and> unat (head - tail) \<le> 8
     | P_stored e head \<Rightarrow> head = sq_head q \<and> unat (head - sq_tail q) < 8 \<and>
         sq_slots q ! ring_slot NP2_OPNGEN_SPSC_CAPACITY head = e)"

definition consumer_ok :: "'e spsc_queue \<Rightarrow> 'e consumer \<Rightarrow> bool" where
  "consumer_ok q c = (case c of
       C_idle \<Rightarrow> True
     | C_tail tail \<Rightarrow> tail = sq_tail q
     | C_both tail head \<Rightarrow> tail = sq_tail q \<and> unat (head - tail) \<le> unat (sq_head q - tail)
     | C_copied tail e \<Rightarrow> tail = sq_tail q \<and> sq_head q \<noteq> tail \<and>
         e = sq_slots q ! ring_slot NP2_OPNGEN_SPSC_CAPACITY tail)"

definition spsc_ok :: "'e spsc_world \<Rightarrow> bool" where
  "spsc_ok w \<longleftrightarrow> queue_ok (sw_queue w) \<and> producer_ok (sw_queue w) (sw_producer w) \<and>
     consumer_ok (sw_queue w) (sw_consumer w) \<and> sw_sent w = sw_received w @ spsc_list (sw_queue w)"

lemma cap_8: "unat NP2_OPNGEN_SPSC_CAPACITY = 8"
  by (simp add: NP2_OPNGEN_SPSC_CAPACITY_def)

lemma unat_eq_cap: "i = NP2_OPNGEN_SPSC_CAPACITY \<longleftrightarrow> unat i = 8"
  by (metis cap_8 word_unat_eq_iff)

text \<open>A slot of the content is not the slot that the producer writes.\<close>

lemma write_slot_fresh:
  assumes "unat (head - tail) < 8" "k < unat (head - tail)"
  shows "ring_slot NP2_OPNGEN_SPSC_CAPACITY head \<noteq> ring_slot NP2_OPNGEN_SPSC_CAPACITY (tail + word_of_nat k)"
  using spsc.slot_offset_inj [of "unat (head - tail)" k tail] assms by (auto simp: cap_8)

lemma tail_slot_fresh:
  assumes "unat (head - tail) < 8" "head \<noteq> tail"
  shows "ring_slot NP2_OPNGEN_SPSC_CAPACITY head \<noteq> ring_slot NP2_OPNGEN_SPSC_CAPACITY tail"
proof -
  have "0 < unat (head - tail)" using assms(2) by (metis eq_iff_diff_eq_0 unat_gt_0)
  from write_slot_fresh [OF assms(1) this] show ?thesis by simp
qed

lemma nonempty_stale: "head' \<noteq> tail \<Longrightarrow> unat (head' - tail) \<le> unat (head - tail) \<Longrightarrow> head \<noteq> (tail :: u32)"
  by (metis eq_iff_diff_eq_0 le_zero_eq unat_eq_zero unsigned_0)

lemma producer_keeps:
  assumes "spsc_ok w"
  shows "spsc_ok (producer_step event w)"
proof -
  let ?q = "sw_queue w"
  note ok = assms [unfolded spsc_ok_def]
  show ?thesis
  proof (cases "sw_producer w")
    case P_idle
    then show ?thesis using ok by (simp add: producer_step_def spsc_ok_def producer_ok_def)
  next
    case (P_head e head)
    then show ?thesis using ok by (simp add: producer_step_def spsc_ok_def producer_ok_def queue_ok_def)
  next
    case (P_both e head tail)
    show ?thesis
    proof (cases "head - tail = NP2_OPNGEN_SPSC_CAPACITY")
      case True
      then show ?thesis using ok P_both by (simp add: producer_step_def spsc_ok_def producer_ok_def)
    next
      case False
      then have h: "head = sq_head ?q" "unat (head - sq_tail ?q) < 8"
        using ok P_both by (auto simp: producer_ok_def unat_eq_cap)
      let ?s = "ring_slot NP2_OPNGEN_SPSC_CAPACITY head"
      let ?q' = "?q\<lparr>sq_slots := (sq_slots ?q)[?s := e]\<rparr>"
      have "spsc_list ?q' = spsc_list ?q"
        using write_slot_fresh [OF h(2)] h(1) by (simp add: spsc_list_def ring_content_def)
      moreover have "?s < length (sq_slots ?q)" using spsc.slot_less [of head] ok by (simp add: queue_ok_def cap_8)
      moreover have "consumer_ok ?q' (sw_consumer w)"
        using ok tail_slot_fresh [OF h(2)] h(1) by (auto simp: consumer_ok_def split: consumer.splits)
      ultimately show ?thesis
        using ok P_both False h by (simp add: producer_step_def spsc_ok_def producer_ok_def queue_ok_def Let_def)
    qed
  next
    case (P_stored e head)
    then have h: "head = sq_head ?q" "unat (head - sq_tail ?q) < 8" "sq_slots ?q ! ring_slot NP2_OPNGEN_SPSC_CAPACITY head = e"
      using ok by (auto simp: producer_ok_def)
    have "(sq_slots ?q)[ring_slot NP2_OPNGEN_SPSC_CAPACITY head := e] = sq_slots ?q" using h(3) by auto
    with spsc.content_push_one(1) [of head "sq_tail ?q" "sq_slots ?q" e]
      spsc.content_push_one(2) [of head "sq_tail ?q" "sq_slots ?q"] h ok
    have push: "ring_content NP2_OPNGEN_SPSC_CAPACITY (sq_slots ?q) (head + 1) (sq_tail ?q) = spsc_list ?q @ [e]"
        "unat (head + 1 - sq_tail ?q) = unat (head - sq_tail ?q) + 1"
      by (simp_all add: cap_8 queue_ok_def spsc_list_def)
    let ?q' = "?q\<lparr>sq_head := head + 1\<rparr>"
    have "head + 1 \<noteq> sq_tail ?q" using push(2) by (metis add_is_0 eq_iff_diff_eq_0 unsigned_0 zero_neq_one)
    then have "consumer_ok ?q' (sw_consumer w)"
      using ok push(2) h(1) by (auto simp: consumer_ok_def split: consumer.splits)
    then show ?thesis
      using ok P_stored push h
      by (simp add: producer_step_def spsc_ok_def producer_ok_def queue_ok_def spsc_list_def)
  qed
qed

lemma consumer_keeps:
  assumes "spsc_ok w"
  shows "spsc_ok (consumer_step w)"
proof -
  let ?q = "sw_queue w"
  note ok = assms [unfolded spsc_ok_def]
  show ?thesis
  proof (cases "sw_consumer w")
    case (C_both tail head)
    then show ?thesis using ok nonempty_stale [of head tail "sq_head ?q"]
      by (auto simp: consumer_step_def spsc_ok_def consumer_ok_def)
  next
    case (C_copied tail e)
    then have t: "tail = sq_tail ?q" "sq_head ?q \<noteq> tail" "e = sq_slots ?q ! ring_slot NP2_OPNGEN_SPSC_CAPACITY tail"
      using ok by (auto simp: consumer_ok_def)
    note pop = spsc.content_pop(1) [OF t(2), of "sq_slots ?q"] spsc.content_pop(2) [OF t(2)]
    let ?q' = "?q\<lparr>sq_tail := tail + 1\<rparr>"
    have "producer_ok ?q' (sw_producer w)"
      using ok pop(2) t(1) by (auto simp: producer_ok_def split: producer.splits)
    then show ?thesis
      using ok C_copied pop t
      by (auto simp: consumer_step_def spsc_ok_def consumer_ok_def queue_ok_def spsc_list_def)
  qed (use ok in \<open>simp_all add: consumer_step_def spsc_ok_def consumer_ok_def\<close>)
qed

lemma spsc_run_ok: "spsc_ok w \<Longrightarrow> spsc_ok (spsc_run schedule w)"
proof (induction schedule arbitrary: w)
  case (Cons s schedule)
  then have "spsc_ok (spsc_step s w)" by (cases s) (simp_all add: producer_keeps consumer_keeps)
  from Cons.IH [OF this] show ?case by (simp add: spsc_run_def)
qed (simp add: spsc_run_def)

lemma spsc_start_ok: "length (sq_slots queue) = 8 \<Longrightarrow> spsc_ok (spsc_start queue)"
  by (simp add: spsc_ok_def spsc_start_def spsc_init_def queue_ok_def producer_ok_def consumer_ok_def spsc_list_def)

text \<open>A task that is not interrupted executes exactly the function that it models.\<close>

lemma producer_runs_enqueue:
  assumes "sw_producer w = P_idle" "spsc_enqueue (Some e) (sw_queue w) = (status, queue)"
  shows "status = SPSC_OK \<Longrightarrow>
      spsc_run [Some e, Some e, Some e, Some e] w = w\<lparr>sw_queue := queue, sw_sent := sw_sent w @ [e]\<rparr>"
    and "status \<noteq> SPSC_OK \<Longrightarrow> status = SPSC_FULL \<and> queue = sw_queue w \<and> spsc_run [Some e, Some e, Some e] w = w"
  using assms
  by (auto simp: spsc_enqueue_def spsc_run_def producer_step_def Let_def split: if_splits)

lemma consumer_runs_dequeue:
  assumes "sw_consumer w = C_idle" "spsc_dequeue (sw_queue w) = (status, event, queue)"
  shows "event = Some e \<Longrightarrow> status = SPSC_OK \<and>
      spsc_run [None, None, None, None] w = w\<lparr>sw_queue := queue, sw_received := sw_received w @ [e]\<rparr>"
    and "event = None \<Longrightarrow> status = SPSC_EMPTY \<and> queue = sw_queue w \<and> spsc_run [None, None, None] w = w"
  using assms
  by (auto simp: spsc_dequeue_def spsc_run_def consumer_step_def Let_def split: if_splits)

text \<open>The slots that the two tasks are about to access.\<close>

definition writes_slot :: "'e spsc_world \<Rightarrow> nat option" where
  "writes_slot w = (case sw_producer w of
       P_both e head tail \<Rightarrow>
         if head - tail = NP2_OPNGEN_SPSC_CAPACITY then None else Some (ring_slot NP2_OPNGEN_SPSC_CAPACITY head)
     | _ \<Rightarrow> None)"

definition reads_slot :: "'e spsc_world \<Rightarrow> nat option" where
  "reads_slot w = (case sw_consumer w of
       C_both tail head \<Rightarrow> if head = tail then None else Some (ring_slot NP2_OPNGEN_SPSC_CAPACITY tail)
     | _ \<Rightarrow> None)"

lemma spsc_ok_no_race:
  assumes "spsc_ok w" "writes_slot w = Some i" "reads_slot w = Some j"
  shows "i \<noteq> j \<and> i < 8 \<and> j < 8"
proof -
  let ?q = "sw_queue w"
  note ok = assms(1) [unfolded spsc_ok_def]
  from assms(2) obtain e head tail where p: "sw_producer w = P_both e head tail"
    "head - tail \<noteq> NP2_OPNGEN_SPSC_CAPACITY" "i = ring_slot NP2_OPNGEN_SPSC_CAPACITY head"
    by (auto simp: writes_slot_def split: producer.splits if_splits)
  from assms(3) obtain tail' head' where c: "sw_consumer w = C_both tail' head'" "head' \<noteq> tail'"
    "j = ring_slot NP2_OPNGEN_SPSC_CAPACITY tail'"
    by (auto simp: reads_slot_def split: consumer.splits if_splits)
  have "head = sq_head ?q" "unat (head - sq_tail ?q) < 8"
    using ok p by (auto simp: producer_ok_def unat_eq_cap)
  moreover have "tail' = sq_tail ?q" "sq_head ?q \<noteq> tail'"
    using ok c nonempty_stale [of head' tail' "sq_head ?q"] by (auto simp: consumer_ok_def)
  ultimately have "i \<noteq> j" using tail_slot_fresh p(3) c(3) by simp
  then show ?thesis using spsc.slot_less p(3) c(3) cap_8 by metis
qed

text \<open>
  (C13) First in, first out, without loss, duplication, reordering or a data race. A producer and a consumer task
  call the queue's functions while the scheduler interleaves their atomic accesses in any order. At every point of every
  run from a freshly initialised queue, the events enqueued with success are exactly the events already
  dequeued followed by the content of the ring, in order; the occupancy is at most 8; and the slot that the
  producer is about to write is never the slot that the consumer is about to copy. The 32-bit indices may wrap around.
\<close>

theorem spsc_fifo:
  assumes "length (sq_slots queue) = 8" "w = spsc_run schedule (spsc_start queue)"
  shows "sw_sent w = sw_received w @ spsc_list (sw_queue w) \<and>
    unat (spsc_occupancy (sw_queue w)) = length (spsc_list (sw_queue w)) \<and>
    unat (spsc_occupancy (sw_queue w)) \<le> 8 \<and>
    (\<forall>i. writes_slot w = Some i \<longrightarrow> reads_slot w \<noteq> Some i)"
proof -
  have ok: "spsc_ok w" unfolding assms(2) using assms(1) by (intro spsc_run_ok spsc_start_ok)
  moreover have "reads_slot w \<noteq> Some i" if "writes_slot w = Some i" for i
    using spsc_ok_no_race [OF ok that] by blast
  ultimately show ?thesis
    by (simp add: spsc_ok_def queue_ok_def spsc_occupancy_def spsc_list_def)
qed

definition spsc_demo :: "nat spsc_queue" where
  "spsc_demo = \<lparr>sq_slots = replicate 8 0, sq_head = 5, sq_tail = 3\<rparr>"

lemma spsc_fifo_witness:
  "\<exists>w. sw_sent w = [7 :: nat] \<and> sw_received w = [] \<and> spsc_list (sw_queue w) = [7] \<and> writes_slot w = Some 1 \<and> reads_slot w = Some 0"
proof -
  let ?schedule = "[Some 7, Some 7, Some 7, Some 7, None, None, Some 9, Some 9 :: nat option]"
  let ?w = "spsc_run ?schedule (spsc_start spsc_demo)"
  have run: "sw_sent ?w = [7]" "sw_received ?w = []" "writes_slot ?w = Some 1" "reads_slot ?w = Some 0"
    by (simp_all add: spsc_run_def spsc_start_def spsc_init_def spsc_demo_def producer_step_def consumer_step_def
        writes_slot_def reads_slot_def ring_slot_def NP2_OPNGEN_SPSC_CAPACITY_def Let_def)
  moreover have "sw_sent ?w = sw_received ?w @ spsc_list (sw_queue ?w)"
    using spsc_fifo [of spsc_demo ?w ?schedule] by (simp add: spsc_demo_def)
  ultimately show ?thesis by (intro exI [of _ ?w]) simp
qed

end
