(* ===== verification/Bounded_Fifo.thy ===== *)
theory Bounded_Fifo
  imports Prelude
begin

section \<open>Bounded queues as an interface\<close>

text \<open>
  What the clients of the audio rings rely on. A queue with room for \<open>cap\<close> items answers every call the way a plain list
  does: \<open>list_put\<close> and \<open>list_get\<close> are that list, with the status codes of the transport. The locale
  \<open>bounded_fifo\<close> relates a ring to the list one call at a time; \<open>calls_refine\<close> extends this to every sequence of calls, so
  that whatever holds of the list (\<open>list_order\<close>: nothing is lost, duplicated or reordered) holds of the ring.
\<close>

datatype transport_status = TRANSPORT_OK | TRANSPORT_EMPTY | TRANSPORT_FULL | TRANSPORT_ARGUMENT | TRANSPORT_INVARIANT

datatype 'a fifo_call = Put "'a list" | Get nat

fun call_size :: "'a fifo_call \<Rightarrow> nat" where
  "call_size (Put xs) = length xs"
| "call_size (Get n) = n"

text \<open>A reply is the status and, for a successful \<open>Get\<close>, the items taken.\<close>

fun fifo_calls :: "('a list \<Rightarrow> 'r \<Rightarrow> transport_status \<times> 'r) \<Rightarrow> (nat \<Rightarrow> 'r \<Rightarrow> transport_status \<times> 'a list \<times> 'r) \<Rightarrow>
    'a fifo_call list \<Rightarrow> 'r \<Rightarrow> (transport_status \<times> 'a list) list \<times> 'r" where
  "fifo_calls put get [] r = ([], r)"
| "fifo_calls put get (Put xs # calls) r =
     (let (status, r) = put xs r; (replies, r) = fifo_calls put get calls r in ((status, []) # replies, r))"
| "fifo_calls put get (Get n # calls) r =
     (let (status, ys, r) = get n r; (replies, r) = fifo_calls put get calls r in ((status, ys) # replies, r))"

definition list_put :: "nat \<Rightarrow> 'a list \<Rightarrow> 'a list \<Rightarrow> transport_status \<times> 'a list" where
  "list_put cap xs q =
     (if length xs > cap then (TRANSPORT_ARGUMENT, q)
      else if length q + length xs > cap then (TRANSPORT_FULL, q)
      else (TRANSPORT_OK, q @ xs))"

definition list_get :: "nat \<Rightarrow> nat \<Rightarrow> 'a list \<Rightarrow> transport_status \<times> 'a list \<times> 'a list" where
  "list_get cap n q =
     (if n > cap then (TRANSPORT_ARGUMENT, [], q)
      else if n > length q then (TRANSPORT_EMPTY, [], q)
      else (TRANSPORT_OK, take n q, drop n q))"

text \<open>The items of the successful \<open>Put\<close> calls and of the successful \<open>Get\<close> calls of a run.\<close>

fun items_in :: "'a fifo_call list \<Rightarrow> (transport_status \<times> 'a list) list \<Rightarrow> 'a list" where
  "items_in (Put xs # calls) ((status, ys) # replies) = (if status = TRANSPORT_OK then xs else []) @ items_in calls replies"
| "items_in (Get n # calls) (reply # replies) = items_in calls replies"
| "items_in _ _ = []"

definition items_out :: "(transport_status \<times> 'a list) list \<Rightarrow> 'a list" where
  "items_out replies = concat (map snd replies)"

lemma list_order:
  assumes "fifo_calls (list_put cap) (list_get cap) calls q = (replies, q')"
  shows "q @ items_in calls replies = items_out replies @ q'"
  using assms
proof (induction calls arbitrary: q replies)
  case (Cons call calls)
  show ?case
  proof (cases call)
    case (Put xs)
    obtain status q1 where put: "list_put cap xs q = (status, q1)" by (metis surj_pair)
    obtain replies1 where rest: "fifo_calls (list_put cap) (list_get cap) calls q1 = (replies1, q')"
        "replies = (status, []) # replies1"
      using Cons.prems put Put by (auto split: prod.splits)
    have "q1 = q @ (if status = TRANSPORT_OK then xs else [])" using put by (auto simp: list_put_def split: if_splits)
    then show ?thesis using Cons.IH [OF rest(1)] rest(2) Put by (simp add: items_out_def)
  next
    case (Get n)
    obtain status ys q1 where get: "list_get cap n q = (status, ys, q1)" by (metis surj_pair)
    obtain replies1 where rest: "fifo_calls (list_put cap) (list_get cap) calls q1 = (replies1, q')"
        "replies = (status, ys) # replies1"
      using Cons.prems get Get by (auto split: prod.splits)
    have "q = ys @ q1" using get by (auto simp: list_get_def split: if_splits)
    then show ?thesis using Cons.IH [OF rest(1)] rest(2) Get by (simp add: items_out_def)
  qed
qed (simp add: items_out_def)

locale bounded_fifo =
  fixes ok :: "'r \<Rightarrow> bool" and content :: "'r \<Rightarrow> 'a list" and cap :: nat
    and put :: "'a list \<Rightarrow> 'r \<Rightarrow> transport_status \<times> 'r"
    and get :: "nat \<Rightarrow> 'r \<Rightarrow> transport_status \<times> 'a list \<times> 'r"
    and admissible :: "nat \<Rightarrow> bool"
  assumes put_refines: "ok r \<Longrightarrow> admissible (length xs) \<Longrightarrow> put xs r = (status, r') \<Longrightarrow>
      ok r' \<and> list_put cap xs (content r) = (status, content r')"
    and get_refines: "ok r \<Longrightarrow> admissible n \<Longrightarrow> get n r = (status, ys, r') \<Longrightarrow>
      ok r' \<and> list_get cap n (content r) = (status, ys, content r')"
begin

lemma calls_refine:
  assumes "ok r" "\<forall>call\<in>set calls. admissible (call_size call)" "fifo_calls put get calls r = (replies, r')"
  shows "ok r' \<and> fifo_calls (list_put cap) (list_get cap) calls (content r) = (replies, content r')"
  using assms
proof (induction calls arbitrary: r replies)
  case (Cons call calls)
  show ?case
  proof (cases call)
    case (Put xs)
    obtain status r1 where p: "put xs r = (status, r1)" by (metis surj_pair)
    obtain replies1 where rest: "fifo_calls put get calls r1 = (replies1, r')" "replies = (status, []) # replies1"
      using Cons.prems p Put by (auto split: prod.splits)
    have "ok r1 \<and> list_put cap xs (content r) = (status, content r1)"
      using put_refines [OF Cons.prems(1) _ p] Cons.prems(2) Put by simp
    then show ?thesis using Cons.IH [OF _ _ rest(1)] rest(2) Cons.prems(2) Put by simp
  next
    case (Get n)
    obtain status ys r1 where g: "get n r = (status, ys, r1)" by (metis surj_pair)
    obtain replies1 where rest: "fifo_calls put get calls r1 = (replies1, r')" "replies = (status, ys) # replies1"
      using Cons.prems g Get by (auto split: prod.splits)
    have "ok r1 \<and> list_get cap n (content r) = (status, ys, content r1)"
      using get_refines [OF Cons.prems(1) _ g] Cons.prems(2) Get by simp
    then show ?thesis using Cons.IH [OF _ _ rest(1)] rest(2) Cons.prems(2) Get by simp
  qed
qed simp

lemma calls_in_order:
  assumes "ok r" "\<forall>call\<in>set calls. admissible (call_size call)" "fifo_calls put get calls r = (replies, r')"
  shows "content r @ items_in calls replies = items_out replies @ content r'"
  using calls_refine [OF assms] list_order by blast

end

end
