(* ===== verification/Audio_Transport.thy ===== *)
theory Audio_Transport
  imports Ring Bounded_Fifo
begin

section \<open>Event and byte rings of the audio path (np2audio86_core/np2audio86_transport.c)\<close>

text \<open>
  The emulator's core sends timed synthesizer events through a ring of 128 events, and the sample bytes they refer to
  through a ring of 65536 bytes. Both rings live in one structure each, so a ring pointer is never null in the model; an
  event or buffer pointer is \<open>None\<close> when null. The branches that the test builds add are not part of the firmware.
\<close>

definition NP2_AUDIO86_ASYNC_EVENT_CAPACITY :: u32 where "NP2_AUDIO86_ASYNC_EVENT_CAPACITY = 128"
definition NP2_AUDIO86_ASYNC_BYTE_CAPACITY :: u32 where "NP2_AUDIO86_ASYNC_BYTE_CAPACITY = 65536"
definition NP2_AUDIO86_EVENT_RESET_BARRIER :: u32 where "NP2_AUDIO86_EVENT_RESET_BARRIER = 0x80000000"

record audio_event =
  av_frame_timestamp :: u64
  av_sequence :: u64
  av_opcode :: u32
  av_payload :: u32

record event_ring =
  er_slots :: "audio_event list"
  er_head :: u32
  er_tail :: u32

record byte_ring =
  br_bytes :: bytes
  br_head :: u32
  br_tail :: u32

subsection \<open>Event ring\<close>

definition event_zero :: audio_event where
  "event_zero = \<lparr>av_frame_timestamp = 0, av_sequence = 0, av_opcode = 0, av_payload = 0\<rparr>"

definition event_ring_init :: "event_ring \<Rightarrow> event_ring" where
  "event_ring_init ring =
     ring\<lparr>er_slots := replicate (unat NP2_AUDIO86_ASYNC_EVENT_CAPACITY) event_zero, er_head := 0, er_tail := 0\<rparr>"

definition event_ring_occupancy :: "event_ring \<Rightarrow> u32" where
  "event_ring_occupancy ring = er_head ring - er_tail ring"

definition event_ring_peek :: "event_ring \<Rightarrow> transport_status \<times> audio_event option" where
  "event_ring_peek ring =
     (let tail = er_tail ring; head = er_head ring in
      if head - tail > NP2_AUDIO86_ASYNC_EVENT_CAPACITY then (TRANSPORT_INVARIANT, None)
      else if head = tail then (TRANSPORT_EMPTY, None)
      else (TRANSPORT_OK, Some (er_slots ring ! ring_slot NP2_AUDIO86_ASYNC_EVENT_CAPACITY tail)))"

definition event_ring_consume :: "event_ring \<Rightarrow> transport_status \<times> event_ring" where
  "event_ring_consume ring =
     (let tail = er_tail ring; head = er_head ring in
      if head - tail > NP2_AUDIO86_ASYNC_EVENT_CAPACITY then (TRANSPORT_INVARIANT, ring)
      else if head = tail then (TRANSPORT_EMPTY, ring)
      else (TRANSPORT_OK, ring\<lparr>er_tail := tail + 1\<rparr>))"

definition event_ring_enqueue :: "audio_event option \<Rightarrow> event_ring \<Rightarrow> transport_status \<times> event_ring" where
  "event_ring_enqueue event ring =
     (case event of
        None \<Rightarrow> (TRANSPORT_ARGUMENT, ring)
      | Some e \<Rightarrow>
          let head = er_head ring; tail = er_tail ring in
          if head - tail > NP2_AUDIO86_ASYNC_EVENT_CAPACITY then (TRANSPORT_INVARIANT, ring)
          else if head - tail = NP2_AUDIO86_ASYNC_EVENT_CAPACITY then (TRANSPORT_FULL, ring)
          else
            let ring = ring\<lparr>er_slots := (er_slots ring)[ring_slot NP2_AUDIO86_ASYNC_EVENT_CAPACITY head := e]\<rparr>
            in (TRANSPORT_OK, ring\<lparr>er_head := head + 1\<rparr>))"

text \<open>The reset ordinal belongs to the producer and is passed by reference.\<close>

definition reset_event_ring_enqueue ::
  "audio_event option \<Rightarrow> event_ring \<Rightarrow> u32 \<Rightarrow> transport_status \<times> event_ring \<times> u32" where
  "reset_event_ring_enqueue event ring producer_reset_ordinal =
     (case event of
        None \<Rightarrow> (TRANSPORT_ARGUMENT, ring, producer_reset_ordinal)
      | Some e \<Rightarrow>
          if av_opcode e \<noteq> NP2_AUDIO86_EVENT_RESET_BARRIER \<or> producer_reset_ordinal = 0xFFFFFFFF
          then (TRANSPORT_ARGUMENT, ring, producer_reset_ordinal)
          else
            let ordinal = producer_reset_ordinal + 1;
                published = e\<lparr>av_payload := ordinal\<rparr>;
                (status, ring) = event_ring_enqueue (Some published) ring
            in (status, ring, if status = TRANSPORT_OK then ordinal else producer_reset_ordinal))"

definition event_ring_dequeue :: "event_ring \<Rightarrow> transport_status \<times> audio_event option \<times> event_ring" where
  "event_ring_dequeue ring =
     (let (status, slot) = event_ring_peek ring in
      if status \<noteq> TRANSPORT_OK then (status, None, ring)
      else let (status, ring) = event_ring_consume ring in (status, slot, ring))"

subsection \<open>Byte ring\<close>

definition byte_ring_init :: "byte_ring \<Rightarrow> byte_ring" where
  "byte_ring_init ring =
     ring\<lparr>br_bytes := replicate (unat NP2_AUDIO86_ASYNC_BYTE_CAPACITY) 0, br_head := 0, br_tail := 0\<rparr>"

definition byte_ring_occupancy :: "byte_ring \<Rightarrow> u32" where
  "byte_ring_occupancy ring = br_head ring - br_tail ring"

text \<open>\<open>target\<close> is the caller's buffer, which must have room for \<open>count\<close> bytes.\<close>

definition byte_ring_copy :: "byte_ring \<Rightarrow> bytes option \<Rightarrow> nat \<Rightarrow> transport_status \<times> bytes option" where
  "byte_ring_copy ring target count =
     (if (count \<noteq> 0 \<and> target = None) \<or> count > unat NP2_AUDIO86_ASYNC_BYTE_CAPACITY then (TRANSPORT_ARGUMENT, target)
      else
        let tail = br_tail ring; head = br_head ring in
        if head - tail > NP2_AUDIO86_ASYNC_BYTE_CAPACITY then (TRANSPORT_INVARIANT, target)
        else if count > unat (head - tail) then (TRANSPORT_EMPTY, target)
        else
          let slot = ring_slot NP2_AUDIO86_ASYNC_BYTE_CAPACITY tail;
              first = unat NP2_AUDIO86_ASYNC_BYTE_CAPACITY - slot;
              first = if first > count then count else first;
              target = (if first \<noteq> 0 then map_option (\<lambda>t. overwrite t 0 (take first (drop slot (br_bytes ring)))) target else target);
              target = (if count > first then map_option (\<lambda>t. overwrite t first (take (count - first) (br_bytes ring))) target else target)
          in (TRANSPORT_OK, target))"

definition byte_ring_consume :: "byte_ring \<Rightarrow> nat \<Rightarrow> transport_status \<times> byte_ring" where
  "byte_ring_consume ring count =
     (if count > unat NP2_AUDIO86_ASYNC_BYTE_CAPACITY then (TRANSPORT_ARGUMENT, ring)
      else
        let tail = br_tail ring; head = br_head ring in
        if head - tail > NP2_AUDIO86_ASYNC_BYTE_CAPACITY then (TRANSPORT_INVARIANT, ring)
        else if count > unat (head - tail) then (TRANSPORT_EMPTY, ring)
        else (TRANSPORT_OK, ring\<lparr>br_tail := tail + word_of_nat count\<rparr>))"

definition byte_ring_push :: "bytes option \<Rightarrow> nat \<Rightarrow> byte_ring \<Rightarrow> transport_status \<times> byte_ring" where
  "byte_ring_push source count ring =
     (if (count \<noteq> 0 \<and> source = None) \<or> count > unat NP2_AUDIO86_ASYNC_BYTE_CAPACITY then (TRANSPORT_ARGUMENT, ring)
      else
        let head = br_head ring; tail = br_tail ring in
        if head - tail > NP2_AUDIO86_ASYNC_BYTE_CAPACITY then (TRANSPORT_INVARIANT, ring)
        else if count > unat (NP2_AUDIO86_ASYNC_BYTE_CAPACITY - (head - tail)) then (TRANSPORT_FULL, ring)
        else
          let slot = ring_slot NP2_AUDIO86_ASYNC_BYTE_CAPACITY head;
              data = (case source of None \<Rightarrow> [] | Some bs \<Rightarrow> bs);
              first = unat NP2_AUDIO86_ASYNC_BYTE_CAPACITY - slot;
              first = if first > count then count else first;
              ring = (if first \<noteq> 0 then ring\<lparr>br_bytes := overwrite (br_bytes ring) slot (take first data)\<rparr> else ring);
              ring = (if count > first then ring\<lparr>br_bytes := overwrite (br_bytes ring) 0 (take (count - first) (drop first data))\<rparr>
                      else ring)
          in (TRANSPORT_OK, ring\<lparr>br_head := head + word_of_nat count\<rparr>))"

definition byte_ring_pop :: "byte_ring \<Rightarrow> bytes option \<Rightarrow> nat \<Rightarrow> transport_status \<times> bytes option \<times> byte_ring" where
  "byte_ring_pop ring target count =
     (let (status, target) = byte_ring_copy ring target count in
      if status \<noteq> TRANSPORT_OK then (status, target, ring)
      else let (status, ring) = byte_ring_consume ring count in (status, target, ring))"

subsection \<open>The lists that the rings represent\<close>

interpretation events: ring_geometry NP2_AUDIO86_ASYNC_EVENT_CAPACITY 7
  by unfold_locales (simp_all add: NP2_AUDIO86_ASYNC_EVENT_CAPACITY_def)

interpretation audio_bytes: ring_geometry NP2_AUDIO86_ASYNC_BYTE_CAPACITY 16
  by unfold_locales (simp_all add: NP2_AUDIO86_ASYNC_BYTE_CAPACITY_def)

definition event_ring_list :: "event_ring \<Rightarrow> audio_event list" where
  "event_ring_list ring = ring_content NP2_AUDIO86_ASYNC_EVENT_CAPACITY (er_slots ring) (er_head ring) (er_tail ring)"

definition byte_ring_list :: "byte_ring \<Rightarrow> bytes" where
  "byte_ring_list ring = ring_content NP2_AUDIO86_ASYNC_BYTE_CAPACITY (br_bytes ring) (br_head ring) (br_tail ring)"

definition event_ring_ok :: "event_ring \<Rightarrow> bool" where
  "event_ring_ok ring \<longleftrightarrow> length (er_slots ring) = 128 \<and> unat (er_head ring - er_tail ring) \<le> 128"

definition byte_ring_ok :: "byte_ring \<Rightarrow> bool" where
  "byte_ring_ok ring \<longleftrightarrow> length (br_bytes ring) = 65536 \<and> unat (br_head ring - br_tail ring) \<le> 65536"

lemma cap_128: "unat NP2_AUDIO86_ASYNC_EVENT_CAPACITY = 128"
  by (simp add: NP2_AUDIO86_ASYNC_EVENT_CAPACITY_def)

lemma cap_65536: "unat NP2_AUDIO86_ASYNC_BYTE_CAPACITY = 65536"
  by (simp add: NP2_AUDIO86_ASYNC_BYTE_CAPACITY_def)

lemma over_event_cap: "i > NP2_AUDIO86_ASYNC_EVENT_CAPACITY \<longleftrightarrow> unat i > 128"
  "i = NP2_AUDIO86_ASYNC_EVENT_CAPACITY \<longleftrightarrow> unat i = 128"
  by (simp_all add: word_less_nat_alt cap_128 word_unat_eq_iff)

lemma over_byte_cap: "i > NP2_AUDIO86_ASYNC_BYTE_CAPACITY \<longleftrightarrow> unat i > 65536"
  by (simp add: word_less_nat_alt cap_65536)

lemma event_ring_init_ok: "event_ring_ok (event_ring_init ring) \<and> event_ring_list (event_ring_init ring) = []"
  by (simp add: event_ring_ok_def event_ring_init_def event_ring_list_def cap_128)

lemma byte_ring_init_ok: "byte_ring_ok (byte_ring_init ring) \<and> byte_ring_list (byte_ring_init ring) = []"
  by (simp add: byte_ring_ok_def byte_ring_init_def byte_ring_list_def cap_65536)

text \<open>The calls in the shape of the interface: an event at a time, and bytes through a buffer of the caller.\<close>

definition event_put :: "audio_event list \<Rightarrow> event_ring \<Rightarrow> transport_status \<times> event_ring" where
  "event_put es ring = event_ring_enqueue (case es of [] \<Rightarrow> None | e # _ \<Rightarrow> Some e) ring"

definition event_get :: "nat \<Rightarrow> event_ring \<Rightarrow> transport_status \<times> audio_event list \<times> event_ring" where
  "event_get n ring = (let (status, slot, ring) = event_ring_dequeue ring
     in (status, (case slot of None \<Rightarrow> [] | Some e \<Rightarrow> [e]), ring))"

definition byte_put :: "bytes \<Rightarrow> byte_ring \<Rightarrow> transport_status \<times> byte_ring" where
  "byte_put bs ring = byte_ring_push (Some bs) (length bs) ring"

definition byte_get :: "nat \<Rightarrow> byte_ring \<Rightarrow> transport_status \<times> bytes \<times> byte_ring" where
  "byte_get n ring = (let (status, target, ring) = byte_ring_pop ring (Some (replicate n 0)) n
     in (status, (if status = TRANSPORT_OK then the target else []), ring))"

lemma event_put_refines:
  assumes "event_ring_ok ring" "length es = 1" "event_put es ring = (status, ring')"
  shows "event_ring_ok ring' \<and> list_put 128 es (event_ring_list ring) = (status, event_ring_list ring')"
proof -
  obtain e where e: "es = [e]" using assms(2) by (cases es) auto
  let ?n = "unat (er_head ring - er_tail ring)"
  have ok: "length (er_slots ring) = 128" "?n \<le> 128" using assms(1) by (simp_all add: event_ring_ok_def)
  show ?thesis
  proof (cases "?n = 128")
    case True
    then show ?thesis using assms ok e
      by (auto simp: event_put_def event_ring_enqueue_def over_event_cap list_put_def event_ring_list_def)
  next
    case False
    then have "?n < 128" using ok by simp
    with events.content_push_one(1) [of "er_head ring" "er_tail ring" "er_slots ring" e]
      events.content_push_one(2) [of "er_head ring" "er_tail ring" "er_slots ring"] ok
    show ?thesis using assms(3) e
      by (auto simp: event_put_def event_ring_enqueue_def over_event_cap list_put_def event_ring_list_def
          event_ring_ok_def cap_128 Let_def)
  qed
qed

lemma event_get_refines:
  assumes "event_ring_ok ring" "n = 1" "event_get n ring = (status, es, ring')"
  shows "event_ring_ok ring' \<and> list_get 128 n (event_ring_list ring) = (status, es, event_ring_list ring')"
proof (cases "er_head ring = er_tail ring")
  case True
  then have "event_get n ring = (TRANSPORT_EMPTY, [], ring)"
    by (simp add: event_get_def event_ring_dequeue_def event_ring_peek_def over_event_cap)
  then show ?thesis using assms True by (simp add: list_get_def event_ring_list_def)
next
  case False
  let ?e = "er_slots ring ! ring_slot NP2_AUDIO86_ASYNC_EVENT_CAPACITY (er_tail ring)"
    and ?ring = "ring\<lparr>er_tail := er_tail ring + 1\<rparr>"
  have n: "unat (er_head ring - er_tail ring) \<le> 128" using assms(1) by (simp add: event_ring_ok_def)
  then have "event_get n ring = (TRANSPORT_OK, [?e], ?ring)"
    using False
    by (simp add: event_get_def event_ring_dequeue_def event_ring_peek_def event_ring_consume_def over_event_cap Let_def)
  then have r: "status = TRANSPORT_OK" "es = [?e]" "ring' = ?ring" using assms(3) by simp_all
  have "event_ring_list ring = ?e # event_ring_list ?ring"
    using events.content_pop(1) [OF False, of "er_slots ring"] by (simp add: event_ring_list_def)
  moreover have "event_ring_ok ?ring"
    using events.content_pop(2) [OF False] assms(1) n by (simp add: event_ring_ok_def)
  ultimately show ?thesis using r assms(2) by (simp add: list_get_def)
qed

interpretation event_fifo: bounded_fifo event_ring_ok event_ring_list 128 event_put event_get "\<lambda>n. n = 1"
  by (rule bounded_fifo.intro) (erule (2) event_put_refines, erule (2) event_get_refines)

lemma unat_room:
  assumes "unat (head - tail :: u32) \<le> 65536"
  shows "unat (NP2_AUDIO86_ASYNC_BYTE_CAPACITY - (head - tail)) = 65536 - unat (head - tail)"
  using assms by (subst unat_sub_le) (simp_all add: word_le_nat_alt cap_65536)

lemma byte_put_refines:
  assumes "byte_ring_ok ring" "byte_put bs ring = (status, ring')"
  shows "byte_ring_ok ring' \<and> list_put 65536 bs (byte_ring_list ring) = (status, byte_ring_list ring')"
proof -
  let ?head = "br_head ring" and ?tail = "br_tail ring"
  let ?n = "unat (?head - ?tail)"
  have ok: "length (br_bytes ring) = 65536" "?n \<le> 65536" using assms(1) by (simp_all add: byte_ring_ok_def)
  show ?thesis
  proof (cases "?n + length bs \<le> 65536")
    case False
    then have "65536 - ?n < length bs" using ok(2) by linarith
    then have "byte_put bs ring = (if length bs > 65536 then (TRANSPORT_ARGUMENT, ring) else (TRANSPORT_FULL, ring))"
      using ok by (simp add: byte_put_def byte_ring_push_def cap_65536 over_byte_cap unat_room Let_def)
    then show ?thesis using assms False by (auto simp: list_put_def byte_ring_list_def)
  next
    case True
    let ?slot = "ring_slot NP2_AUDIO86_ASYNC_BYTE_CAPACITY ?head"
    define first where "first = min (65536 - ?slot) (length bs)"
    define slots where "slots = overwrite (overwrite (br_bytes ring) ?slot (take first bs)) 0 (drop first bs)"
    let ?ring = "ring\<lparr>br_bytes := slots, br_head := ?head + word_of_nat (length bs)\<rparr>"
    have "first = (if 65536 - ?slot > length bs then length bs else 65536 - ?slot)" by (simp add: first_def)
    then have "byte_put bs ring = (TRANSPORT_OK, ?ring)"
      using True ok by (simp add: byte_put_def byte_ring_push_def cap_65536 over_byte_cap unat_room slots_def Let_def)
    then have r: "status = TRANSPORT_OK" "ring' = ?ring" using assms(2) by simp_all
    have c: "?n + length bs \<le> unat NP2_AUDIO86_ASYNC_BYTE_CAPACITY"
      "length (br_bytes ring) = unat NP2_AUDIO86_ASYNC_BYTE_CAPACITY"
      "first = min (unat NP2_AUDIO86_ASYNC_BYTE_CAPACITY - ?slot) (length bs)"
      using True ok by (simp_all add: cap_65536 first_def)
    note push = audio_bytes.content_push_block [OF c slots_def]
    have "byte_ring_list ?ring = byte_ring_list ring @ bs" using push(1) by (simp add: byte_ring_list_def)
    moreover have "byte_ring_ok ?ring" using push(2,3) True by (simp add: byte_ring_ok_def cap_65536)
    moreover have "length (byte_ring_list ring) = ?n" by (simp add: byte_ring_list_def)
    ultimately show ?thesis using r True by (simp add: list_put_def)
  qed
qed

text \<open>A copy reads the oldest bytes and leaves the ring alone.\<close>

lemma byte_ring_copy_prefix:
  assumes "byte_ring_ok ring" "count \<le> length target"
  shows "byte_ring_copy ring (Some target) count =
    (if count > 65536 then (TRANSPORT_ARGUMENT, Some target)
     else if count > length (byte_ring_list ring) then (TRANSPORT_EMPTY, Some target)
     else (TRANSPORT_OK, Some (take count (byte_ring_list ring) @ drop count target)))"
proof -
  let ?head = "br_head ring" and ?tail = "br_tail ring"
  let ?n = "unat (?head - ?tail)"
  have ok: "length (br_bytes ring) = 65536" "?n \<le> 65536" using assms(1) by (simp_all add: byte_ring_ok_def)
  have len: "length (byte_ring_list ring) = ?n" by (simp add: byte_ring_list_def)
  show ?thesis
  proof (cases "count \<le> ?n")
    case False
    then show ?thesis using ok by (simp add: byte_ring_copy_def cap_65536 over_byte_cap len)
  next
    case True
    let ?slot = "ring_slot NP2_AUDIO86_ASYNC_BYTE_CAPACITY ?tail"
    define first where "first = min (65536 - ?slot) count"
    define a where "a = take first (drop ?slot (br_bytes ring))"
    define b where "b = take (count - first) (br_bytes ring)"
    have less: "?slot < 65536" using audio_bytes.slot_less [of ?tail] by (simp add: cap_65536)
    have ab: "length a = first" "length b = count - first" "first \<le> count"
      using ok True less by (auto simp: a_def b_def first_def)
    have f: "first = (if 65536 - ?slot > count then count else 65536 - ?slot)" by (simp add: first_def)
    have "a @ b = take count (byte_ring_list ring)"
      unfolding a_def b_def byte_ring_list_def using True ok
      by (intro audio_bytes.content_prefix) (simp_all add: cap_65536 first_def)
    moreover have "overwrite (overwrite target 0 a) first b = a @ b @ drop count target"
      using ab assms(2) overwrite_append [of 0 a target b] by (simp add: overwrite_def)
    moreover have "byte_ring_copy ring (Some target) count = (TRANSPORT_OK, Some (overwrite (overwrite target 0 a) first b))"
      using True ok ab by (simp add: byte_ring_copy_def cap_65536 over_byte_cap Let_def f [symmetric] a_def b_def)
    ultimately show ?thesis using True ok len by simp
  qed
qed

lemma byte_get_refines:
  assumes "byte_ring_ok ring" "byte_get n ring = (status, bs, ring')"
  shows "byte_ring_ok ring' \<and> list_get 65536 n (byte_ring_list ring) = (status, bs, byte_ring_list ring')"
proof -
  let ?head = "br_head ring" and ?tail = "br_tail ring"
  let ?m = "unat (?head - ?tail)"
  have ok: "length (br_bytes ring) = 65536" "?m \<le> 65536" using assms(1) by (simp_all add: byte_ring_ok_def)
  have len: "length (byte_ring_list ring) = ?m" by (simp add: byte_ring_list_def)
  have copy: "byte_ring_copy ring (Some (replicate n 0)) n =
    (if n > 65536 then (TRANSPORT_ARGUMENT, Some (replicate n 0))
     else if n > ?m then (TRANSPORT_EMPTY, Some (replicate n 0))
     else (TRANSPORT_OK, Some (take n (byte_ring_list ring))))"
    using byte_ring_copy_prefix [OF assms(1), of n "replicate n 0"] by (simp add: len)
  show ?thesis
  proof (cases "n \<le> ?m")
    case False
    then have "byte_get n ring = (if n > 65536 then (TRANSPORT_ARGUMENT, [], ring) else (TRANSPORT_EMPTY, [], ring))"
      using copy by (simp add: byte_get_def byte_ring_pop_def)
    then show ?thesis using assms False by (auto simp: list_get_def len split: if_splits)
  next
    case True
    let ?ring = "ring\<lparr>br_tail := ?tail + word_of_nat n\<rparr>"
    have "byte_get n ring = (TRANSPORT_OK, take n (byte_ring_list ring), ?ring)"
      using True ok copy by (simp add: byte_get_def byte_ring_pop_def byte_ring_consume_def cap_65536 over_byte_cap Let_def)
    then have r: "status = TRANSPORT_OK" "bs = take n (byte_ring_list ring)" "ring' = ?ring" using assms(2) by simp_all
    have "byte_ring_list ?ring = drop n (byte_ring_list ring)"
      using audio_bytes.content_drop(1) [OF True] by (simp add: byte_ring_list_def)
    moreover have "byte_ring_ok ?ring" using audio_bytes.content_drop(2) [OF True] ok by (simp add: byte_ring_ok_def)
    ultimately show ?thesis using r True ok len by (simp add: list_get_def)
  qed
qed

interpretation byte_fifo: bounded_fifo byte_ring_ok byte_ring_list 65536 byte_put byte_get "\<lambda>n. True"
  by (rule bounded_fifo.intro) (erule (1) byte_put_refines, erule (1) byte_get_refines)

text \<open>
  (C14) The byte ring is a bounded queue. Any sequence of pushes and pops on a freshly initialised ring, each with any
  number of bytes, is answered exactly as by a plain list with room for 65536 bytes: the same status codes
  (\<open>TRANSPORT_INVARIANT\<close> never among them), the same bytes, and the same content at the end. In particular the bytes
  popped, followed by the bytes still in the ring, are the bytes pushed with success, although blocks are copied in two
  parts at the end of the array and the 32-bit indices wrap around.
\<close>

theorem byte_ring_is_bounded_queue:
  assumes "fifo_calls byte_put byte_get calls (byte_ring_init ring) = (replies, ring')"
  shows "fifo_calls (list_put 65536) (list_get 65536) calls [] = (replies, byte_ring_list ring') \<and>
    items_in calls replies = items_out replies @ byte_ring_list ring' \<and>
    unat (byte_ring_occupancy ring') = length (byte_ring_list ring') \<and> length (byte_ring_list ring') \<le> 65536"
proof -
  have start: "byte_ring_ok (byte_ring_init ring)" "byte_ring_list (byte_ring_init ring) = []"
    using byte_ring_init_ok by simp_all
  have "byte_ring_ok ring' \<and> fifo_calls (list_put 65536) (list_get 65536) calls [] = (replies, byte_ring_list ring')"
    using byte_fifo.calls_refine [OF start(1) _ assms] start(2) by simp
  moreover have "items_in calls replies = items_out replies @ byte_ring_list ring'"
    using byte_fifo.calls_in_order [OF start(1) _ assms] start(2) by simp
  ultimately show ?thesis by (simp add: byte_ring_ok_def byte_ring_occupancy_def byte_ring_list_def)
qed

lemma byte_ring_is_bounded_queue_witness:
  "\<exists>replies ring'. fifo_calls byte_put byte_get [Put [1, 2, 3], Get 2, Get 2]
       (byte_ring_init \<lparr>br_bytes = [], br_head = 9, br_tail = 4\<rparr>) = (replies, ring') \<and>
     replies = [(TRANSPORT_OK, []), (TRANSPORT_OK, [1, 2]), (TRANSPORT_EMPTY, [])] \<and> byte_ring_list ring' = [3]"
proof -
  let ?calls = "[Put [1, 2, 3 :: u8], Get 2, Get 2]" and ?ring = "\<lparr>br_bytes = [], br_head = 9, br_tail = 4\<rparr>"
  obtain replies ring' where run: "fifo_calls byte_put byte_get ?calls (byte_ring_init ?ring) = (replies, ring')"
    by (metis surj_pair)
  have "fifo_calls (list_put 65536) (list_get 65536) ?calls [] = (replies, byte_ring_list ring')"
    using byte_ring_is_bounded_queue [OF run] by blast
  then have "replies = [(TRANSPORT_OK, []), (TRANSPORT_OK, [1, 2]), (TRANSPORT_EMPTY, [])]" "byte_ring_list ring' = [3]"
    by (simp_all add: list_put_def list_get_def)
  then show ?thesis using run by blast
qed

subsection \<open>Reset barriers\<close>

datatype event_call = Enqueue audio_event | Enqueue_Reset audio_event | Dequeue

text \<open>The producer and the consumer of the event ring: the events accepted and the events taken are recorded.\<close>

record event_world =
  ew_ring :: event_ring
  ew_reset_ordinal :: u32
  ew_accepted :: "audio_event list"
  ew_taken :: "audio_event list"

fun event_step :: "event_call \<Rightarrow> event_world \<Rightarrow> event_world" where
  "event_step (Enqueue e) w =
     (let (status, ring) = event_ring_enqueue (Some e) (ew_ring w)
      in w\<lparr>ew_ring := ring, ew_accepted := ew_accepted w @ (if status = TRANSPORT_OK then [e] else [])\<rparr>)"
| "event_step (Enqueue_Reset e) w =
     (let (status, ring, ordinal) = reset_event_ring_enqueue (Some e) (ew_ring w) (ew_reset_ordinal w)
      in w\<lparr>ew_ring := ring, ew_reset_ordinal := ordinal,
           ew_accepted := ew_accepted w @ (if status = TRANSPORT_OK then [e\<lparr>av_payload := ordinal\<rparr>] else [])\<rparr>)"
| "event_step Dequeue w =
     (let (status, slot, ring) = event_ring_dequeue (ew_ring w)
      in w\<lparr>ew_ring := ring, ew_taken := ew_taken w @ (case slot of None \<Rightarrow> [] | Some e \<Rightarrow> [e])\<rparr>)"

definition event_start :: "event_ring \<Rightarrow> event_world" where
  "event_start ring = \<lparr>ew_ring = event_ring_init ring, ew_reset_ordinal = 0, ew_accepted = [], ew_taken = []\<rparr>"

definition barrier_ordinals :: "audio_event list \<Rightarrow> nat list" where
  "barrier_ordinals es = [unat (av_payload e). e \<leftarrow> es, av_opcode e = NP2_AUDIO86_EVENT_RESET_BARRIER]"

lemma barrier_ordinals_Nil [simp]: "barrier_ordinals [] = []"
  by (simp add: barrier_ordinals_def)

lemma barrier_ordinals_append [simp]: "barrier_ordinals (es @ fs) = barrier_ordinals es @ barrier_ordinals fs"
  by (simp add: barrier_ordinals_def)

definition event_world_ok :: "event_world \<Rightarrow> bool" where
  "event_world_ok w \<longleftrightarrow> event_ring_ok (ew_ring w) \<and> ew_accepted w = ew_taken w @ event_ring_list (ew_ring w) \<and>
     barrier_ordinals (ew_accepted w) = [1..<Suc (unat (ew_reset_ordinal w))]"

lemma enqueue_appends:
  assumes "event_ring_ok ring" "event_ring_enqueue (Some e) ring = (status, ring')"
  shows "event_ring_ok ring' \<and> event_ring_list ring' = event_ring_list ring @ (if status = TRANSPORT_OK then [e] else [])"
proof -
  have "event_put [e] ring = (status, ring')" using assms(2) by (simp add: event_put_def)
  from event_put_refines [OF assms(1) _ this] show ?thesis by (auto simp: list_put_def split: if_splits)
qed

lemma dequeue_removes:
  assumes "event_ring_ok ring" "event_ring_dequeue ring = (status, slot, ring')"
  shows "event_ring_ok ring' \<and> event_ring_list ring = (case slot of None \<Rightarrow> [] | Some e \<Rightarrow> [e]) @ event_ring_list ring'"
proof -
  let ?es = "case slot of None \<Rightarrow> [] | Some e \<Rightarrow> [e]"
  have "event_get 1 ring = (status, ?es, ring')" using assms(2) by (simp add: event_get_def)
  from event_get_refines [OF assms(1) refl this] show ?thesis
    by (auto simp: list_get_def split: if_splits) (metis append_take_drop_id)
qed

text \<open>A plain \<open>Enqueue\<close> carries no reset barrier; the live service chooses the function by the opcode.\<close>

definition plain_call :: "event_call \<Rightarrow> bool" where
  "plain_call call = (case call of Enqueue e \<Rightarrow> av_opcode e \<noteq> NP2_AUDIO86_EVENT_RESET_BARRIER | _ \<Rightarrow> True)"

lemma event_step_ok:
  assumes "event_world_ok w" "plain_call call"
  shows "event_world_ok (event_step call w)"
proof (cases call)
  case (Enqueue e)
  obtain status ring where r: "event_ring_enqueue (Some e) (ew_ring w) = (status, ring)" by (metis surj_pair)
  have "barrier_ordinals [e] = []" using assms(2) Enqueue by (simp add: plain_call_def barrier_ordinals_def)
  then show ?thesis using enqueue_appends [OF _ r] assms Enqueue r by (auto simp: event_world_ok_def)
next
  case (Enqueue_Reset e)
  show ?thesis
  proof (cases "av_opcode e \<noteq> NP2_AUDIO86_EVENT_RESET_BARRIER \<or> ew_reset_ordinal w = 0xFFFFFFFF")
    case True
    then show ?thesis using assms Enqueue_Reset by (simp add: reset_event_ring_enqueue_def)
  next
    case False
    let ?o = "ew_reset_ordinal w + 1" and ?p = "e\<lparr>av_payload := ew_reset_ordinal w + 1\<rparr>"
    obtain status ring where r: "event_ring_enqueue (Some ?p) (ew_ring w) = (status, ring)" by (metis surj_pair)
    have "(- 1 :: u32) = 0xFFFFFFFF" by simp
    then have "ew_reset_ordinal w \<noteq> - 1" using False by metis
    then have "unat ?o = Suc (unat (ew_reset_ordinal w))"
      by (metis add.commute add_eq_0_iff2 unatSuc)
    moreover have "barrier_ordinals [?p] = [unat ?o]" using False by (simp add: barrier_ordinals_def)
    moreover have "event_step call w = w\<lparr>ew_ring := ring,
        ew_reset_ordinal := (if status = TRANSPORT_OK then ?o else ew_reset_ordinal w),
        ew_accepted := ew_accepted w @ (if status = TRANSPORT_OK then [?p] else [])\<rparr>"
      using False Enqueue_Reset r by (simp add: reset_event_ring_enqueue_def Let_def)
    ultimately show ?thesis using enqueue_appends [OF _ r] assms(1)
      by (auto simp: event_world_ok_def)
  qed
next
  case Dequeue
  obtain status slot ring where r: "event_ring_dequeue (ew_ring w) = (status, slot, ring)" by (metis surj_pair)
  show ?thesis using dequeue_removes [OF _ r] assms Dequeue r by (auto simp: event_world_ok_def)
qed

text \<open>
  (C37) Reset barriers arrive in order, without gaps. Whatever the producer enqueues and the consumer dequeues, on a
  freshly initialised ring and as long as plain events carry no barrier opcode, the events taken followed by the events in
  the ring are the events accepted, in order; and the ordinals of the barriers among them are 1, 2, 3, ... up to the producer's
  reset ordinal, so a barrier that the full ring refused uses up no ordinal.
\<close>

theorem reset_barriers_in_order:
  assumes "\<forall>call\<in>set calls. plain_call call" "w = fold event_step calls (event_start ring)"
  shows "ew_taken w @ event_ring_list (ew_ring w) = ew_accepted w \<and>
    barrier_ordinals (ew_taken w) @ barrier_ordinals (event_ring_list (ew_ring w)) = [1..<Suc (unat (ew_reset_ordinal w))] \<and>
    unat (event_ring_occupancy (ew_ring w)) \<le> 128"
proof -
  have "event_world_ok (event_start ring)"
    using event_ring_init_ok by (simp add: event_world_ok_def event_start_def barrier_ordinals_def)
  then have "event_world_ok (fold event_step calls (event_start ring))"
    using assms(1) by (induction calls arbitrary: ring rule: rev_induct) (simp_all add: event_step_ok)
  then show ?thesis unfolding assms(2) [symmetric]
    by (auto simp: event_world_ok_def event_ring_ok_def event_ring_occupancy_def)
qed

definition barrier_demo :: "audio_event" where
  "barrier_demo = event_zero\<lparr>av_opcode := NP2_AUDIO86_EVENT_RESET_BARRIER\<rparr>"

lemma reset_barriers_in_order_witness:
  "\<exists>calls w. w = fold event_step calls (event_start \<lparr>er_slots = [], er_head = 9, er_tail = 4\<rparr>) \<and>
     (\<forall>call\<in>set calls. plain_call call) \<and> ew_reset_ordinal w = 2 \<and>
     barrier_ordinals (ew_taken w) @ barrier_ordinals (event_ring_list (ew_ring w)) = [1, 2]"
proof -
  let ?ring = "\<lparr>er_slots = [], er_head = 9, er_tail = 4\<rparr>"
  let ?calls = "[Enqueue_Reset barrier_demo, Enqueue event_zero, Dequeue, Enqueue_Reset barrier_demo]"
  let ?w = "fold event_step ?calls (event_start ?ring)"
  have plain: "\<forall>call\<in>set ?calls. plain_call call"
    by (simp add: plain_call_def event_zero_def NP2_AUDIO86_EVENT_RESET_BARRIER_def)
  moreover have o: "ew_reset_ordinal ?w = 2"
    by (simp add: event_start_def event_ring_init_def reset_event_ring_enqueue_def event_ring_enqueue_def
        event_ring_dequeue_def event_ring_peek_def event_ring_consume_def barrier_demo_def
        NP2_AUDIO86_ASYNC_EVENT_CAPACITY_def Let_def)
  moreover have "barrier_ordinals (ew_taken ?w) @ barrier_ordinals (event_ring_list (ew_ring ?w)) = [1, 2]"
    using reset_barriers_in_order [OF plain refl, of ?ring] unfolding o by (simp add: upt_rec)
  ultimately show ?thesis by blast
qed

end
