(* ===== verification/Audio_Horizon.thy ===== *)
theory Audio_Horizon
  imports Prelude
begin

section \<open>Horizon mailbox and control flags (np2audio86_core/np2audio86_runtime_transport.c)\<close>

text \<open>
  The emulator's core tells the audio renderer up to which frame it may render. The 64-bit frame crosses between the cores
  through a mailbox of 32-bit words with a one-word state that says who owns the payload. The first part of the
  theory is the functions run alone. The second part cuts publish and observe at every access to shared
  memory, the plain loads and stores of the payload included, and interleaves the two tasks arbitrarily. The structures
  are embedded in their owners, so their pointers are never null.
\<close>

definition HORIZON_EMPTY :: u32 where "HORIZON_EMPTY = 0"
definition HORIZON_FULL :: u32 where "HORIZON_FULL = 1"
definition HORIZON_FLAG_NONE :: u32 where "HORIZON_FLAG_NONE = 0"
definition HORIZON_FLAG_TERMINAL :: u32 where "HORIZON_FLAG_TERMINAL = 1"

datatype horizon_status = HORIZON_OK | HORIZON_ARGUMENT | HORIZON_NONMONOTONIC | HORIZON_RETRY | HORIZON_BOUNDS
  | HORIZON_TERMINATED | HORIZON_RESET_REQUIRED

record horizon_mailbox =
  hm_state :: u32
  hm_frame_lo :: u32
  hm_frame_hi :: u32
  hm_flags :: u32
  hm_terminal_reset_ordinal :: u32

record runtime_control =
  rc_first_error :: u32
  rc_stop :: u32
  rc_producer_done :: u32
  rc_reset_ack_ordinal :: u32
  rc_horizon :: horizon_mailbox

record producer_clock =
  pc_committed_frame_owner :: u64
  pc_terminal_published_owner :: u32

record consumer_clock =
  cc_committed_frame_reconstructed :: u64

record horizon_observation =
  ho_frame :: u64
  ho_flags :: u32
  ho_terminal_reset_ordinal :: u32

definition runtime_control_init :: runtime_control where
  "runtime_control_init = \<lparr>rc_first_error = 0, rc_stop = 0, rc_producer_done = 0, rc_reset_ack_ordinal = 0,
     rc_horizon = \<lparr>hm_state = HORIZON_EMPTY, hm_frame_lo = 0, hm_frame_hi = 0, hm_flags = HORIZON_FLAG_NONE,
       hm_terminal_reset_ordinal = 0\<rparr>\<rparr>"

definition first_error_publish :: "u32 \<Rightarrow> runtime_control \<Rightarrow> bool \<times> runtime_control" where
  "first_error_publish error control =
     (if error = 0 then (False, control)
      else if rc_first_error control = 0 then (True, control\<lparr>rc_first_error := error\<rparr>)
      else (False, control))"

definition runtime_first_error :: "runtime_control \<Rightarrow> u32" where
  "runtime_first_error control = rc_first_error control"

definition stop_publish :: "runtime_control \<Rightarrow> runtime_control" where
  "stop_publish control = control\<lparr>rc_stop := 1\<rparr>"

definition stop_requested :: "runtime_control \<Rightarrow> bool" where
  "stop_requested control \<longleftrightarrow> rc_stop control \<noteq> 0"

definition producer_done_publish :: "runtime_control \<Rightarrow> runtime_control" where
  "producer_done_publish control = control\<lparr>rc_producer_done := 1\<rparr>"

definition producer_done :: "runtime_control \<Rightarrow> bool" where
  "producer_done control \<longleftrightarrow> rc_producer_done control \<noteq> 0"

definition reset_ack_publish :: "u32 \<Rightarrow> runtime_control \<Rightarrow> runtime_control" where
  "reset_ack_publish ordinal control = control\<lparr>rc_reset_ack_ordinal := ordinal\<rparr>"

definition reset_ack :: "runtime_control \<Rightarrow> u32" where
  "reset_ack control = rc_reset_ack_ordinal control"

definition horizon_publish_with ::
  "runtime_control \<Rightarrow> producer_clock \<Rightarrow> u64 \<Rightarrow> u32 \<Rightarrow> u32 \<Rightarrow> horizon_status \<times> runtime_control \<times> producer_clock" where
  "horizon_publish_with control producer frame flags ordinal =
     (if pc_terminal_published_owner producer \<noteq> 0 then (HORIZON_TERMINATED, control, producer)
      else if frame < pc_committed_frame_owner producer then (HORIZON_NONMONOTONIC, control, producer)
      else if hm_state (rc_horizon control) \<noteq> HORIZON_EMPTY then (HORIZON_RETRY, control, producer)
      else
        let box = (rc_horizon control)\<lparr>hm_frame_lo := ucast frame, hm_frame_hi := ucast (drop_bit 32 frame),
              hm_flags := flags, hm_terminal_reset_ordinal := ordinal\<rparr>;
            producer = producer\<lparr>pc_committed_frame_owner := frame\<rparr>;
            producer = (if flags = HORIZON_FLAG_TERMINAL then producer\<lparr>pc_terminal_published_owner := 1\<rparr> else producer)
        in (HORIZON_OK, control\<lparr>rc_horizon := box\<lparr>hm_state := HORIZON_FULL\<rparr>\<rparr>, producer))"

definition horizon_publish ::
  "runtime_control \<Rightarrow> producer_clock \<Rightarrow> u64 \<Rightarrow> horizon_status \<times> runtime_control \<times> producer_clock" where
  "horizon_publish control producer frame = horizon_publish_with control producer frame HORIZON_FLAG_NONE 0"

definition terminal_horizon_publish ::
  "runtime_control \<Rightarrow> producer_clock \<Rightarrow> u64 \<Rightarrow> u64 \<Rightarrow> u32 \<Rightarrow> horizon_status \<times> runtime_control \<times> producer_clock" where
  "terminal_horizon_publish control producer frame workload_bound reset_ordinal =
     (if reset_ordinal = 0 then (HORIZON_RESET_REQUIRED, control, producer)
      else if frame > workload_bound then (HORIZON_BOUNDS, control, producer)
      else horizon_publish_with control producer frame HORIZON_FLAG_TERMINAL reset_ordinal)"

definition semantic_event_permitted :: "producer_clock \<Rightarrow> bool" where
  "semantic_event_permitted producer \<longleftrightarrow> pc_terminal_published_owner producer = 0"

definition joined :: "u32 \<Rightarrow> u32 \<Rightarrow> u64" where
  "joined high low = push_bit 32 (ucast high) OR ucast low"

definition horizon_try_observe_detail ::
  "runtime_control \<Rightarrow> consumer_clock \<Rightarrow> horizon_status \<times> horizon_observation option \<times> runtime_control \<times> consumer_clock" where
  "horizon_try_observe_detail control consumer =
     (let box = rc_horizon control in
      if hm_state box \<noteq> HORIZON_FULL then (HORIZON_RETRY, None, control, consumer)
      else
        let low = hm_frame_lo box; high = hm_frame_hi box; flags = hm_flags box;
            reset_ordinal = hm_terminal_reset_ordinal box;
            frame = joined high low
        in if frame < cc_committed_frame_reconstructed consumer then (HORIZON_NONMONOTONIC, None, control, consumer)
           else (HORIZON_OK,
                 Some \<lparr>ho_frame = frame, ho_flags = flags, ho_terminal_reset_ordinal = reset_ordinal\<rparr>,
                 control\<lparr>rc_horizon := box\<lparr>hm_state := HORIZON_EMPTY\<rparr>\<rparr>,
                 consumer\<lparr>cc_committed_frame_reconstructed := frame\<rparr>))"

definition horizon_try_observe :: "runtime_control \<Rightarrow> consumer_clock \<Rightarrow> horizon_status \<times> runtime_control \<times> consumer_clock" where
  "horizon_try_observe control consumer =
     (let (status, observation, control, consumer) = horizon_try_observe_detail control consumer in (status, control, consumer))"

text \<open>The busy wait; run alone on an empty mailbox it does not return, which is the value \<open>None\<close>.\<close>

partial_function (option) horizon_observe ::
  "runtime_control \<Rightarrow> consumer_clock \<Rightarrow> (horizon_status \<times> runtime_control \<times> consumer_clock) option" where
  "horizon_observe control consumer =
     (let (status, control, consumer) = horizon_try_observe control consumer in
      if status = HORIZON_RETRY then horizon_observe control consumer else Some (status, control, consumer))"

definition horizon_pending :: "runtime_control \<Rightarrow> bool" where
  "horizon_pending control \<longleftrightarrow> hm_state (rc_horizon control) = HORIZON_FULL"

lemma observe_returns_when_full:
  assumes "horizon_pending control"
  shows "\<exists>status control' consumer'. horizon_observe control consumer = Some (status, control', consumer') \<and>
    status \<in> {HORIZON_OK, HORIZON_NONMONOTONIC}"
  using assms
  by (subst horizon_observe.simps)
    (auto simp: horizon_try_observe_def horizon_try_observe_detail_def horizon_pending_def Let_def)

text \<open>The first error wins and stays.\<close>

lemma first_error_sticky:
  assumes "rc_first_error control \<noteq> 0"
  shows "runtime_first_error (fold (\<lambda>error c. snd (first_error_publish error c)) errors control) = rc_first_error control"
  using assms by (induction errors) (simp_all add: first_error_publish_def runtime_first_error_def)

lemma joined_split: "joined (ucast (drop_bit 32 frame)) (ucast frame) = frame"
  by (rule bit_word_eqI) (auto simp: joined_def bit_or_iff bit_push_bit_iff bit_ucast_iff bit_drop_bit_eq)

subsection \<open>The two tasks\<close>

text \<open>
  A producer inside \<^verbatim>\<open>horizon_publish\<close> has passed its checks and stores the fields one by one;
  a consumer inside \<^verbatim>\<open>horizon_try_observe_detail\<close> has seen \<^verbatim>\<open>FULL\<close> and loads them one by one. The clocks belong to one task
  each. \<open>hw_published\<close> and \<open>hw_observed\<close> record the calls that returned \<^verbatim>\<open>HORIZON_OK\<close>.
\<close>

datatype publishing = HP_idle | HP_lo horizon_observation | HP_hi horizon_observation | HP_flags horizon_observation
  | HP_ordinal horizon_observation | HP_full horizon_observation

datatype observing = HC_idle | HC_lo | HC_hi u32 | HC_flags u32 u32 | HC_ordinal u32 u32 u32 | HC_check u32 u32 u32 u32
  | HC_empty horizon_observation

record horizon_world =
  hw_box :: horizon_mailbox
  hw_producer :: producer_clock
  hw_consumer :: consumer_clock
  hw_publishing :: publishing
  hw_observing :: observing
  hw_published :: "horizon_observation list"
  hw_observed :: "horizon_observation list"
  hw_nonmonotonic :: bool

definition publish_step :: "horizon_observation option \<Rightarrow> horizon_world \<Rightarrow> horizon_world" where
  "publish_step offer w =
     (let box = hw_box w; producer = hw_producer w in
      case hw_publishing w of
        HP_idle \<Rightarrow>
          (case offer of
             None \<Rightarrow> w
           | Some ob \<Rightarrow>
               if pc_terminal_published_owner producer \<noteq> 0 then w
               else if ho_frame ob < pc_committed_frame_owner producer then w
               else if hm_state box \<noteq> HORIZON_EMPTY then w
               else w\<lparr>hw_publishing := HP_lo ob\<rparr>)
      | HP_lo ob \<Rightarrow> w\<lparr>hw_box := box\<lparr>hm_frame_lo := ucast (ho_frame ob)\<rparr>, hw_publishing := HP_hi ob\<rparr>
      | HP_hi ob \<Rightarrow> w\<lparr>hw_box := box\<lparr>hm_frame_hi := ucast (drop_bit 32 (ho_frame ob))\<rparr>, hw_publishing := HP_flags ob\<rparr>
      | HP_flags ob \<Rightarrow> w\<lparr>hw_box := box\<lparr>hm_flags := ho_flags ob\<rparr>, hw_publishing := HP_ordinal ob\<rparr>
      | HP_ordinal ob \<Rightarrow>
          let producer = producer\<lparr>pc_committed_frame_owner := ho_frame ob\<rparr>;
              producer = (if ho_flags ob = HORIZON_FLAG_TERMINAL then producer\<lparr>pc_terminal_published_owner := 1\<rparr> else producer)
          in w\<lparr>hw_box := box\<lparr>hm_terminal_reset_ordinal := ho_terminal_reset_ordinal ob\<rparr>, hw_producer := producer,
               hw_publishing := HP_full ob\<rparr>
      | HP_full ob \<Rightarrow>
          w\<lparr>hw_box := box\<lparr>hm_state := HORIZON_FULL\<rparr>, hw_publishing := HP_idle, hw_published := hw_published w @ [ob]\<rparr>)"

definition observe_step :: "horizon_world \<Rightarrow> horizon_world" where
  "observe_step w =
     (let box = hw_box w; consumer = hw_consumer w in
      case hw_observing w of
        HC_idle \<Rightarrow> if hm_state box \<noteq> HORIZON_FULL then w else w\<lparr>hw_observing := HC_lo\<rparr>
      | HC_lo \<Rightarrow> w\<lparr>hw_observing := HC_hi (hm_frame_lo box)\<rparr>
      | HC_hi low \<Rightarrow> w\<lparr>hw_observing := HC_flags low (hm_frame_hi box)\<rparr>
      | HC_flags low high \<Rightarrow> w\<lparr>hw_observing := HC_ordinal low high (hm_flags box)\<rparr>
      | HC_ordinal low high flags \<Rightarrow> w\<lparr>hw_observing := HC_check low high flags (hm_terminal_reset_ordinal box)\<rparr>
      | HC_check low high flags reset_ordinal \<Rightarrow>
          let frame = joined high low in
          if frame < cc_committed_frame_reconstructed consumer then w\<lparr>hw_observing := HC_idle, hw_nonmonotonic := True\<rparr>
          else w\<lparr>hw_consumer := consumer\<lparr>cc_committed_frame_reconstructed := frame\<rparr>,
                 hw_observing := HC_empty \<lparr>ho_frame = frame, ho_flags = flags, ho_terminal_reset_ordinal = reset_ordinal\<rparr>\<rparr>
      | HC_empty ob \<Rightarrow>
          w\<lparr>hw_box := box\<lparr>hm_state := HORIZON_EMPTY\<rparr>, hw_observing := HC_idle, hw_observed := hw_observed w @ [ob]\<rparr>)"

text \<open>The producer calls one of the two publishing functions; the remaining checks of the terminal one are local.\<close>

datatype offer = Offer u64 | Offer_Terminal u64 u64 u32

fun offered :: "offer \<Rightarrow> horizon_observation option" where
  "offered (Offer frame) = Some \<lparr>ho_frame = frame, ho_flags = HORIZON_FLAG_NONE, ho_terminal_reset_ordinal = 0\<rparr>"
| "offered (Offer_Terminal frame workload_bound reset_ordinal) =
     (if reset_ordinal = 0 then None
      else if frame > workload_bound then None
      else Some \<lparr>ho_frame = frame, ho_flags = HORIZON_FLAG_TERMINAL, ho_terminal_reset_ordinal = reset_ordinal\<rparr>)"

text \<open>A schedule names the task that moves; an offer is read only when the producer is idle.\<close>

fun horizon_step :: "offer option \<Rightarrow> horizon_world \<Rightarrow> horizon_world" where
  "horizon_step (Some offer) w = publish_step (offered offer) w"
| "horizon_step None w = observe_step w"

definition horizon_start :: horizon_world where
  "horizon_start = \<lparr>hw_box = rc_horizon runtime_control_init,
     hw_producer = \<lparr>pc_committed_frame_owner = 0, pc_terminal_published_owner = 0\<rparr>,
     hw_consumer = \<lparr>cc_committed_frame_reconstructed = 0\<rparr>,
     hw_publishing = HP_idle, hw_observing = HC_idle, hw_published = [], hw_observed = [], hw_nonmonotonic = False\<rparr>"

definition horizon_run :: "offer option list \<Rightarrow> horizon_world" where
  "horizon_run schedule = fold horizon_step schedule horizon_start"

text \<open>A task that is not interrupted executes the function that it models.\<close>

lemma publish_starts:
  "hw_publishing w = HP_idle \<Longrightarrow> pc_terminal_published_owner (hw_producer w) = 0 \<Longrightarrow>
   pc_committed_frame_owner (hw_producer w) \<le> ho_frame ob \<Longrightarrow> hm_state (hw_box w) = HORIZON_EMPTY \<Longrightarrow>
   publish_step (Some ob) w = w\<lparr>hw_publishing := HP_lo ob\<rparr>"
  by (simp add: publish_step_def not_less)

lemma publish_finishes:
  assumes "hw_publishing w = HP_lo ob"
  shows "(publish_step offer ^^ 5) w = w\<lparr>hw_box := hw_box w\<lparr>hm_frame_lo := ucast (ho_frame ob),
      hm_frame_hi := ucast (drop_bit 32 (ho_frame ob)), hm_flags := ho_flags ob,
      hm_terminal_reset_ordinal := ho_terminal_reset_ordinal ob, hm_state := HORIZON_FULL\<rparr>,
    hw_producer := (let producer = hw_producer w\<lparr>pc_committed_frame_owner := ho_frame ob\<rparr>
      in if ho_flags ob = HORIZON_FLAG_TERMINAL then producer\<lparr>pc_terminal_published_owner := 1\<rparr> else producer),
    hw_publishing := HP_idle, hw_published := hw_published w @ [ob]\<rparr>"
proof -
  have "(publish_step offer ^^ 3) w = w\<lparr>hw_box := hw_box w\<lparr>hm_frame_lo := ucast (ho_frame ob),
      hm_frame_hi := ucast (drop_bit 32 (ho_frame ob)), hm_flags := ho_flags ob\<rparr>, hw_publishing := HP_ordinal ob\<rparr>"
    using assms by (simp add: eval_nat_numeral publish_step_def Let_def)
  moreover have "(publish_step offer ^^ 5) w = publish_step offer (publish_step offer ((publish_step offer ^^ 3) w))"
    by (simp add: eval_nat_numeral)
  ultimately show ?thesis by (simp add: publish_step_def Let_def)
qed

lemma publish_runs_alone:
  assumes "hw_publishing w = HP_idle" "rc_horizon control = hw_box w"
    and "horizon_publish_with control (hw_producer w) (ho_frame ob) (ho_flags ob) (ho_terminal_reset_ordinal ob) =
      (HORIZON_OK, control', producer')"
  shows "(publish_step (Some ob) ^^ 6) w = w\<lparr>hw_box := rc_horizon control', hw_producer := producer',
        hw_published := hw_published w @ [ob]\<rparr>"
proof -
  have guards: "pc_terminal_published_owner (hw_producer w) = 0" "pc_committed_frame_owner (hw_producer w) \<le> ho_frame ob"
    "hm_state (hw_box w) = HORIZON_EMPTY"
    using assms(2,3) by (auto simp: horizon_publish_with_def split: if_splits)
  have "(publish_step (Some ob) ^^ 6) w = (publish_step (Some ob) ^^ 5) (publish_step (Some ob) w)"
    by (simp add: eval_nat_numeral funpow_swap1)
  then have run: "(publish_step (Some ob) ^^ 6) w = (publish_step (Some ob) ^^ 5) (w\<lparr>hw_publishing := HP_lo ob\<rparr>)"
    by (simp only: publish_starts [OF assms(1) guards])
  have "rc_horizon control' = hw_box w\<lparr>hm_frame_lo := ucast (ho_frame ob),
      hm_frame_hi := ucast (drop_bit 32 (ho_frame ob)), hm_flags := ho_flags ob,
      hm_terminal_reset_ordinal := ho_terminal_reset_ordinal ob, hm_state := HORIZON_FULL\<rparr>"
    "producer' = (let producer = hw_producer w\<lparr>pc_committed_frame_owner := ho_frame ob\<rparr>
      in if ho_flags ob = HORIZON_FLAG_TERMINAL then producer\<lparr>pc_terminal_published_owner := 1\<rparr> else producer)"
    using assms(2,3) guards by (auto simp: horizon_publish_with_def Let_def not_less split: if_splits)
  with assms(1) show ?thesis
    unfolding run publish_finishes [of "w\<lparr>hw_publishing := HP_lo ob\<rparr>" ob "Some ob", simplified]
    by (intro horizon_world.equality) simp_all
qed

lemma observe_reads:
  assumes "hw_observing w = HC_idle" "hm_state (hw_box w) = HORIZON_FULL"
  shows "(observe_step ^^ 5) w = w\<lparr>hw_observing := HC_check (hm_frame_lo (hw_box w)) (hm_frame_hi (hw_box w))
      (hm_flags (hw_box w)) (hm_terminal_reset_ordinal (hw_box w))\<rparr>"
  using assms by (simp add: eval_nat_numeral observe_step_def Let_def)

lemma observe_runs_alone:
  assumes "hw_observing w = HC_idle" "rc_horizon control = hw_box w"
    and "horizon_try_observe_detail control (hw_consumer w) = (HORIZON_OK, Some ob, control', consumer')"
  shows "(observe_step ^^ 7) w = w\<lparr>hw_box := rc_horizon control', hw_consumer := consumer',
      hw_observed := hw_observed w @ [ob]\<rparr>"
proof -
  have full: "hm_state (hw_box w) = HORIZON_FULL"
    using assms(2,3) by (auto simp: horizon_try_observe_detail_def Let_def split: if_splits)
  have "(observe_step ^^ 7) w = observe_step (observe_step ((observe_step ^^ 5) w))" by (simp add: eval_nat_numeral)
  then show ?thesis unfolding observe_reads [OF assms(1) full]
    using assms by (auto simp: horizon_try_observe_detail_def observe_step_def Let_def split: if_splits)
qed

subsection \<open>Invariant\<close>

definition payload :: "horizon_mailbox \<Rightarrow> horizon_observation" where
  "payload box = \<lparr>ho_frame = joined (hm_frame_hi box) (hm_frame_lo box), ho_flags = hm_flags box,
     ho_terminal_reset_ordinal = hm_terminal_reset_ordinal box\<rparr>"

definition last_frame :: "horizon_observation list \<Rightarrow> u64" where
  "last_frame obs = (if obs = [] then 0 else ho_frame (last obs))"

definition open_ended :: "horizon_observation list \<Rightarrow> bool" where
  "open_ended obs \<longleftrightarrow> (\<forall>ob\<in>set obs. ho_flags ob \<noteq> HORIZON_FLAG_TERMINAL)"

lemma last_frame_snoc [simp]: "last_frame (obs @ [ob]) = ho_frame ob"
  by (simp add: last_frame_def)

lemma open_ended_snoc [simp]: "open_ended (obs @ [ob]) \<longleftrightarrow> open_ended obs \<and> ho_flags ob \<noteq> HORIZON_FLAG_TERMINAL"
  by (auto simp: open_ended_def)

text \<open>The frames grow and only the last observation may be terminal.\<close>

definition horizon_history :: "horizon_observation list \<Rightarrow> bool" where
  "horizon_history obs \<longleftrightarrow> sorted (map ho_frame obs) \<and> open_ended (butlast obs)"

lemma sorted_snoc_last:
  "sorted (map ho_frame (obs @ [ob])) \<longleftrightarrow> sorted (map ho_frame obs) \<and> last_frame obs \<le> ho_frame ob"
proof (cases obs rule: rev_cases)
  case (snoc ys y)
  then show ?thesis by (auto simp: sorted_append last_frame_def)
qed (simp add: last_frame_def)

lemma history_snoc: "horizon_history (obs @ [ob]) \<longleftrightarrow> sorted (map ho_frame obs) \<and> last_frame obs \<le> ho_frame ob \<and> open_ended obs"
  unfolding horizon_history_def sorted_snoc_last by (simp add: butlast_append)

lemma open_ended_history: "sorted (map ho_frame obs) \<Longrightarrow> open_ended obs \<Longrightarrow> horizon_history obs"
  by (auto simp: horizon_history_def open_ended_def dest: in_set_butlastD)

text \<open>What is stored of an observation when the producer has reached each of its steps, and its clock.\<close>

definition stored_so_far :: "horizon_mailbox \<Rightarrow> publishing \<Rightarrow> bool" where
  "stored_so_far box p = (case p of
       HP_hi ob \<Rightarrow> hm_frame_lo box = ucast (ho_frame ob)
     | HP_flags ob \<Rightarrow> joined (hm_frame_hi box) (hm_frame_lo box) = ho_frame ob
     | HP_ordinal ob \<Rightarrow> joined (hm_frame_hi box) (hm_frame_lo box) = ho_frame ob \<and> hm_flags box = ho_flags ob
     | HP_full ob \<Rightarrow> payload box = ob
     | _ \<Rightarrow> True)"

definition in_hand :: "publishing \<Rightarrow> horizon_observation option" where
  "in_hand p = (case p of HP_idle \<Rightarrow> None | HP_lo ob \<Rightarrow> Some ob | HP_hi ob \<Rightarrow> Some ob | HP_flags ob \<Rightarrow> Some ob
     | HP_ordinal ob \<Rightarrow> Some ob | HP_full ob \<Rightarrow> Some ob)"

definition clock_ok :: "producer_clock \<Rightarrow> publishing \<Rightarrow> horizon_observation list \<Rightarrow> bool" where
  "clock_ok clock p obs = (case p of
       HP_full ob \<Rightarrow> pc_committed_frame_owner clock = ho_frame ob \<and>
         (pc_terminal_published_owner clock = 0 \<longleftrightarrow> ho_flags ob \<noteq> HORIZON_FLAG_TERMINAL)
     | HP_idle \<Rightarrow> pc_committed_frame_owner clock = last_frame obs \<and>
         (pc_terminal_published_owner clock = 0 \<longleftrightarrow> open_ended obs)
     | _ \<Rightarrow> pc_committed_frame_owner clock = last_frame obs \<and> pc_terminal_published_owner clock = 0)"

definition publisher_ok :: "horizon_world \<Rightarrow> bool" where
  "publisher_ok w \<longleftrightarrow> stored_so_far (hw_box w) (hw_publishing w) \<and>
     clock_ok (hw_producer w) (hw_publishing w) (hw_published w) \<and>
     (\<forall>ob. in_hand (hw_publishing w) = Some ob \<longrightarrow> hm_state (hw_box w) = HORIZON_EMPTY \<and>
        last_frame (hw_published w) \<le> ho_frame ob \<and> open_ended (hw_published w))"

definition loaded_so_far :: "horizon_mailbox \<Rightarrow> observing \<Rightarrow> bool" where
  "loaded_so_far box c = (case c of
       HC_hi low \<Rightarrow> low = hm_frame_lo box
     | HC_flags low high \<Rightarrow> low = hm_frame_lo box \<and> high = hm_frame_hi box
     | HC_ordinal low high flags \<Rightarrow> low = hm_frame_lo box \<and> high = hm_frame_hi box \<and> flags = hm_flags box
     | HC_check low high flags reset_ordinal \<Rightarrow> low = hm_frame_lo box \<and> high = hm_frame_hi box \<and>
         flags = hm_flags box \<and> reset_ordinal = hm_terminal_reset_ordinal box
     | HC_empty ob \<Rightarrow> ob = payload box
     | _ \<Rightarrow> True)"

definition observer_ok :: "horizon_world \<Rightarrow> bool" where
  "observer_ok w \<longleftrightarrow> loaded_so_far (hw_box w) (hw_observing w) \<and>
     cc_committed_frame_reconstructed (hw_consumer w) =
       (case hw_observing w of HC_empty ob \<Rightarrow> ho_frame ob | _ \<Rightarrow> last_frame (hw_observed w)) \<and>
     (hw_observing w \<noteq> HC_idle \<longrightarrow> hm_state (hw_box w) = HORIZON_FULL) \<and> \<not> hw_nonmonotonic w"

definition mail_ok :: "horizon_world \<Rightarrow> bool" where
  "mail_ok w \<longleftrightarrow> horizon_history (hw_published w) \<and>
     (hm_state (hw_box w) = HORIZON_EMPTY \<and> hw_published w = hw_observed w \<or>
      hm_state (hw_box w) = HORIZON_FULL \<and> hw_published w = hw_observed w @ [payload (hw_box w)])"

definition horizon_ok :: "horizon_world \<Rightarrow> bool" where
  "horizon_ok w \<longleftrightarrow> mail_ok w \<and> publisher_ok w \<and> observer_ok w"

lemma horizon_states [simp]: "HORIZON_EMPTY \<noteq> HORIZON_FULL" "HORIZON_FULL \<noteq> HORIZON_EMPTY"
  by (simp_all add: HORIZON_EMPTY_def HORIZON_FULL_def)

lemmas publish_defs = publish_step_def horizon_ok_def publisher_ok_def stored_so_far_def clock_ok_def in_hand_def

lemma publish_keeps:
  assumes "horizon_ok w"
  shows "horizon_ok (publish_step offer w)"
proof (cases "hw_publishing w")
  case HP_idle
  then show ?thesis using assms
    by (auto simp: publish_defs mail_ok_def observer_ok_def Let_def split: option.splits if_splits)
next
  case (HP_full ob)
  then have ok: "payload (hw_box w) = ob" "hm_state (hw_box w) = HORIZON_EMPTY" "open_ended (hw_published w)"
      "last_frame (hw_published w) \<le> ho_frame ob" "hw_published w = hw_observed w" "horizon_history (hw_published w)"
      "hw_observing w = HC_idle"
    using assms by (auto simp: publish_defs mail_ok_def observer_ok_def)
  have "payload (hw_box w\<lparr>hm_state := HORIZON_FULL\<rparr>) = ob" using ok(1) by (simp add: payload_def)
  moreover have "horizon_history (hw_published w @ [ob])"
    unfolding history_snoc using ok(3,4,6) by (simp add: horizon_history_def)
  ultimately show ?thesis using assms HP_full ok
    by (auto simp: publish_defs mail_ok_def observer_ok_def loaded_so_far_def)
qed (use assms in \<open>auto simp: publish_defs mail_ok_def observer_ok_def loaded_so_far_def joined_split payload_def Let_def\<close>)

lemma observe_keeps:
  assumes "horizon_ok w"
  shows "horizon_ok (observe_step w)"
proof (cases "hw_observing w")
  case (HC_check low high flags reset_ordinal)
  then have f: "hw_published w = hw_observed w @ [payload (hw_box w)]"
    "payload (hw_box w) = \<lparr>ho_frame = joined high low, ho_flags = flags, ho_terminal_reset_ordinal = reset_ordinal\<rparr>"
    using assms by (auto simp: horizon_ok_def observer_ok_def mail_ok_def loaded_so_far_def payload_def)
  then have "last_frame (hw_observed w) \<le> joined high low"
    using assms by (auto simp: horizon_ok_def mail_ok_def history_snoc)
  then have "\<not> joined high low < cc_committed_frame_reconstructed (hw_consumer w)"
    using assms HC_check by (auto simp: horizon_ok_def observer_ok_def)
  then show ?thesis using assms HC_check f
    by (auto simp: observe_step_def horizon_ok_def mail_ok_def publisher_ok_def observer_ok_def loaded_so_far_def Let_def)
next
  case (HC_empty ob)
  then have "hw_publishing w = HP_idle"
    using assms by (auto simp: horizon_ok_def publisher_ok_def observer_ok_def in_hand_def split: publishing.splits)
  then show ?thesis using assms HC_empty
    by (auto simp: observe_step_def horizon_ok_def mail_ok_def publisher_ok_def observer_ok_def loaded_so_far_def
        stored_so_far_def in_hand_def Let_def)
qed (use assms in \<open>auto simp: observe_step_def horizon_ok_def mail_ok_def publisher_ok_def observer_ok_def loaded_so_far_def
    Let_def\<close>)

lemma horizon_run_ok: "horizon_ok (horizon_run schedule)"
proof (induction schedule rule: rev_induct)
  case Nil
  show ?case
    by (simp add: horizon_run_def horizon_start_def runtime_control_init_def horizon_ok_def mail_ok_def publisher_ok_def
        observer_ok_def horizon_history_def stored_so_far_def clock_ok_def in_hand_def loaded_so_far_def last_frame_def open_ended_def)
next
  case (snoc s schedule)
  then show ?case by (cases s) (simp_all add: horizon_run_def publish_keeps observe_keeps)
qed

text \<open>
  (C12) The mailbox delivers every horizon intact and in order. Let the producer offer any horizons, let the consumer poll, and
  interleave their memory accesses in any way. At every point the observations delivered are the horizons published,
  except possibly the last one, which is then still in the mailbox: no frame is torn, lost or seen twice. The frames never
  decrease, so the consumer never reports \<open>HORIZON_NONMONOTONIC\<close>; only the last published horizon
  can be terminal; and a task that stores into the payload never overlaps one that loads from it.
\<close>

theorem horizon_delivered_intact:
  assumes "w = horizon_run schedule"
  shows "(hw_published w = hw_observed w \<or> hw_published w = hw_observed w @ [payload (hw_box w)]) \<and>
    sorted (map ho_frame (hw_published w)) \<and>
    (\<forall>ob\<in>set (butlast (hw_published w)). ho_flags ob \<noteq> HORIZON_FLAG_TERMINAL) \<and>
    \<not> hw_nonmonotonic w \<and>
    (hw_publishing w = HP_idle \<or> hw_observing w = HC_idle)"
proof -
  have ok: "horizon_ok w" using horizon_run_ok assms by simp
  then have "hw_publishing w = HP_idle \<or> hw_observing w = HC_idle"
    by (auto simp: horizon_ok_def publisher_ok_def observer_ok_def in_hand_def split: publishing.splits)
  then show ?thesis using ok
    by (auto simp: horizon_ok_def mail_ok_def observer_ok_def horizon_history_def open_ended_def)
qed

definition frame_demo :: horizon_world where
  "frame_demo = horizon_start\<lparr>hw_box := \<lparr>hm_state = HORIZON_FULL, hm_frame_lo = 2, hm_frame_hi = 1,
       hm_flags = HORIZON_FLAG_NONE, hm_terminal_reset_ordinal = 0\<rparr>,
     hw_producer := \<lparr>pc_committed_frame_owner = 0x100000002, pc_terminal_published_owner = 0\<rparr>,
     hw_published := [\<lparr>ho_frame = 0x100000002, ho_flags = HORIZON_FLAG_NONE, ho_terminal_reset_ordinal = 0\<rparr>]\<rparr>"

lemma horizon_run_append: "horizon_run (xs @ ys) = fold horizon_step ys (horizon_run xs)"
  by (simp add: horizon_run_def)

lemma frame_demo_reached: "horizon_run (replicate 6 (Some (Offer 0x100000002))) = frame_demo"
proof -
  let ?ob = "\<lparr>ho_frame = 0x100000002, ho_flags = HORIZON_FLAG_NONE, ho_terminal_reset_ordinal = 0\<rparr>"
  have "publish_step (Some ?ob) horizon_start = horizon_start\<lparr>hw_publishing := HP_lo ?ob\<rparr>"
    by (rule publish_starts) (simp_all add: horizon_start_def runtime_control_init_def)
  moreover have "horizon_run (replicate 6 (Some (Offer 0x100000002))) = (publish_step (Some ?ob) ^^ 5) (publish_step (Some ?ob) horizon_start)"
    by (simp add: horizon_run_def eval_nat_numeral funpow_swap1)
  moreover have "HORIZON_FLAG_NONE \<noteq> HORIZON_FLAG_TERMINAL" by (simp add: HORIZON_FLAG_NONE_def HORIZON_FLAG_TERMINAL_def)
  ultimately show ?thesis
    using publish_finishes [of "horizon_start\<lparr>hw_publishing := HP_lo ?ob\<rparr>" ?ob "Some ?ob"]
    by (simp add: frame_demo_def horizon_start_def runtime_control_init_def)
qed

lemma horizon_delivered_intact_witness:
  "\<exists>schedule w. w = horizon_run schedule \<and> map ho_frame (hw_published w) = [0x100000002] \<and>
     hw_observed w = [] \<and> hw_observing w = HC_hi 2 \<and> hw_publishing w = HP_idle"
proof -
  let ?schedule = "replicate 6 (Some (Offer 0x100000002)) @ [None, None]"
  let ?w = "horizon_run ?schedule"
  have "?w = observe_step (observe_step frame_demo)" by (simp only: horizon_run_append frame_demo_reached fold_simps horizon_step.simps)
  then have run: "map ho_frame (hw_published ?w) = [0x100000002]" "hw_observed ?w = []" "hw_observing ?w = HC_hi 2"
    by (simp_all add: frame_demo_def horizon_start_def observe_step_def)
  moreover have "hw_publishing ?w = HP_idle" using horizon_delivered_intact [OF refl, of ?schedule] run(3) by auto
  ultimately show ?thesis by (intro exI [of _ ?schedule] exI [of _ ?w] conjI refl)
qed

end
