(* ===== verification/Pcm_Ring.thy ===== *)
theory Pcm_Ring
  imports Ring
begin

section \<open>Ring of rendered sample blocks (np2opngen_fixture/np2opngen_pcm_ring.c)\<close>

text \<open>
  The renderer appends stereo frames of four bytes in pieces of any length; the ring cuts them into slots of 240 frames,
  numbered and stamped with the frame at which they start, and publishes a slot when it is full. The last slot may be
  partial. The structure is embedded in its owner, so a ring pointer is never null; a sample pointer is
  \<open>None\<close> when null. The body of the append loop is a definition of its own: it loads the consumer's index once, and the
  consumer may move between two rounds.
\<close>

definition NP2_OPNGEN_PCM_RING_CAPACITY :: u32 where "NP2_OPNGEN_PCM_RING_CAPACITY = 8"
definition PCM_RING_QUANTUM_FRAMES :: nat where "PCM_RING_QUANTUM_FRAMES = 240"
definition PCM_RING_BYTES_PER_FRAME :: nat where "PCM_RING_BYTES_PER_FRAME = 4"
definition PCM_RING_SLOT_BYTES :: nat where
  "PCM_RING_SLOT_BYTES = PCM_RING_QUANTUM_FRAMES * PCM_RING_BYTES_PER_FRAME"
definition PCM_RING_FLAG_FINAL_PARTIAL :: u16 where "PCM_RING_FLAG_FINAL_PARTIAL = 1"

text \<open>\<^verbatim>\<open>SIZE_MAX\<close> of the 32-bit target.\<close>

definition SIZE_MAX :: nat where "SIZE_MAX = 0xFFFFFFFF"

datatype pcm_ring_status = PCM_RING_OK | PCM_RING_EMPTY | PCM_RING_FULL | PCM_RING_ARGUMENT | PCM_RING_OFFSET
  | PCM_RING_FINALIZED | PCM_RING_INVARIANT

record pcm_ring_slot =
  ps_frame_offset :: u64
  ps_sequence :: u32
  ps_valid_frames :: u16
  ps_flags :: u16
  ps_pcm :: bytes

record pcm_ring =
  pr_slots :: "pcm_ring_slot list"
  pr_head :: u32
  pr_tail :: u32
  pr_next_frame_offset :: u64
  pr_next_sequence :: u32
  pr_partial_valid_frames :: u16
  pr_finalized :: bool

definition pcm_slot_zero :: pcm_ring_slot where
  "pcm_slot_zero = \<lparr>ps_frame_offset = 0, ps_sequence = 0, ps_valid_frames = 0, ps_flags = 0,
     ps_pcm = replicate PCM_RING_SLOT_BYTES 0\<rparr>"

definition pcm_ring_init :: pcm_ring where
  "pcm_ring_init = \<lparr>pr_slots = replicate (unat NP2_OPNGEN_PCM_RING_CAPACITY) pcm_slot_zero, pr_head = 0, pr_tail = 0,
     pr_next_frame_offset = 0, pr_next_sequence = 0, pr_partial_valid_frames = 0, pr_finalized = False\<rparr>"

definition pcm_ring_occupancy :: "pcm_ring \<Rightarrow> u32" where
  "pcm_ring_occupancy ring = pr_head ring - pr_tail ring"

definition pcm_ring_producer_partial_valid_frames :: "pcm_ring \<Rightarrow> u16" where
  "pcm_ring_producer_partial_valid_frames ring = pr_partial_valid_frames ring"

text \<open>One round of the loop: \<open>Some status\<close> when the function returns from inside the loop.\<close>

definition pcm_append_round ::
  "bytes \<Rightarrow> nat \<Rightarrow> u32 \<Rightarrow> nat \<Rightarrow> pcm_ring \<Rightarrow> pcm_ring_status option \<times> u32 \<times> nat \<times> pcm_ring" where
  "pcm_append_round pcm frame_count head consumed ring =
     (let tail = pr_tail ring in
      if head - tail > NP2_OPNGEN_PCM_RING_CAPACITY then (Some PCM_RING_INVARIANT, head, consumed, ring)
      else if head - tail = NP2_OPNGEN_PCM_RING_CAPACITY then (Some PCM_RING_FULL, head, consumed, ring)
      else
        let i = ring_slot NP2_OPNGEN_PCM_RING_CAPACITY head;
            slot = pr_slots ring ! i;
            slot = (if pr_partial_valid_frames ring = 0
                    then slot\<lparr>ps_frame_offset := pr_next_frame_offset ring, ps_sequence := pr_next_sequence ring, ps_flags := 0\<rparr>
                    else slot);
            available = unat (word_of_nat PCM_RING_QUANTUM_FRAMES - ucast (pr_partial_valid_frames ring) :: u32);
            chunk = frame_count - consumed;
            chunk = (if chunk > available then available else chunk);
            byte_offset = unat (pr_partial_valid_frames ring) * PCM_RING_BYTES_PER_FRAME;
            slot = slot\<lparr>ps_pcm := overwrite (ps_pcm slot) byte_offset
              (take (chunk * PCM_RING_BYTES_PER_FRAME) (drop (consumed * PCM_RING_BYTES_PER_FRAME) pcm))\<rparr>;
            partial = word_of_nat (unat (pr_partial_valid_frames ring) + chunk);
            ring = ring\<lparr>pr_slots := (pr_slots ring)[i := slot], pr_partial_valid_frames := partial,
              pr_next_frame_offset := pr_next_frame_offset ring + word_of_nat chunk\<rparr>;
            consumed = consumed + chunk
        in if partial = word_of_nat PCM_RING_QUANTUM_FRAMES
           then
             let slot = slot\<lparr>ps_valid_frames := word_of_nat PCM_RING_QUANTUM_FRAMES, ps_flags := 0\<rparr>
             in (None, head + 1, consumed, ring\<lparr>pr_slots := (pr_slots ring)[i := slot], pr_head := head + 1,
                   pr_next_sequence := pr_next_sequence ring + 1, pr_partial_valid_frames := 0\<rparr>)
           else (None, head, consumed, ring))"

lemma pcm_round_progress:
  assumes "pcm_append_round pcm frame_count head consumed ring = (None, head', consumed', ring')" "consumed < frame_count"
  shows "consumed' \<le> frame_count \<and> consumed \<le> consumed' \<and>
    (consumed' = consumed \<longrightarrow> pr_partial_valid_frames ring = 240 \<and> pr_partial_valid_frames ring' = 0)"
proof -
  let ?partial = "pr_partial_valid_frames ring"
  define available where "available = unat (word_of_nat PCM_RING_QUANTUM_FRAMES - ucast ?partial :: u32)"
  define chunk where "chunk = (if frame_count - consumed > available then available else frame_count - consumed)"
  have run: "\<not> head - pr_tail ring > NP2_OPNGEN_PCM_RING_CAPACITY" "head - pr_tail ring \<noteq> NP2_OPNGEN_PCM_RING_CAPACITY"
    using assms(1) by (auto simp: pcm_append_round_def Let_def split: if_splits)
  then have step: "consumed' = consumed + chunk"
    "word_of_nat (unat ?partial + chunk) = (240 :: u16) \<Longrightarrow> pr_partial_valid_frames ring' = 0"
    using assms(1) by (auto simp: pcm_append_round_def Let_def available_def chunk_def PCM_RING_QUANTUM_FRAMES_def split: if_splits)
  have "?partial = 240" if "chunk = 0"
  proof -
    have "available = 0" using that assms(2) by (auto simp: chunk_def split: if_splits)
    then have "(ucast ?partial :: u32) = 240" by (simp add: available_def PCM_RING_QUANTUM_FRAMES_def unat_eq_zero)
    then have "unat (ucast ?partial :: u32) = 240" by simp
    moreover have "unat (ucast ?partial :: u32) = unat ?partial"
      using unsigned_less [of ?partial, where 'a = nat] by (simp add: unsigned_ucast_eq take_bit_nat_eq_self)
    ultimately show ?thesis by (simp add: word_unat_eq_iff)
  qed
  then show ?thesis using step assms(2) by (auto simp: chunk_def)
qed

function pcm_append_loop :: "bytes \<Rightarrow> nat \<Rightarrow> u32 \<Rightarrow> nat \<Rightarrow> pcm_ring \<Rightarrow> pcm_ring_status \<times> nat \<times> pcm_ring" where
  "pcm_append_loop pcm frame_count head consumed ring =
     (if consumed < frame_count
      then (case pcm_append_round pcm frame_count head consumed ring of
              (Some status, head, consumed, ring) \<Rightarrow> (status, consumed, ring)
            | (None, head, consumed, ring) \<Rightarrow> pcm_append_loop pcm frame_count head consumed ring)
      else (PCM_RING_OK, consumed, ring))"
  by pat_completeness auto

termination
proof (relation "measures [\<lambda>(pcm, frame_count, head, consumed, ring). frame_count - consumed,
    \<lambda>(pcm, frame_count, head, consumed, ring). if pr_partial_valid_frames ring = 240 then 1 else 0]", goal_cases)
  case (2 pcm frame_count head consumed ring r p head' p' consumed' ring')
  then show ?case using pcm_round_progress [of pcm frame_count head consumed ring head' consumed' ring'] by auto
qed simp

definition pcm_ring_append ::
  "pcm_ring \<Rightarrow> bytes option \<Rightarrow> nat \<Rightarrow> u64 \<Rightarrow> pcm_ring_status \<times> nat \<times> pcm_ring" where
  "pcm_ring_append ring canonical_pcm frame_count frame_offset =
     (if (frame_count \<noteq> 0 \<and> canonical_pcm = None) \<or> frame_count > SIZE_MAX div PCM_RING_BYTES_PER_FRAME
      then (PCM_RING_ARGUMENT, 0, ring)
      else if pr_finalized ring then (PCM_RING_FINALIZED, 0, ring)
      else if frame_offset \<noteq> pr_next_frame_offset ring then (PCM_RING_OFFSET, 0, ring)
      else if frame_count > 0xFFFFFFFFFFFFFFFF - unat frame_offset then (PCM_RING_ARGUMENT, 0, ring)
      else pcm_append_loop (case canonical_pcm of None \<Rightarrow> [] | Some pcm \<Rightarrow> pcm) frame_count (pr_head ring) 0 ring)"

definition pcm_ring_try_peek :: "pcm_ring \<Rightarrow> pcm_ring_status \<times> pcm_ring_slot option" where
  "pcm_ring_try_peek ring =
     (let tail = pr_tail ring; head = pr_head ring in
      if head - tail > NP2_OPNGEN_PCM_RING_CAPACITY then (PCM_RING_INVARIANT, None)
      else if head = tail then (PCM_RING_EMPTY, None)
      else (PCM_RING_OK, Some (pr_slots ring ! ring_slot NP2_OPNGEN_PCM_RING_CAPACITY tail)))"

definition pcm_ring_consume :: "pcm_ring \<Rightarrow> pcm_ring_status \<times> pcm_ring" where
  "pcm_ring_consume ring =
     (let tail = pr_tail ring; head = pr_head ring in
      if head - tail > NP2_OPNGEN_PCM_RING_CAPACITY then (PCM_RING_INVARIANT, ring)
      else if head = tail then (PCM_RING_EMPTY, ring)
      else (PCM_RING_OK, ring\<lparr>pr_tail := tail + 1\<rparr>))"

definition pcm_ring_finish :: "pcm_ring \<Rightarrow> u64 \<Rightarrow> pcm_ring_status \<times> pcm_ring" where
  "pcm_ring_finish ring final_frame =
     (if pr_finalized ring then (PCM_RING_FINALIZED, ring)
      else if final_frame \<noteq> pr_next_frame_offset ring then (PCM_RING_OFFSET, ring)
      else if pr_partial_valid_frames ring = 0 then (PCM_RING_OK, ring\<lparr>pr_finalized := True\<rparr>)
      else
        let head = pr_head ring; tail = pr_tail ring in
        if head - tail > NP2_OPNGEN_PCM_RING_CAPACITY then (PCM_RING_INVARIANT, ring)
        else if head - tail = NP2_OPNGEN_PCM_RING_CAPACITY then (PCM_RING_FULL, ring)
        else
          let i = ring_slot NP2_OPNGEN_PCM_RING_CAPACITY head;
              slot = (pr_slots ring ! i)\<lparr>ps_valid_frames := pr_partial_valid_frames ring,
                ps_flags := PCM_RING_FLAG_FINAL_PARTIAL\<rparr>
          in (PCM_RING_OK, ring\<lparr>pr_slots := (pr_slots ring)[i := slot], pr_head := head + 1,
                pr_next_sequence := pr_next_sequence ring + 1, pr_partial_valid_frames := 0, pr_finalized := True\<rparr>))"

subsection \<open>The blocks of a sample stream\<close>

text \<open>What a consumer can see of a slot: the header and the bytes of the valid frames.\<close>

record pcm_view =
  pv_pcm :: bytes
  pv_frame_offset :: u64
  pv_sequence :: u32
  pv_valid_frames :: u16
  pv_flags :: u16

definition slot_view :: "pcm_ring_slot \<Rightarrow> pcm_view" where
  "slot_view slot = \<lparr>pv_pcm = take (4 * unat (ps_valid_frames slot)) (ps_pcm slot),
     pv_frame_offset = ps_frame_offset slot, pv_sequence = ps_sequence slot,
     pv_valid_frames = ps_valid_frames slot, pv_flags = ps_flags slot\<rparr>"

definition frames_of :: "bytes \<Rightarrow> nat" where "frames_of stream = length stream div 4"

definition block_of :: "bytes \<Rightarrow> nat \<Rightarrow> nat \<Rightarrow> u16 \<Rightarrow> pcm_view" where
  "block_of stream i n flags = \<lparr>pv_pcm = take (4 * n) (drop (960 * i) stream), pv_frame_offset = word_of_nat (240 * i),
     pv_sequence = word_of_nat i, pv_valid_frames = word_of_nat n, pv_flags = flags\<rparr>"

definition blocks_of :: "bool \<Rightarrow> bytes \<Rightarrow> pcm_view list" where
  "blocks_of final stream =
     map (\<lambda>i. block_of stream i 240 0) [0..<frames_of stream div 240] @
     (if final \<and> frames_of stream mod 240 \<noteq> 0
      then [block_of stream (frames_of stream div 240) (frames_of stream mod 240) PCM_RING_FLAG_FINAL_PARTIAL] else [])"

lemma block_of_append:
  "960 * i + 4 * n \<le> length stream \<Longrightarrow> block_of (stream @ bs) i n flags = block_of stream i n flags"
  by (simp add: block_of_def)

lemma full_block_stable:
  assumes "i < frames_of stream div 240"
  shows "block_of (stream @ bs) i 240 0 = block_of stream i 240 0"
proof (rule block_of_append)
  have "240 * (i + 1) \<le> frames_of stream"
    using assms by (simp add: less_eq_div_iff_mult_less_eq Suc_le_eq [symmetric] mult.commute)
  then show "960 * i + 4 * 240 \<le> length stream" by (auto simp: frames_of_def)
qed

lemma full_blocks_append:
  "frames_of (stream @ bs) div 240 = frames_of stream div 240 \<Longrightarrow> blocks_of False (stream @ bs) = blocks_of False stream"
  by (simp add: blocks_of_def full_block_stable)

lemma frames_of_append: "4 dvd length stream \<Longrightarrow> frames_of (stream @ bs) = frames_of stream + frames_of bs"
  by (auto simp: frames_of_def)

lemma length_frames: "4 dvd length stream \<Longrightarrow> length stream = 4 * frames_of stream"
  by (simp add: frames_of_def)

text \<open>Completing a block publishes it.\<close>

lemma blocks_complete:
  assumes "4 dvd length stream" "frames_of stream mod 240 + frames_of bs = 240"
  shows "blocks_of False (stream @ bs) =
    blocks_of False stream @ [block_of (stream @ bs) (frames_of stream div 240) 240 0]"
proof -
  let ?i = "frames_of stream div 240"
  have "frames_of (stream @ bs) = 240 * ?i + 240"
    using assms(2) frames_of_append [OF assms(1), of bs] mult_div_mod_eq [of 240 "frames_of stream"] by linarith
  then have count: "frames_of (stream @ bs) div 240 = Suc ?i" by simp
  then show ?thesis by (simp add: blocks_of_def full_block_stable)
qed

lemma concat_blocks: "concat (map (\<lambda>i. take 960 (drop (960 * i) xs)) [0..<n]) = take (960 * n) xs"
proof (induction n)
  case (Suc n)
  have "take (960 * Suc n) xs = take (960 * n) xs @ take 960 (drop (960 * n) xs)"
    using take_add [of "960 * n" 960 xs] by (simp only: mult_Suc_right add.commute)
  then show ?case using Suc by simp
qed simp

text \<open>The blocks of a finished stream are the stream.\<close>

lemma blocks_concat:
  assumes "4 dvd length stream"
  shows "concat (map pv_pcm (blocks_of True stream)) = stream"
proof -
  let ?n = "frames_of stream div 240" and ?m = "frames_of stream mod 240"
  have "length stream = 960 * ?n + 4 * ?m"
    using length_frames [OF assms] div_mult_mod_eq [of "frames_of stream" 240] by linarith
  moreover have "concat (map pv_pcm (blocks_of True stream)) = take (960 * ?n) stream @ take (4 * ?m) (drop (960 * ?n) stream)"
    using concat_blocks [of stream ?n] by (simp add: blocks_of_def block_of_def o_def)
  ultimately show ?thesis by (simp flip: take_add)
qed

subsection \<open>Invariant\<close>

interpretation pcm_slots: ring_geometry NP2_OPNGEN_PCM_RING_CAPACITY 3
  by unfold_locales (simp_all add: NP2_OPNGEN_PCM_RING_CAPACITY_def)

definition pcm_ring_list :: "pcm_ring \<Rightarrow> pcm_ring_slot list" where
  "pcm_ring_list ring = ring_content NP2_OPNGEN_PCM_RING_CAPACITY (pr_slots ring) (pr_head ring) (pr_tail ring)"

definition head_slot :: "pcm_ring \<Rightarrow> pcm_ring_slot" where
  "head_slot ring = pr_slots ring ! ring_slot NP2_OPNGEN_PCM_RING_CAPACITY (pr_head ring)"

text \<open>The slot that is being filled holds the frames that no block contains yet.\<close>

definition partial_ok :: "pcm_ring \<Rightarrow> bytes \<Rightarrow> bool" where
  "partial_ok ring stream \<longleftrightarrow>
     (let n = frames_of stream mod 240; i = frames_of stream div 240; slot = head_slot ring in
      pr_partial_valid_frames ring = word_of_nat n \<and>
      (n \<noteq> 0 \<longrightarrow> unat (pr_head ring - pr_tail ring) < 8 \<and> ps_frame_offset slot = word_of_nat (240 * i) \<and>
         ps_sequence slot = word_of_nat i \<and> take (4 * n) (ps_pcm slot) = drop (960 * i) stream))"

text \<open>
  A ring that was given the samples \<open>stream\<close> and from which the blocks \<open>taken\<close> were consumed.
\<close>

definition pcm_ring_ok :: "pcm_ring \<Rightarrow> bytes \<Rightarrow> pcm_view list \<Rightarrow> bool" where
  "pcm_ring_ok ring stream taken \<longleftrightarrow>
     length (pr_slots ring) = 8 \<and> (\<forall>slot\<in>set (pr_slots ring). length (ps_pcm slot) = 960) \<and>
     unat (pr_head ring - pr_tail ring) \<le> 8 \<and>
     4 dvd length stream \<and> frames_of stream < 2 ^ 64 \<and> pr_next_frame_offset ring = word_of_nat (frames_of stream) \<and>
     taken @ map slot_view (pcm_ring_list ring) = blocks_of (pr_finalized ring) stream \<and>
     pr_next_sequence ring = word_of_nat (length (blocks_of (pr_finalized ring) stream)) \<and>
     (if pr_finalized ring then pr_partial_valid_frames ring = 0 else partial_ok ring stream)"

lemma cap_8_pcm: "unat NP2_OPNGEN_PCM_RING_CAPACITY = 8"
  by (simp add: NP2_OPNGEN_PCM_RING_CAPACITY_def)

lemma over_pcm_cap: "i > NP2_OPNGEN_PCM_RING_CAPACITY \<longleftrightarrow> unat i > 8"
  "i = NP2_OPNGEN_PCM_RING_CAPACITY \<longleftrightarrow> unat i = 8"
  by (simp_all add: word_less_nat_alt cap_8_pcm word_unat_eq_iff)

lemma pcm_ring_init_ok: "pcm_ring_ok pcm_ring_init [] []"
  by (simp add: pcm_ring_ok_def pcm_ring_init_def pcm_ring_list_def blocks_of_def partial_ok_def frames_of_def cap_8_pcm
      pcm_slot_zero_def PCM_RING_SLOT_BYTES_def PCM_RING_QUANTUM_FRAMES_def PCM_RING_BYTES_PER_FRAME_def Let_def)

lemma length_full_blocks: "length (blocks_of False stream) = frames_of stream div 240"
  by (simp add: blocks_of_def)

text \<open>Storing into the head slot leaves the published slots alone.\<close>

lemma head_store_content:
  assumes "unat (pr_head ring - pr_tail ring) < 8"
  shows "ring_content NP2_OPNGEN_PCM_RING_CAPACITY
      ((pr_slots ring)[ring_slot NP2_OPNGEN_PCM_RING_CAPACITY (pr_head ring) := slot]) (pr_head ring) (pr_tail ring) =
    pcm_ring_list ring"
proof -
  let ?n = "unat (pr_head ring - pr_tail ring)"
  have "ring_slot NP2_OPNGEN_PCM_RING_CAPACITY (pr_head ring) \<noteq> ring_slot NP2_OPNGEN_PCM_RING_CAPACITY (pr_tail ring + word_of_nat k)"
    if "k < ?n" for k
    using pcm_slots.slot_offset_inj [of ?n k "pr_tail ring"] that assms by (auto simp: cap_8_pcm)
  then show ?thesis by (simp add: pcm_ring_list_def ring_content_def)
qed

lemma head_publish_content:
  assumes "unat (pr_head ring - pr_tail ring) < 8" "length (pr_slots ring) = 8"
  shows "ring_content NP2_OPNGEN_PCM_RING_CAPACITY
      ((pr_slots ring)[ring_slot NP2_OPNGEN_PCM_RING_CAPACITY (pr_head ring) := slot]) (pr_head ring + 1) (pr_tail ring) =
    pcm_ring_list ring @ [slot]"
    and "unat (pr_head ring + 1 - pr_tail ring) = unat (pr_head ring - pr_tail ring) + 1"
  using pcm_slots.content_push_one(1) [of "pr_head ring" "pr_tail ring" "pr_slots ring" slot]
    pcm_slots.content_push_one(2) [of "pr_head ring" "pr_tail ring" "pr_slots ring"] assms
  by (simp_all add: pcm_ring_list_def cap_8_pcm)

text \<open>The slot after \<open>bs\<close> more frames were copied into it.\<close>

definition filled :: "pcm_ring \<Rightarrow> bytes \<Rightarrow> pcm_ring_slot" where
  "filled ring bs =
     (let slot = head_slot ring;
          slot = (if pr_partial_valid_frames ring = 0
                  then slot\<lparr>ps_frame_offset := pr_next_frame_offset ring, ps_sequence := pr_next_sequence ring, ps_flags := 0\<rparr>
                  else slot)
      in slot\<lparr>ps_pcm := overwrite (ps_pcm slot) (4 * unat (pr_partial_valid_frames ring)) bs\<rparr>)"

lemma filled_slot:
  assumes ok: "pcm_ring_ok ring stream taken" "\<not> pr_finalized ring" "unat (pr_head ring - pr_tail ring) < 8"
    and n: "n = frames_of stream mod 240" "i = frames_of stream div 240"
    and bs: "4 dvd length bs" "n + frames_of bs \<le> 240"
  shows "length (ps_pcm (filled ring bs)) = 960"
    and "ps_frame_offset (filled ring bs) = word_of_nat (240 * i)"
    and "ps_sequence (filled ring bs) = word_of_nat i"
    and "take (4 * (n + frames_of bs)) (ps_pcm (filled ring bs)) = drop (960 * i) (stream @ bs)"
proof -
  let ?slot = "head_slot ring"
  have part: "pr_partial_valid_frames ring = word_of_nat n"
    "n \<noteq> 0 \<Longrightarrow> ps_frame_offset ?slot = word_of_nat (240 * i) \<and> ps_sequence ?slot = word_of_nat i \<and>
      take (4 * n) (ps_pcm ?slot) = drop (960 * i) stream"
    using ok n by (auto simp: pcm_ring_ok_def partial_ok_def Let_def)
  have un: "unat (pr_partial_valid_frames ring) = n" unfolding part(1) using n by (intro unat_of_nat_u16) simp
  have zero: "pr_partial_valid_frames ring = 0 \<longleftrightarrow> n = 0" using un by (metis unat_eq_zero)
  have nf: "frames_of stream = 240 * i + n" using n by simp
  have len: "length stream = 960 * i + 4 * n" using ok(1) length_frames [of stream] nf by (simp add: pcm_ring_ok_def)
  have "?slot \<in> set (pr_slots ring)"
    using ok(1) pcm_slots.slot_less [of "pr_head ring"] by (simp add: head_slot_def pcm_ring_ok_def cap_8_pcm)
  then have l: "length (ps_pcm ?slot) = 960" using ok(1) by (simp add: pcm_ring_ok_def)
  have lb: "length bs = 4 * frames_of bs" using bs(1) by (rule length_frames)
  have fits: "4 * n + length bs \<le> length (ps_pcm ?slot)" using bs(2) l lb by simp
  show "length (ps_pcm (filled ring bs)) = 960" using length_overwrite [OF fits] l by (simp add: filled_def un Let_def)
  have "pr_next_frame_offset ring = word_of_nat (frames_of stream)" "pr_next_sequence ring = word_of_nat i"
    using ok(1,2) unfolding n(2) by (simp_all add: pcm_ring_ok_def length_full_blocks)
  then have start: "pr_next_frame_offset ring = word_of_nat (240 * i)" "pr_next_sequence ring = word_of_nat i" if "n = 0"
    using that nf by simp_all
  show "ps_frame_offset (filled ring bs) = word_of_nat (240 * i)" "ps_sequence (filled ring bs) = word_of_nat i"
    using part(2) start zero by (auto simp: filled_def Let_def)
  have "take (4 * n) (ps_pcm ?slot) = drop (960 * i) stream" using part(2) len by (cases "n = 0") simp_all
  moreover have "take (4 * (n + frames_of bs)) (overwrite (ps_pcm ?slot) (4 * n) bs) = take (4 * n) (ps_pcm ?slot) @ bs"
    using l lb bs(2) by (simp add: overwrite_def)
  ultimately show "take (4 * (n + frames_of bs)) (ps_pcm (filled ring bs)) = drop (960 * i) (stream @ bs)"
    using len by (simp add: filled_def un Let_def)
qed

text \<open>The ring after a chunk that leaves the slot partial, and after one that completes it.\<close>

definition keep_filling :: "pcm_ring \<Rightarrow> bytes \<Rightarrow> pcm_ring" where
  "keep_filling ring bs =
     ring\<lparr>pr_slots := (pr_slots ring)[ring_slot NP2_OPNGEN_PCM_RING_CAPACITY (pr_head ring) := filled ring bs],
       pr_partial_valid_frames := word_of_nat (unat (pr_partial_valid_frames ring) + frames_of bs),
       pr_next_frame_offset := pr_next_frame_offset ring + word_of_nat (frames_of bs)\<rparr>"

definition publish_filled :: "pcm_ring \<Rightarrow> bytes \<Rightarrow> pcm_ring" where
  "publish_filled ring bs =
     ring\<lparr>pr_next_frame_offset := pr_next_frame_offset ring + word_of_nat (frames_of bs),
       pr_slots := (pr_slots ring)[ring_slot NP2_OPNGEN_PCM_RING_CAPACITY (pr_head ring) :=
         (filled ring bs)\<lparr>ps_valid_frames := 240, ps_flags := 0\<rparr>],
       pr_head := pr_head ring + 1, pr_next_sequence := pr_next_sequence ring + 1, pr_partial_valid_frames := 0\<rparr>"

lemma available_frames:
  assumes "unat (partial :: u16) \<le> 240"
  shows "unat (word_of_nat PCM_RING_QUANTUM_FRAMES - ucast partial :: u32) = 240 - unat partial"
proof -
  have "unat (ucast partial :: u32) = unat partial"
    using unsigned_less [of partial, where 'a = nat] by (simp add: unsigned_ucast_eq take_bit_nat_eq_self)
  then show ?thesis using assms
    by (subst unat_sub_le) (simp_all add: word_le_nat_alt PCM_RING_QUANTUM_FRAMES_def)
qed

lemma pcm_round_cases:
  assumes room: "unat (pr_head ring - pr_tail ring) < 8" and n: "unat (pr_partial_valid_frames ring) = n" "n < 240"
    and chunk: "chunk = min (frame_count - consumed) (240 - n)"
    and bs: "bs = take (4 * chunk) (drop (4 * consumed) pcm)" "length pcm = 4 * frame_count" "consumed < frame_count"
  shows "frames_of bs = chunk" "4 dvd length bs"
    and "pcm_append_round pcm frame_count (pr_head ring) consumed ring =
      (if n + chunk = 240 then (None, pr_head ring + 1, consumed + chunk, publish_filled ring bs)
       else (None, pr_head ring, consumed + chunk, keep_filling ring bs))"
proof -
  have len: "length bs = 4 * chunk" using bs chunk by simp
  then show fr: "frames_of bs = chunk" "4 dvd length bs" by (simp_all add: frames_of_def)
  have c: "chunk = (if frame_count - consumed > 240 - n then 240 - n else frame_count - consumed)" using chunk by simp
  have q: "word_of_nat n + word_of_nat chunk = (240 :: u16) \<longleftrightarrow> n + chunk = 240"
  proof -
    have "unat (word_of_nat (n + chunk) :: u16) = n + chunk" using chunk n(2) by (intro unat_of_nat_u16) simp
    then show ?thesis by (simp add: word_unat_eq_iff)
  qed
  have avail: "unat (240 - ucast (pr_partial_valid_frames ring) :: u32) = 240 - n"
    using available_frames [of "pr_partial_valid_frames ring"] n by (simp add: PCM_RING_QUANTUM_FRAMES_def)
  have fill: "filled ring bs =
     (let slot = (if pr_partial_valid_frames ring = 0
        then (pr_slots ring ! ring_slot NP2_OPNGEN_PCM_RING_CAPACITY (pr_head ring))\<lparr>ps_frame_offset := pr_next_frame_offset ring,
          ps_sequence := pr_next_sequence ring, ps_flags := 0\<rparr>
        else pr_slots ring ! ring_slot NP2_OPNGEN_PCM_RING_CAPACITY (pr_head ring))
      in slot\<lparr>ps_pcm := overwrite (ps_pcm slot) (n * 4) (take (chunk * 4) (drop (consumed * 4) pcm))\<rparr>)"
    by (simp add: filled_def head_slot_def n(1) bs(1) mult.commute Let_def)
  show "pcm_append_round pcm frame_count (pr_head ring) consumed ring =
      (if n + chunk = 240 then (None, pr_head ring + 1, consumed + chunk, publish_filled ring bs)
       else (None, pr_head ring, consumed + chunk, keep_filling ring bs))"
  proof (cases "n + chunk = 240")
    case True
    then show ?thesis using room
      by (simp add: pcm_append_round_def over_pcm_cap avail n(1) c [symmetric] q fill fr(1) publish_filled_def
          PCM_RING_QUANTUM_FRAMES_def PCM_RING_BYTES_PER_FRAME_def Let_def split del: if_split)
  next
    case False
    then show ?thesis using room
      by (simp add: pcm_append_round_def over_pcm_cap avail n(1) c [symmetric] q fill fr(1) keep_filling_def
          PCM_RING_QUANTUM_FRAMES_def PCM_RING_BYTES_PER_FRAME_def Let_def split del: if_split)
  qed
qed

text \<open>Each of them keeps the invariant for the longer stream.\<close>

lemma split_240: "r < 240 \<Longrightarrow> a = 240 * i + r \<Longrightarrow> a div 240 = i \<and> a mod 240 = (r :: nat)"
  by simp

lemma keep_filling_ok:
  assumes ok: "pcm_ring_ok ring stream taken" "\<not> pr_finalized ring" "unat (pr_head ring - pr_tail ring) < 8"
    and bs: "4 dvd length bs" "frames_of stream mod 240 + frames_of bs < 240" "frames_of stream + frames_of bs < 2 ^ 64"
  shows "pcm_ring_ok (keep_filling ring bs) (stream @ bs) taken"
proof -
  let ?n = "frames_of stream mod 240" and ?i = "frames_of stream div 240" and ?ring = "keep_filling ring bs"
  have d: "4 dvd length stream" using ok(1) by (simp add: pcm_ring_ok_def)
  have fr: "frames_of (stream @ bs) = frames_of stream + frames_of bs" by (rule frames_of_append [OF d])
  have dm: "frames_of (stream @ bs) div 240 = ?i" "frames_of (stream @ bs) mod 240 = ?n + frames_of bs"
    using split_240 [OF bs(2), of "frames_of (stream @ bs)" ?i] fr mult_div_mod_eq [of 240 "frames_of stream"] by linarith+
  have le: "?n + frames_of bs \<le> 240" using bs(2) by simp
  note slot = filled_slot [OF ok refl refl bs(1) le]
  have i: "ring_slot NP2_OPNGEN_PCM_RING_CAPACITY (pr_head ring) < length (pr_slots ring)"
    using ok(1) pcm_slots.slot_less [of "pr_head ring"] by (simp add: pcm_ring_ok_def cap_8_pcm)
  have part: "unat (pr_partial_valid_frames ring) = ?n"
    using ok(1,2) by (simp add: pcm_ring_ok_def partial_ok_def Let_def) (intro unat_of_nat_u16, simp)
  have "partial_ok ?ring (stream @ bs)"
    unfolding partial_ok_def Let_def dm
    using slot(2-4) ok(3) i by (simp add: keep_filling_def head_slot_def part)
  moreover have "pcm_ring_list ?ring = pcm_ring_list ring"
    using head_store_content [OF ok(3)] by (simp add: keep_filling_def pcm_ring_list_def)
  moreover have "blocks_of False (stream @ bs) = blocks_of False stream" using dm(1) by (rule full_blocks_append)
  moreover have "\<forall>slot\<in>set (pr_slots ?ring). length (ps_pcm slot) = 960"
    using ok(1) slot(1) by (auto simp: keep_filling_def pcm_ring_ok_def dest: set_update_subset_insert [THEN subsetD])
  ultimately show ?thesis using ok bs fr d by (simp add: pcm_ring_ok_def keep_filling_def)
qed

lemma publish_filled_ok:
  assumes ok: "pcm_ring_ok ring stream taken" "\<not> pr_finalized ring" "unat (pr_head ring - pr_tail ring) < 8"
    and bs: "4 dvd length bs" "frames_of stream mod 240 + frames_of bs = 240" "frames_of stream + frames_of bs < 2 ^ 64"
  shows "pcm_ring_ok (publish_filled ring bs) (stream @ bs) taken"
proof -
  let ?n = "frames_of stream mod 240" and ?i = "frames_of stream div 240" and ?ring = "publish_filled ring bs"
  let ?slot = "(filled ring bs)\<lparr>ps_valid_frames := 240, ps_flags := 0\<rparr>"
  have d: "4 dvd length stream" using ok(1) by (simp add: pcm_ring_ok_def)
  have fr: "frames_of (stream @ bs) = frames_of stream + frames_of bs" by (rule frames_of_append [OF d])
  have "frames_of (stream @ bs) = 240 * (?i + 1)"
    unfolding fr distrib_left mult_1_right using bs(2) mult_div_mod_eq [of 240 "frames_of stream"] by linarith
  then have dm: "frames_of (stream @ bs) div 240 = ?i + 1" "frames_of (stream @ bs) mod 240 = 0" by simp_all
  have le: "?n + frames_of bs \<le> 240" using bs(2) by simp
  note slot = filled_slot [OF ok refl refl bs(1) le]
  have "take (4 * 240) (drop (960 * ?i) (stream @ bs)) = take (4 * 240) (ps_pcm (filled ring bs))"
    unfolding slot(4) [symmetric] bs(2) by (simp only: take_take min.idem)
  then have "slot_view ?slot = block_of (stream @ bs) ?i 240 0"
    using slot(2,3) by (simp add: slot_view_def block_of_def del: drop_append take_append)
  moreover have "pcm_ring_list ?ring = pcm_ring_list ring @ [?slot]"
    using head_publish_content(1) [OF ok(3)] ok(1) by (simp add: publish_filled_def pcm_ring_list_def pcm_ring_ok_def)
  moreover have "blocks_of False (stream @ bs) = blocks_of False stream @ [block_of (stream @ bs) ?i 240 0]"
    using d bs(2) by (rule blocks_complete)
  moreover have "taken @ map slot_view (pcm_ring_list ring) = blocks_of False stream"
    using ok(1,2) by (simp add: pcm_ring_ok_def)
  ultimately have list: "taken @ map slot_view (pcm_ring_list ?ring) = blocks_of False (stream @ bs)"
    by (simp flip: append_assoc)
  have "partial_ok ?ring (stream @ bs)" unfolding partial_ok_def Let_def dm by (simp add: publish_filled_def)
  moreover have "\<forall>slot\<in>set (pr_slots ?ring). length (ps_pcm slot) = 960"
    using ok(1) slot(1) by (auto simp: publish_filled_def pcm_ring_ok_def dest: set_update_subset_insert [THEN subsetD])
  moreover have "pr_next_sequence ?ring = word_of_nat (length (blocks_of False (stream @ bs)))"
    using ok(1,2) dm(1) by (simp add: publish_filled_def pcm_ring_ok_def length_full_blocks)
  ultimately show ?thesis using ok bs fr d list head_publish_content(2) [OF ok(3)]
    by (simp add: pcm_ring_ok_def publish_filled_def)
qed

lemma partial_frames:
  assumes "pcm_ring_ok ring stream taken" "\<not> pr_finalized ring"
  shows "unat (pr_partial_valid_frames ring) = frames_of stream mod 240"
  using assms by (simp add: pcm_ring_ok_def partial_ok_def Let_def) (intro unat_of_nat_u16, simp)

text \<open>A round takes some of the samples, or finds the ring full and changes nothing.\<close>

lemma pcm_round_ok:
  assumes ok: "pcm_ring_ok ring stream taken" "\<not> pr_finalized ring"
    and len: "length pcm = 4 * frame_count" "consumed < frame_count" "frames_of stream + (frame_count - consumed) < 2 ^ 64"
    and run: "pcm_append_round pcm frame_count (pr_head ring) consumed ring = (r, head', consumed', ring')"
  shows "(r = Some PCM_RING_FULL \<and> ring' = ring \<and> consumed' = consumed \<and> unat (pcm_ring_occupancy ring) = 8) \<or>
    (r = None \<and> head' = pr_head ring' \<and> \<not> pr_finalized ring' \<and> consumed < consumed' \<and> consumed' \<le> frame_count \<and>
     pcm_ring_ok ring' (stream @ take (4 * (consumed' - consumed)) (drop (4 * consumed) pcm)) taken)"
proof (cases "unat (pr_head ring - pr_tail ring) = 8")
  case True
  then show ?thesis using run by (auto simp: pcm_append_round_def over_pcm_cap pcm_ring_occupancy_def)
next
  case False
  then have room: "unat (pr_head ring - pr_tail ring) < 8" using ok(1) by (simp add: pcm_ring_ok_def)
  let ?n = "frames_of stream mod 240"
  define chunk where "chunk = min (frame_count - consumed) (240 - ?n)"
  define bs where "bs = take (4 * chunk) (drop (4 * consumed) pcm)"
  have "?n < 240" by simp
  note round = pcm_round_cases [OF room partial_frames [OF ok] this chunk_def bs_def len(1,2)]
  have pos: "0 < chunk" "consumed + chunk \<le> frame_count" "?n + chunk \<le> 240" using len(2) by (auto simp: chunk_def)
  have total: "frames_of stream + frames_of bs < 2 ^ 64" using round(1) len(3) by (simp add: chunk_def)
  show ?thesis
  proof (cases "?n + chunk = 240")
    case True
    then have r: "r = None" "head' = pr_head ring + 1" "consumed' = consumed + chunk" "ring' = publish_filled ring bs"
      using run round(3) by simp_all
    have "pcm_ring_ok ring' (stream @ bs) taken"
      unfolding r(4) using True round by (intro publish_filled_ok [OF ok room _ _ total]) simp_all
    moreover have "head' = pr_head ring' \<and> \<not> pr_finalized ring'" using r(2,4) ok(2) by (simp add: publish_filled_def)
    ultimately show ?thesis using r pos by (simp add: bs_def)
  next
    case False
    then have r: "r = None" "head' = pr_head ring" "consumed' = consumed + chunk" "ring' = keep_filling ring bs"
      using run round(3) by simp_all
    have "pcm_ring_ok ring' (stream @ bs) taken"
      unfolding r(4) using False pos(3) round by (intro keep_filling_ok [OF ok room _ _ total]) simp_all
    moreover have "head' = pr_head ring' \<and> \<not> pr_finalized ring'" using r(2,4) ok(2) by (simp add: keep_filling_def)
    ultimately show ?thesis using r pos by (simp add: bs_def)
  qed
qed

lemma take_drop_chain: "a \<le> b \<Longrightarrow> b \<le> c \<Longrightarrow>
  take (4 * (b - a)) (drop (4 * a) xs) @ take (4 * (c - b)) (drop (4 * b) xs) = take (4 * (c - a)) (drop (4 * a) xs)" for a b c :: nat
proof -
  assume "a \<le> b" "b \<le> c"
  then obtain m n where "b = a + m" "c = a + m + n" by (metis le_Suc_ex)
  then show ?thesis by (simp add: algebra_simps take_add)
qed

lemma pcm_append_loop_ok:
  assumes "pcm_ring_ok ring stream taken" "\<not> pr_finalized ring" "length pcm = 4 * frame_count" "consumed \<le> frame_count"
    "frames_of stream + (frame_count - consumed) < 2 ^ 64"
    "pcm_append_loop pcm frame_count (pr_head ring) consumed ring = (status, consumed', ring')"
  shows "consumed \<le> consumed' \<and> consumed' \<le> frame_count \<and> \<not> pr_finalized ring' \<and>
    (status = PCM_RING_OK \<and> consumed' = frame_count \<or>
     status = PCM_RING_FULL \<and> consumed' < frame_count \<and> unat (pcm_ring_occupancy ring') = 8) \<and>
    pcm_ring_ok ring' (stream @ take (4 * (consumed' - consumed)) (drop (4 * consumed) pcm)) taken"
  using assms
proof (induction "frame_count - consumed" arbitrary: consumed ring stream rule: less_induct)
  case less
  show ?case
  proof (cases "consumed < frame_count")
    case False
    then show ?thesis using less.prems by (subst (asm) pcm_append_loop.simps) simp
  next
    case True
    obtain r head1 consumed1 ring1 where
      round: "pcm_append_round pcm frame_count (pr_head ring) consumed ring = (r, head1, consumed1, ring1)"
      by (metis prod.exhaust)
    from pcm_round_ok [OF less.prems(1-3) True less.prems(5) round] show ?thesis
    proof (elim disjE conjE)
      assume full: "r = Some PCM_RING_FULL" "ring1 = ring" "consumed1 = consumed" "unat (pcm_ring_occupancy ring) = 8"
      then have "(status, consumed', ring') = (PCM_RING_FULL, consumed, ring)"
        using less.prems(6) True round by (subst (asm) pcm_append_loop.simps) simp
      then show ?thesis using less.prems full True by simp
    next
      let ?bs = "take (4 * (consumed1 - consumed)) (drop (4 * consumed) pcm)"
      assume go: "r = None" "head1 = pr_head ring1" "\<not> pr_finalized ring1" "consumed < consumed1" "consumed1 \<le> frame_count"
        "pcm_ring_ok ring1 (stream @ ?bs) taken"
      have rest: "pcm_append_loop pcm frame_count (pr_head ring1) consumed1 ring1 = (status, consumed', ring')"
        using less.prems(6) True round go(1,2) by (subst (asm) pcm_append_loop.simps) simp
      have "length ?bs = 4 * (consumed1 - consumed)" using go(4,5) less.prems(3) by simp
      then have "frames_of (stream @ ?bs) = frames_of stream + (consumed1 - consumed)"
        using less.prems(1) frames_of_append [of stream ?bs] by (simp add: pcm_ring_ok_def frames_of_def)
      then have "frames_of (stream @ ?bs) + (frame_count - consumed1) < 2 ^ 64" using less.prems(5) go(4,5) by simp
      from less.hyps [OF diff_less_mono2 [OF go(4) True] go(6,3) less.prems(3) go(5) this rest] show ?thesis
        using go(4) take_drop_chain [of consumed consumed1 consumed' pcm] by auto
    qed
  qed
qed

lemma pcm_ring_append_ok:
  assumes ok: "pcm_ring_ok ring stream taken" and len: "length pcm = 4 * frame_count"
    and run: "pcm_ring_append ring (Some pcm) frame_count frame_offset = (status, consumed, ring')"
  shows "consumed \<le> frame_count \<and> pcm_ring_ok ring' (stream @ take (4 * consumed) pcm) taken \<and>
    pr_finalized ring' = pr_finalized ring \<and> status \<notin> {PCM_RING_EMPTY, PCM_RING_INVARIANT} \<and>
    (status = PCM_RING_OK \<longrightarrow> consumed = frame_count)"
proof (cases "consumed = 0 \<and> ring' = ring \<and> status \<in> {PCM_RING_ARGUMENT, PCM_RING_FINALIZED, PCM_RING_OFFSET}")
  case True
  then show ?thesis using ok by auto
next
  case False
  then have go: "\<not> pr_finalized ring" "frame_offset = pr_next_frame_offset ring"
      "frame_count \<le> 0xFFFFFFFFFFFFFFFF - unat frame_offset"
      "pcm_append_loop pcm frame_count (pr_head ring) 0 ring = (status, consumed, ring')"
    using run by (auto simp: pcm_ring_append_def split: if_splits)
  have "frames_of stream < 2 ^ LENGTH(64)" "frame_offset = word_of_nat (frames_of stream)"
    using ok go(2) by (simp_all add: pcm_ring_ok_def)
  then have "unat frame_offset = frames_of stream" by (simp add: unat_of_nat)
  then have "frames_of stream + (frame_count - 0) < 2 ^ 64" using go(3) \<open>frames_of stream < 2 ^ LENGTH(64)\<close> by simp
  from pcm_append_loop_ok [OF ok go(1) len le0 this go(4)] show ?thesis using go(1) by auto
qed

lemma pcm_ring_consume_ok:
  assumes ok: "pcm_ring_ok ring stream taken"
  shows "if pr_head ring = pr_tail ring then pcm_ring_try_peek ring = (PCM_RING_EMPTY, None)
    else \<exists>slot ring'. pcm_ring_try_peek ring = (PCM_RING_OK, Some slot) \<and> pcm_ring_consume ring = (PCM_RING_OK, ring') \<and>
      pcm_ring_ok ring' stream (taken @ [slot_view slot]) \<and> pr_finalized ring' = pr_finalized ring \<and>
      (\<exists>rest. pcm_ring_list ring = slot # rest) \<and> slot \<in> set (pr_slots ring)"
proof (cases "pr_head ring = pr_tail ring")
  case True
  then show ?thesis by (simp add: pcm_ring_try_peek_def over_pcm_cap)
next
  case False
  let ?slot = "pr_slots ring ! ring_slot NP2_OPNGEN_PCM_RING_CAPACITY (pr_tail ring)"
    and ?ring = "ring\<lparr>pr_tail := pr_tail ring + 1\<rparr>"
  have n: "unat (pr_head ring - pr_tail ring) \<le> 8" "length (pr_slots ring) = 8" using ok by (simp_all add: pcm_ring_ok_def)
  have calls: "pcm_ring_try_peek ring = (PCM_RING_OK, Some ?slot)" "pcm_ring_consume ring = (PCM_RING_OK, ?ring)"
    using False n by (simp_all add: pcm_ring_try_peek_def pcm_ring_consume_def over_pcm_cap Let_def)
  have list: "pcm_ring_list ring = ?slot # pcm_ring_list ?ring"
    using pcm_slots.content_pop(1) [OF False, of "pr_slots ring"] by (simp add: pcm_ring_list_def)
  have less: "unat (pr_head ring - (pr_tail ring + 1)) = unat (pr_head ring - pr_tail ring) - 1"
    by (rule pcm_slots.content_pop(2) [OF False])
  have "partial_ok ?ring stream" if "\<not> pr_finalized ring"
    using ok that less by (auto simp: pcm_ring_ok_def partial_ok_def head_slot_def Let_def)
  then have "pcm_ring_ok ?ring stream (taken @ [slot_view ?slot])"
    using ok list less n by (auto simp: pcm_ring_ok_def)
  moreover have "?slot \<in> set (pr_slots ring)"
    using pcm_slots.slot_less [of "pr_tail ring"] n(2) by (simp add: cap_8_pcm)
  ultimately show ?thesis using False calls list by auto
qed

lemma pcm_ring_finish_ok:
  assumes ok: "pcm_ring_ok ring stream taken" and run: "pcm_ring_finish ring final_frame = (status, ring')"
  shows "pcm_ring_ok ring' stream taken \<and> (status = PCM_RING_OK \<longrightarrow> pr_finalized ring') \<and>
    (pr_finalized ring \<longrightarrow> pr_finalized ring')"
proof (cases "pr_finalized ring \<or> final_frame \<noteq> pr_next_frame_offset ring")
  case True
  then show ?thesis using ok run by (auto simp: pcm_ring_finish_def split: if_splits)
next
  case False
  let ?n = "frames_of stream mod 240" and ?i = "frames_of stream div 240"
  have part: "unat (pr_partial_valid_frames ring) = ?n" using partial_frames [OF ok] False by simp
  have zero: "pr_partial_valid_frames ring = 0 \<longleftrightarrow> ?n = 0" using part by (metis unat_eq_zero)
  show ?thesis
  proof (cases "?n = 0")
    case True
    then have "blocks_of True stream = blocks_of False stream" by (simp add: blocks_of_def)
    moreover have "status = PCM_RING_OK" "ring' = ring\<lparr>pr_finalized := True\<rparr>"
      using run False zero True by (simp_all add: pcm_ring_finish_def)
    ultimately show ?thesis using ok False zero True by (simp add: pcm_ring_ok_def pcm_ring_list_def)
  next
    case n: False
    let ?slot = "(head_slot ring)\<lparr>ps_valid_frames := pr_partial_valid_frames ring, ps_flags := PCM_RING_FLAG_FINAL_PARTIAL\<rparr>"
    have slot: "ps_frame_offset (head_slot ring) = word_of_nat (240 * ?i)" "ps_sequence (head_slot ring) = word_of_nat ?i"
      "take (4 * ?n) (ps_pcm (head_slot ring)) = drop (960 * ?i) stream" "unat (pr_head ring - pr_tail ring) < 8"
      "pr_partial_valid_frames ring = word_of_nat ?n"
      using ok False n by (simp_all add: pcm_ring_ok_def partial_ok_def Let_def)
    have r: "status = PCM_RING_OK" "ring' = ring\<lparr>pr_slots := (pr_slots ring)[ring_slot NP2_OPNGEN_PCM_RING_CAPACITY (pr_head ring) := ?slot],
        pr_head := pr_head ring + 1, pr_next_sequence := pr_next_sequence ring + 1, pr_partial_valid_frames := 0, pr_finalized := True\<rparr>"
      using run False n zero slot(4) by (auto simp: pcm_ring_finish_def over_pcm_cap head_slot_def Let_def)
    have lens: "length (pr_slots ring) = 8" "\<forall>slot\<in>set (pr_slots ring). length (ps_pcm slot) = 960"
      using ok by (simp_all add: pcm_ring_ok_def)
    have hs: "head_slot ring \<in> set (pr_slots ring)"
      using pcm_slots.slot_less [of "pr_head ring"] lens(1) by (simp add: head_slot_def cap_8_pcm)
    have "take (4 * ?n) (drop (960 * ?i) stream) = take (4 * ?n) (ps_pcm (head_slot ring))"
      unfolding slot(3) [symmetric] by (simp only: take_take min.idem)
    then have "slot_view ?slot = block_of stream ?i ?n PCM_RING_FLAG_FINAL_PARTIAL"
      using slot(1,2,5) part by (simp add: slot_view_def block_of_def)
    moreover have "pcm_ring_list ring' = pcm_ring_list ring @ [?slot]"
      using head_publish_content(1) [OF slot(4) lens(1)] r(2) by (simp add: pcm_ring_list_def)
    moreover have "blocks_of True stream = blocks_of False stream @ [block_of stream ?i ?n PCM_RING_FLAG_FINAL_PARTIAL]"
      using n by (simp add: blocks_of_def)
    ultimately have "taken @ map slot_view (pcm_ring_list ring') = blocks_of True stream"
      "pr_next_sequence ring' = word_of_nat (length (blocks_of True stream))"
      using ok False r(2) by (simp_all add: pcm_ring_ok_def)
    moreover have "\<forall>slot\<in>set (pr_slots ring'). length (ps_pcm slot) = 960"
      using lens(2) hs r(2) by (auto dest: set_update_subset_insert [THEN subsetD])
    ultimately show ?thesis
      using ok slot(4) r head_publish_content(2) [OF slot(4) lens(1)] by (simp add: pcm_ring_ok_def)
  qed
qed

subsection \<open>Runs\<close>

datatype pcm_call = Append bytes nat u64 | Finish u64 | Consume

text \<open>The samples accepted and the blocks consumed so far are recorded beside the ring.\<close>

record pcm_world =
  pw_ring :: pcm_ring
  pw_stream :: bytes
  pw_taken :: "pcm_view list"

fun pcm_call_step :: "pcm_call \<Rightarrow> pcm_world \<Rightarrow> pcm_world" where
  "pcm_call_step (Append pcm frame_count frame_offset) w =
     (let (status, consumed, ring) = pcm_ring_append (pw_ring w) (Some pcm) frame_count frame_offset
      in w\<lparr>pw_ring := ring, pw_stream := pw_stream w @ take (4 * consumed) pcm\<rparr>)"
| "pcm_call_step (Finish final_frame) w = w\<lparr>pw_ring := snd (pcm_ring_finish (pw_ring w) final_frame)\<rparr>"
| "pcm_call_step Consume w =
     (case pcm_ring_try_peek (pw_ring w) of
        (PCM_RING_OK, Some slot) \<Rightarrow> w\<lparr>pw_ring := snd (pcm_ring_consume (pw_ring w)), pw_taken := pw_taken w @ [slot_view slot]\<rparr>
      | _ \<Rightarrow> w)"

definition pcm_start :: pcm_world where
  "pcm_start = \<lparr>pw_ring = pcm_ring_init, pw_stream = [], pw_taken = []\<rparr>"

text \<open>The buffer that the caller passes holds as many frames as it says.\<close>

definition pcm_call_sized :: "pcm_call \<Rightarrow> bool" where
  "pcm_call_sized call = (case call of Append pcm frame_count frame_offset \<Rightarrow> length pcm = 4 * frame_count | _ \<Rightarrow> True)"

definition pcm_world_ok :: "pcm_world \<Rightarrow> bool" where
  "pcm_world_ok w \<longleftrightarrow> pcm_ring_ok (pw_ring w) (pw_stream w) (pw_taken w)"

lemma pcm_call_step_ok:
  assumes "pcm_world_ok w" "pcm_call_sized call"
  shows "pcm_world_ok (pcm_call_step call w)"
proof (cases call)
  case (Append pcm frame_count frame_offset)
  obtain status consumed ring where run: "pcm_ring_append (pw_ring w) (Some pcm) frame_count frame_offset = (status, consumed, ring)"
    by (metis surj_pair)
  show ?thesis using pcm_ring_append_ok [OF assms(1) [unfolded pcm_world_ok_def] _ run] assms(2) Append run
    by (simp add: pcm_world_ok_def pcm_call_sized_def)
next
  case (Finish final_frame)
  then show ?thesis using pcm_ring_finish_ok [OF assms(1) [unfolded pcm_world_ok_def]]
    by (simp add: pcm_world_ok_def) (metis surjective_pairing)
next
  case Consume
  then show ?thesis using pcm_ring_consume_ok [OF assms(1) [unfolded pcm_world_ok_def]] assms(1)
    by (cases "pr_head (pw_ring w) = pr_tail (pw_ring w)") (auto simp: pcm_world_ok_def)
qed

lemma pcm_runs_ok: "\<forall>call\<in>set calls. pcm_call_sized call \<Longrightarrow> pcm_world_ok (fold pcm_call_step calls pcm_start)"
proof (induction calls rule: rev_induct)
  case Nil
  then show ?case using pcm_ring_init_ok by (simp add: pcm_world_ok_def pcm_start_def)
qed (simp add: pcm_call_step_ok)

text \<open>
  (C38) The ring cuts the sample stream into numbered blocks and loses nothing. Let a producer append samples in pieces
  of any size, with any offsets, and finish, while a consumer takes slots. The blocks taken, followed by the blocks published in
  the ring, are exactly the consecutive blocks of 240 frames of the samples accepted, with sequence numbers and frame offsets
  that count on from zero, and after a successful finish also the final partial block. Once the ring is finished and empty, the
  bytes taken are the bytes accepted.
\<close>

theorem pcm_ring_blocks:
  assumes "\<forall>call\<in>set calls. pcm_call_sized call" "w = fold pcm_call_step calls pcm_start"
  shows "pw_taken w @ map slot_view (pcm_ring_list (pw_ring w)) = blocks_of (pr_finalized (pw_ring w)) (pw_stream w) \<and>
    unat (pcm_ring_occupancy (pw_ring w)) \<le> 8 \<and>
    (pr_finalized (pw_ring w) \<and> pcm_ring_occupancy (pw_ring w) = 0 \<longrightarrow> concat (map pv_pcm (pw_taken w)) = pw_stream w)"
proof -
  have ok: "pcm_ring_ok (pw_ring w) (pw_stream w) (pw_taken w)"
    using pcm_runs_ok [OF assms(1)] assms(2) by (simp add: pcm_world_ok_def)
  then have "concat (map pv_pcm (pw_taken w)) = pw_stream w"
    if "pr_finalized (pw_ring w)" "pcm_ring_occupancy (pw_ring w) = 0"
  proof -
    have "pcm_ring_list (pw_ring w) = []" using that(2)
      by (metis length_0_conv length_ring_content pcm_ring_list_def pcm_ring_occupancy_def unsigned_0)
    then have "pw_taken w = blocks_of True (pw_stream w)" using ok that(1) by (simp add: pcm_ring_ok_def)
    then show ?thesis using blocks_concat ok by (simp add: pcm_ring_ok_def)
  qed
  then show ?thesis using ok by (simp add: pcm_ring_ok_def pcm_ring_occupancy_def)
qed

lemma append_one_frame:
  "pcm_ring_append pcm_ring_init (Some [1, 2, 3, 4]) 1 0 = (PCM_RING_OK, 1, keep_filling pcm_ring_init [1, 2, 3, 4])"
proof -
  have "pcm_append_round [1, 2, 3, 4] 1 0 0 pcm_ring_init = (None, 0, 1, keep_filling pcm_ring_init [1, 2, 3, 4])"
    using pcm_round_cases(3) [of pcm_ring_init 0 1 1 0 "[1, 2, 3, 4]" "[1, 2, 3, 4]"] by (simp add: pcm_ring_init_def)
  then have "pcm_append_loop [1, 2, 3, 4] 1 0 0 pcm_ring_init = (PCM_RING_OK, 1, keep_filling pcm_ring_init [1, 2, 3, 4])"
    by (simp add: pcm_append_loop.simps)
  then show ?thesis
    by (simp add: pcm_ring_append_def pcm_ring_init_def SIZE_MAX_def PCM_RING_BYTES_PER_FRAME_def)
qed

lemma pcm_ring_blocks_witness:
  "\<exists>calls w. (\<forall>call\<in>set calls. pcm_call_sized call) \<and> w = fold pcm_call_step calls pcm_start \<and>
     pr_finalized (pw_ring w) \<and> concat (map pv_pcm (pw_taken w)) = [1, 2, 3, 4]"
proof -
  let ?calls = "[Append [1, 2, 3, 4] 1 0, Finish 1, Consume]"
  let ?w = "fold pcm_call_step ?calls pcm_start"
  have sized: "\<forall>call\<in>set ?calls. pcm_call_sized call" by (simp add: pcm_call_sized_def)
  have state: "pr_finalized (pw_ring ?w)" "pcm_ring_occupancy (pw_ring ?w) = 0" "pw_stream ?w = [1, 2, 3, 4]"
    using append_one_frame
    by (simp_all add: pcm_start_def keep_filling_def pcm_ring_init_def pcm_ring_finish_def pcm_ring_try_peek_def
        pcm_ring_consume_def pcm_ring_occupancy_def frames_of_def NP2_OPNGEN_PCM_RING_CAPACITY_def Let_def)
  with pcm_ring_blocks [OF sized refl] sized show ?thesis by (intro exI [of _ ?calls] exI [of _ ?w]) simp
qed

end
