(* ===== verification/Pcm_Output.thy ===== *)
theory Pcm_Output
  imports Pcm_Ring
begin

section \<open>Delivering sample blocks to a sink (np2pcm_output/np2pcm_output.c)\<close>

text \<open>
  The controller takes slots from the sample ring and submits them to a sink, the physical audio device. The sink is given by
  four callbacks with a state of their own; nothing is assumed of them, and a value outside the enumeration that a
  callback may return is \<open>SINK_INVALID\<close>. The controller and its ring are never null; a missing callback is \<open>None\<close> in
  \<open>pcm_output_controller_init\<close> only, which refuses it.
\<close>

datatype sink_result = SINK_ACCEPTED | SINK_RETRY | SINK_FATAL | SINK_INVALID

datatype output_state = OUTPUT_INITIAL | OUTPUT_STARTED | OUTPUT_FAILED | OUTPUT_FINISHED | OUTPUT_ABORTED

datatype output_status = OUTPUT_OK | OUTPUT_CONSUMED | OUTPUT_EMPTY | OUTPUT_RETRY | OUTPUT_FATAL | OUTPUT_ARGUMENT
  | OUTPUT_STATE_ERROR | OUTPUT_SLOT_ERROR | OUTPUT_RING_ERROR

text \<open>A view passes the whole slot buffer; its valid frames are the first ones. The ring is shared with the producer.\<close>

record 's pcm_sink =
  sk_start :: "'s \<Rightarrow> sink_result \<times> 's"
  sk_submit :: "pcm_view \<Rightarrow> 's \<Rightarrow> sink_result \<times> 's"
  sk_finish :: "'s \<Rightarrow> sink_result \<times> 's"
  sk_abort :: "'s \<Rightarrow> sink_result \<times> 's"

record output_controller =
  oc_state :: output_state
  oc_expected_frame_offset :: u64
  oc_accepted_frames :: u64
  oc_accepted_bytes :: u64
  oc_expected_sequence :: u32

definition sink_result_valid :: "sink_result \<Rightarrow> bool" where
  "sink_result_valid result \<longleftrightarrow> result = SINK_ACCEPTED \<or> result = SINK_RETRY \<or> result = SINK_FATAL"

definition translate_result :: "output_controller \<Rightarrow> sink_result \<Rightarrow> output_status \<times> output_controller" where
  "translate_result controller result =
     (if \<not> sink_result_valid result then (OUTPUT_FATAL, controller\<lparr>oc_state := OUTPUT_FAILED\<rparr>)
      else if result = SINK_RETRY then (OUTPUT_RETRY, controller)
      else if result = SINK_FATAL then (OUTPUT_FATAL, controller\<lparr>oc_state := OUTPUT_FAILED\<rparr>)
      else (OUTPUT_OK, controller))"

definition pcm_output_controller_init ::
  "('s \<Rightarrow> sink_result \<times> 's) option \<Rightarrow> (pcm_view \<Rightarrow> 's \<Rightarrow> sink_result \<times> 's) option \<Rightarrow> ('s \<Rightarrow> sink_result \<times> 's) option \<Rightarrow>
   ('s \<Rightarrow> sink_result \<times> 's) option \<Rightarrow> (output_controller \<times> 's pcm_sink) option" where
  "pcm_output_controller_init start submit finish abort =
     (case (start, submit, finish, abort) of
        (Some start, Some submit, Some finish, Some abort) \<Rightarrow>
          Some (\<lparr>oc_state = OUTPUT_INITIAL, oc_expected_frame_offset = 0, oc_accepted_frames = 0, oc_accepted_bytes = 0,
                  oc_expected_sequence = 0\<rparr>,
                \<lparr>sk_start = start, sk_submit = submit, sk_finish = finish, sk_abort = abort\<rparr>)
      | _ \<Rightarrow> None)"

definition pcm_output_start ::
  "'s pcm_sink \<Rightarrow> output_controller \<Rightarrow> 's \<Rightarrow> output_status \<times> output_controller \<times> 's" where
  "pcm_output_start sink controller opaque =
     (if oc_state controller \<noteq> OUTPUT_INITIAL then (OUTPUT_STATE_ERROR, controller, opaque)
      else
        let (result, opaque) = sk_start sink opaque;
            (status, controller) = translate_result controller result
        in (status, (if status = OUTPUT_OK then controller\<lparr>oc_state := OUTPUT_STARTED\<rparr> else controller), opaque))"

definition slot_valid :: "output_controller \<Rightarrow> pcm_ring_slot \<Rightarrow> bool" where
  "slot_valid controller slot =
     (let full = ps_valid_frames slot = word_of_nat PCM_RING_QUANTUM_FRAMES;
          partial = ps_valid_frames slot > 0 \<and> \<not> full
      in if (\<not> full \<and> \<not> partial) \<or> ps_valid_frames slot > word_of_nat PCM_RING_QUANTUM_FRAMES \<or>
            ps_sequence slot \<noteq> oc_expected_sequence controller \<or>
            ps_frame_offset slot \<noteq> oc_expected_frame_offset controller
         then False
         else if full then ps_flags slot = 0
         else ps_flags slot = PCM_RING_FLAG_FINAL_PARTIAL)"

definition pcm_output_step ::
  "'s pcm_sink \<Rightarrow> output_controller \<Rightarrow> pcm_ring \<Rightarrow> 's \<Rightarrow> output_status \<times> output_controller \<times> pcm_ring \<times> 's" where
  "pcm_output_step sink controller ring opaque =
     (if oc_state controller \<noteq> OUTPUT_STARTED then (OUTPUT_STATE_ERROR, controller, ring, opaque)
      else
        case pcm_ring_try_peek ring of
          (PCM_RING_EMPTY, _) \<Rightarrow> (OUTPUT_EMPTY, controller, ring, opaque)
        | (PCM_RING_OK, Some slot) \<Rightarrow>
            if \<not> slot_valid controller slot then (OUTPUT_SLOT_ERROR, controller, ring, opaque)
            else
              let view = \<lparr>pv_pcm = ps_pcm slot, pv_frame_offset = ps_frame_offset slot, pv_sequence = ps_sequence slot,
                    pv_valid_frames = ps_valid_frames slot, pv_flags = ps_flags slot\<rparr>;
                  (result, opaque) = sk_submit sink view opaque
              in if \<not> sink_result_valid result \<or> result = SINK_FATAL
                 then (OUTPUT_FATAL, controller\<lparr>oc_state := OUTPUT_FAILED\<rparr>, ring, opaque)
                 else if result = SINK_RETRY then (OUTPUT_RETRY, controller, ring, opaque)
                 else
                   let valid_frames = ps_valid_frames slot;
                       bytes = ucast valid_frames * word_of_nat PCM_RING_BYTES_PER_FRAME
                   in if oc_accepted_frames controller > - 1 - ucast valid_frames \<or> oc_accepted_bytes controller > - 1 - bytes
                      then (OUTPUT_FATAL, controller\<lparr>oc_state := OUTPUT_FAILED\<rparr>, ring, opaque)
                      else
                        let (ring_status, ring) = pcm_ring_consume ring
                        in if ring_status \<noteq> PCM_RING_OK
                           then (OUTPUT_RING_ERROR, controller\<lparr>oc_state := OUTPUT_FAILED\<rparr>, ring, opaque)
                           else (OUTPUT_CONSUMED,
                                 controller\<lparr>oc_expected_frame_offset := oc_expected_frame_offset controller + ucast valid_frames,
                                   oc_accepted_frames := oc_accepted_frames controller + ucast valid_frames,
                                   oc_accepted_bytes := oc_accepted_bytes controller + bytes,
                                   oc_expected_sequence := oc_expected_sequence controller + 1\<rparr>, ring, opaque)
        | _ \<Rightarrow> (OUTPUT_RING_ERROR, controller, ring, opaque))"

definition pcm_output_finish ::
  "'s pcm_sink \<Rightarrow> output_controller \<Rightarrow> pcm_ring \<Rightarrow> 's \<Rightarrow> output_status \<times> output_controller \<times> 's" where
  "pcm_output_finish sink controller ring opaque =
     (if oc_state controller \<noteq> OUTPUT_STARTED then (OUTPUT_STATE_ERROR, controller, opaque)
      else if pcm_ring_occupancy ring \<noteq> 0 then (OUTPUT_STATE_ERROR, controller, opaque)
      else
        let (result, opaque) = sk_finish sink opaque;
            (status, controller) = translate_result controller result
        in (status, (if status = OUTPUT_OK then controller\<lparr>oc_state := OUTPUT_FINISHED\<rparr> else controller), opaque))"

definition pcm_output_abort ::
  "'s pcm_sink \<Rightarrow> output_controller \<Rightarrow> 's \<Rightarrow> output_status \<times> output_controller \<times> 's" where
  "pcm_output_abort sink controller opaque =
     (if oc_state controller \<noteq> OUTPUT_STARTED \<and> oc_state controller \<noteq> OUTPUT_FAILED
      then (OUTPUT_STATE_ERROR, controller, opaque)
      else
        let (result, opaque) = sk_abort sink opaque;
            (status, controller) = translate_result controller result
        in (status, (if status = OUTPUT_OK then controller\<lparr>oc_state := OUTPUT_ABORTED\<rparr> else controller), opaque))"

subsection \<open>Producer, controller and sink together\<close>

datatype audio_call = Produce pcm_call | Output_Start | Output_Step | Output_Finish | Output_Abort

text \<open>
  \<open>aw_delivered\<close> records the blocks for which a step returned \<open>OUTPUT_CONSUMED\<close>, \<open>aw_statuses\<close> every status of the
  controller. The consumer's side of the ring belongs to the controller, so the producer makes no \<open>Consume\<close> call.
\<close>

record 's audio_world =
  aw_ring :: pcm_ring
  aw_stream :: bytes
  aw_controller :: output_controller
  aw_opaque :: 's
  aw_delivered :: "pcm_view list"
  aw_statuses :: "output_status list"

fun audio_step :: "'s pcm_sink \<Rightarrow> audio_call \<Rightarrow> 's audio_world \<Rightarrow> 's audio_world" where
  "audio_step sink (Produce (Append pcm frame_count frame_offset)) w =
     (let (status, consumed, ring) = pcm_ring_append (aw_ring w) (Some pcm) frame_count frame_offset
      in w\<lparr>aw_ring := ring, aw_stream := aw_stream w @ take (4 * consumed) pcm\<rparr>)"
| "audio_step sink (Produce (Finish final_frame)) w = w\<lparr>aw_ring := snd (pcm_ring_finish (aw_ring w) final_frame)\<rparr>"
| "audio_step sink (Produce Consume) w = w"
| "audio_step sink Output_Start w =
     (let (status, controller, opaque) = pcm_output_start sink (aw_controller w) (aw_opaque w)
      in w\<lparr>aw_controller := controller, aw_opaque := opaque, aw_statuses := aw_statuses w @ [status]\<rparr>)"
| "audio_step sink Output_Step w =
     (let (status, controller, ring, opaque) = pcm_output_step sink (aw_controller w) (aw_ring w) (aw_opaque w)
      in w\<lparr>aw_controller := controller, aw_ring := ring, aw_opaque := opaque,
           aw_delivered := aw_delivered w @ (if status = OUTPUT_CONSUMED
             then map slot_view (take 1 (pcm_ring_list (aw_ring w))) else []),
           aw_statuses := aw_statuses w @ [status]\<rparr>)"
| "audio_step sink Output_Finish w =
     (let (status, controller, opaque) = pcm_output_finish sink (aw_controller w) (aw_ring w) (aw_opaque w)
      in w\<lparr>aw_controller := controller, aw_opaque := opaque, aw_statuses := aw_statuses w @ [status]\<rparr>)"
| "audio_step sink Output_Abort w =
     (let (status, controller, opaque) = pcm_output_abort sink (aw_controller w) (aw_opaque w)
      in w\<lparr>aw_controller := controller, aw_opaque := opaque, aw_statuses := aw_statuses w @ [status]\<rparr>)"

definition controller_fresh :: output_controller where
  "controller_fresh = \<lparr>oc_state = OUTPUT_INITIAL, oc_expected_frame_offset = 0, oc_accepted_frames = 0, oc_accepted_bytes = 0,
     oc_expected_sequence = 0\<rparr>"

definition audio_start :: "'s \<Rightarrow> 's audio_world" where
  "audio_start opaque = \<lparr>aw_ring = pcm_ring_init, aw_stream = [], aw_controller = controller_fresh, aw_opaque = opaque,
     aw_delivered = [], aw_statuses = []\<rparr>"

subsection \<open>Invariant\<close>

definition frames_delivered :: "pcm_view list \<Rightarrow> nat" where
  "frames_delivered views = sum_list (map (unat \<circ> pv_valid_frames) views)"

definition controller_ok :: "output_controller \<Rightarrow> pcm_view list \<Rightarrow> bool" where
  "controller_ok controller delivered \<longleftrightarrow>
     oc_expected_sequence controller = word_of_nat (length delivered) \<and>
     oc_expected_frame_offset controller = word_of_nat (frames_delivered delivered) \<and>
     oc_accepted_frames controller = word_of_nat (frames_delivered delivered)"

text \<open>A block is preceded by full blocks only, so its offset and number are the ones that the controller expects.\<close>

lemma block_frames: "n \<le> 240 \<Longrightarrow> unat (pv_valid_frames (block_of stream i n flags)) = n"
  unfolding block_of_def pcm_view.simps by (rule unat_of_nat_u16) simp

lemma full_frames: "frames_delivered (map (\<lambda>i. block_of stream i 240 0) [0..<n]) = 240 * n"
  by (induction n) (simp_all add: frames_delivered_def block_frames)

lemma next_block:
  assumes "delivered @ view # rest = blocks_of final stream"
  shows "pv_frame_offset view = word_of_nat (frames_delivered delivered)" "pv_sequence view = word_of_nat (length delivered)"
    and "(pv_valid_frames view = 240 \<and> pv_flags view = 0) \<or>
      (0 < pv_valid_frames view \<and> pv_valid_frames view < 240 \<and> pv_flags view = PCM_RING_FLAG_FINAL_PARTIAL)"
proof -
  let ?n = "frames_of stream div 240" and ?m = "frames_of stream mod 240" and ?k = "length delivered"
  let ?full = "map (\<lambda>i. block_of stream i 240 0) [0..<?n]"
  have view: "view = blocks_of final stream ! ?k" and delivered: "delivered = take ?k (blocks_of final stream)"
    using arg_cong [OF assms, of "\<lambda>xs. xs ! ?k"] arg_cong [OF assms, of "take ?k"] by simp_all
  have bound: "?k < length (blocks_of final stream)" using arg_cong [OF assms, of length] by simp
  have "?k \<le> ?n" using bound by (auto simp: blocks_of_def split: if_splits)
  then have "delivered = map (\<lambda>i. block_of stream i 240 0) [0..<?k]"
    using delivered by (simp add: blocks_of_def take_map)
  then have fd: "frames_delivered delivered = 240 * ?k" using full_frames by metis
  obtain n flags where b: "view = block_of stream ?k n flags"
    "n = 240 \<and> flags = 0 \<or> n = ?m \<and> ?m \<noteq> 0 \<and> flags = PCM_RING_FLAG_FINAL_PARTIAL"
  proof (cases "?k < ?n")
    case True
    then have "view = block_of stream ?k 240 0" using view by (simp add: blocks_of_def nth_append)
    then show ?thesis using that by blast
  next
    case False
    then have "?k = ?n" "?m \<noteq> 0" "final" using \<open>?k \<le> ?n\<close> bound by (auto simp: blocks_of_def split: if_splits)
    then have "view = block_of stream ?k ?m PCM_RING_FLAG_FINAL_PARTIAL" using view by (simp add: blocks_of_def nth_append)
    then show ?thesis using that \<open>?m \<noteq> 0\<close> by blast
  qed
  show "pv_frame_offset view = word_of_nat (frames_delivered delivered)" "pv_sequence view = word_of_nat ?k"
    using fd b(1) by (simp_all add: block_of_def)
  have small: "n \<le> 240" "n = ?m \<Longrightarrow> n < 240" using b(2) by auto
  have u: "unat (pv_valid_frames view) = n" unfolding b(1) using small(1) by (rule block_frames)
  have "pv_flags view = flags" using b(1) by (simp add: block_of_def)
  with b(2) u small show "(pv_valid_frames view = 240 \<and> pv_flags view = 0) \<or>
      (0 < pv_valid_frames view \<and> pv_valid_frames view < 240 \<and> pv_flags view = PCM_RING_FLAG_FINAL_PARTIAL)"
    by (auto simp: word_less_nat_alt word_unat_eq_iff)
qed

lemma next_slot_valid:
  assumes "pcm_ring_ok ring stream delivered" "controller_ok controller delivered" "pcm_ring_list ring = slot # rest"
  shows "slot_valid controller slot"
proof -
  have "delivered @ slot_view slot # map slot_view rest = blocks_of (pr_finalized ring) stream"
    using assms(1,3) by (simp add: pcm_ring_ok_def)
  note b = next_block [OF this]
  show ?thesis using b assms(2)
    by (auto simp: slot_valid_def controller_ok_def slot_view_def PCM_RING_QUANTUM_FRAMES_def Let_def)
qed

definition audio_world_ok :: "'s audio_world \<Rightarrow> bool" where
  "audio_world_ok w \<longleftrightarrow> pcm_ring_ok (aw_ring w) (aw_stream w) (aw_delivered w) \<and> controller_ok (aw_controller w) (aw_delivered w) \<and>
     OUTPUT_SLOT_ERROR \<notin> set (aw_statuses w) \<and> OUTPUT_RING_ERROR \<notin> set (aw_statuses w)"

lemma controller_ok_state [simp]: "controller_ok (controller\<lparr>oc_state := state\<rparr>) delivered = controller_ok controller delivered"
  by (simp add: controller_ok_def)

lemma translate_result_ok:
  "translate_result controller result = (status, controller') \<Longrightarrow>
   (\<exists>state. controller' = controller\<lparr>oc_state := state\<rparr>) \<and> status \<notin> {OUTPUT_SLOT_ERROR, OUTPUT_RING_ERROR}"
  by (auto simp: translate_result_def split: if_splits intro: exI [of _ "oc_state controller"])

text \<open>Starting, finishing and aborting change the state of the controller only.\<close>

definition control_only :: "output_controller \<Rightarrow> output_status \<times> output_controller \<times> 's \<Rightarrow> bool" where
  "control_only controller reply \<longleftrightarrow> (\<exists>state. fst (snd reply) = controller\<lparr>oc_state := state\<rparr>) \<and>
     fst reply \<notin> {OUTPUT_SLOT_ERROR, OUTPUT_RING_ERROR}"

lemma control_only_unchanged: "status \<notin> {OUTPUT_SLOT_ERROR, OUTPUT_RING_ERROR} \<Longrightarrow> control_only controller (status, controller, opaque)"
  by (auto simp: control_only_def intro: exI [of _ "oc_state controller"])

lemma control_only_translated:
  assumes "translate_result controller result = (status, controller')"
  shows "control_only controller (status, controller', opaque)"
    and "control_only controller (status, controller'\<lparr>oc_state := state\<rparr>, opaque)"
  using translate_result_ok [OF assms] by (auto simp: control_only_def)

lemma control_calls_ok:
  "control_only controller (pcm_output_start sink controller opaque)"
  "control_only controller (pcm_output_finish sink controller ring opaque)"
  "control_only controller (pcm_output_abort sink controller opaque)"
  by (auto simp: pcm_output_start_def pcm_output_finish_def pcm_output_abort_def intro!: control_only_unchanged
      intro: control_only_translated split: prod.split)

lemma pcm_output_step_ok:
  assumes ok: "pcm_ring_ok ring stream delivered" "controller_ok controller delivered"
    and run: "pcm_output_step sink controller ring opaque = (status, controller', ring', opaque')"
  shows "status \<notin> {OUTPUT_SLOT_ERROR, OUTPUT_RING_ERROR} \<and>
    (let delivered' = delivered @ (if status = OUTPUT_CONSUMED then map slot_view (take 1 (pcm_ring_list ring)) else [])
     in pcm_ring_ok ring' stream delivered' \<and> controller_ok controller' delivered')"
proof (cases "oc_state controller = OUTPUT_STARTED \<and> pr_head ring \<noteq> pr_tail ring")
  case False
  then have "status \<in> {OUTPUT_STATE_ERROR, OUTPUT_EMPTY} \<and> controller' = controller \<and> ring' = ring"
    using run pcm_ring_consume_ok [OF ok(1)] by (auto simp: pcm_output_step_def split: if_splits)
  then show ?thesis using ok by auto
next
  case True
  from pcm_ring_consume_ok [OF ok(1)] True obtain slot ring1 rest where
    calls: "pcm_ring_try_peek ring = (PCM_RING_OK, Some slot)" "pcm_ring_consume ring = (PCM_RING_OK, ring1)"
      "pcm_ring_list ring = slot # rest" "pcm_ring_ok ring1 stream (delivered @ [slot_view slot])" by auto
  have valid: "slot_valid controller slot" using ok calls(3) by (rule next_slot_valid)
  define view where "view = \<lparr>pv_pcm = ps_pcm slot, pv_frame_offset = ps_frame_offset slot, pv_sequence = ps_sequence slot,
    pv_valid_frames = ps_valid_frames slot, pv_flags = ps_flags slot\<rparr>"
  obtain result opaque1 where submit: "sk_submit sink view opaque = (result, opaque1)" by (metis surj_pair)
  have cases: "status \<in> {OUTPUT_FATAL, OUTPUT_RETRY} \<and> ring' = ring \<and> (\<exists>state. controller' = controller\<lparr>oc_state := state\<rparr>) \<or>
      status = OUTPUT_CONSUMED \<and> ring' = ring1 \<and>
      oc_expected_frame_offset controller' = oc_expected_frame_offset controller + ucast (ps_valid_frames slot) \<and>
      oc_accepted_frames controller' = oc_accepted_frames controller + ucast (ps_valid_frames slot) \<and>
      oc_expected_sequence controller' = oc_expected_sequence controller + 1"
    using run True calls(1,2) valid submit [unfolded view_def]
    by (auto simp: pcm_output_step_def Let_def split: if_splits intro: exI [of _ "oc_state controller"])
  have frames: "(word_of_nat (frames_delivered (delivered @ [slot_view slot])) :: u64) =
      word_of_nat (frames_delivered delivered) + ucast (ps_valid_frames slot)"
    by (simp add: frames_delivered_def slot_view_def unsigned_ucast_eq)
  from cases show ?thesis
  proof (elim disjE conjE exE)
    assume "status = OUTPUT_CONSUMED" "ring' = ring1"
      and c: "oc_expected_frame_offset controller' = oc_expected_frame_offset controller + ucast (ps_valid_frames slot)"
        "oc_accepted_frames controller' = oc_accepted_frames controller + ucast (ps_valid_frames slot)"
        "oc_expected_sequence controller' = oc_expected_sequence controller + 1"
    moreover have "controller_ok controller' (delivered @ [slot_view slot])"
      using ok(2) c frames by (simp add: controller_ok_def add.commute)
    ultimately show ?thesis using calls(3,4) by simp
  qed (use ok in auto)
qed

lemma audio_step_ok:
  assumes "audio_world_ok w" "case call of Produce c \<Rightarrow> pcm_call_sized c | _ \<Rightarrow> True"
  shows "audio_world_ok (audio_step sink call w)"
proof -
  note ok = assms(1) [unfolded audio_world_ok_def]
  show ?thesis
  proof (cases call)
    case (Produce c)
    then show ?thesis
    proof (cases c)
      case (Append pcm frame_count frame_offset)
      obtain status consumed ring where
        run: "pcm_ring_append (aw_ring w) (Some pcm) frame_count frame_offset = (status, consumed, ring)" by (metis surj_pair)
      show ?thesis using pcm_ring_append_ok [OF _ _ run] ok assms(2) Produce Append run
        by (simp add: audio_world_ok_def pcm_call_sized_def)
    next
      case (Finish final_frame)
      obtain status ring where run: "pcm_ring_finish (aw_ring w) final_frame = (status, ring)" by (metis surj_pair)
      show ?thesis using pcm_ring_finish_ok [OF _ run] ok Produce Finish run by (simp add: audio_world_ok_def)
    qed (use assms in simp)
  next
    case Output_Step
    obtain status controller ring opaque where
      run: "pcm_output_step sink (aw_controller w) (aw_ring w) (aw_opaque w) = (status, controller, ring, opaque)"
      by (metis surj_pair)
    show ?thesis using pcm_output_step_ok [OF _ _ run] ok Output_Step run by (auto simp: audio_world_ok_def Let_def)
  next
    case Output_Start
    obtain status controller opaque where
      run: "pcm_output_start sink (aw_controller w) (aw_opaque w) = (status, controller, opaque)" by (metis surj_pair)
    show ?thesis using control_calls_ok(1) [of "aw_controller w" sink "aw_opaque w"] ok Output_Start run
      by (auto simp: audio_world_ok_def control_only_def)
  next
    case Output_Finish
    obtain status controller opaque where
      run: "pcm_output_finish sink (aw_controller w) (aw_ring w) (aw_opaque w) = (status, controller, opaque)" by (metis surj_pair)
    show ?thesis using control_calls_ok(2) [of "aw_controller w" sink "aw_ring w" "aw_opaque w"] ok Output_Finish run
      by (auto simp: audio_world_ok_def control_only_def)
  next
    case Output_Abort
    obtain status controller opaque where
      run: "pcm_output_abort sink (aw_controller w) (aw_opaque w) = (status, controller, opaque)" by (metis surj_pair)
    show ?thesis using control_calls_ok(3) [of "aw_controller w" sink "aw_opaque w"] ok Output_Abort run
      by (auto simp: audio_world_ok_def control_only_def)
  qed
qed


definition sink_demo :: "nat pcm_sink" where
  "sink_demo = \<lparr>sk_start = \<lambda>n. (SINK_ACCEPTED, n), sk_submit = \<lambda>view n. (if n = 0 then SINK_RETRY else SINK_ACCEPTED, n + 1),
     sk_finish = \<lambda>n. (SINK_ACCEPTED, n), sk_abort = \<lambda>n. (SINK_ACCEPTED, n)\<rparr>"


end
