(* ===== verification/Runtime_Lifecycle.thy ===== *)
theory Runtime_Lifecycle
  imports Prelude
begin

section \<open>Lifecycle of the emulator runtime (np2runtime/np2runtime_lifecycle.cpp)\<close>

text \<open>
  Any number of tasks call the lifecycle at the same time: the owner initialises, runs and cleans up; others
  request a stop or report a failure. Two atomic words are shared, the state and the terminal outcome. A call is a small machine
  that makes one atomic access per step, with its local variables in its program counter; a schedule
  starts calls and lets them step in any order. A weak compare-and-exchange may fail for no reason, which the schedule decides.
\<close>

datatype run_state = Created | Initializing | Ready | Running | StopRequested | Stopping | Stopped | Failed

datatype stop_reason = Reason_None | Reason_External | Reason_Fatal

datatype terminal_outcome = OpenNone | OpenExternal | FatalPending | FinalizedStoppedNone | FinalizedStoppedExternal
  | FinalizedFailed

record lifecycle =
  lc_state :: run_state
  lc_outcome :: terminal_outcome

definition lifecycle_new :: lifecycle where
  "lifecycle_new = \<lparr>lc_state = Created, lc_outcome = OpenNone\<rparr>"

definition lifecycle_stop_reason :: "lifecycle \<Rightarrow> stop_reason" where
  "lifecycle_stop_reason lc = (case lc_outcome lc of
       OpenExternal \<Rightarrow> Reason_External
     | FinalizedStoppedExternal \<Rightarrow> Reason_External
     | FatalPending \<Rightarrow> Reason_Fatal
     | FinalizedFailed \<Rightarrow> Reason_Fatal
     | OpenNone \<Rightarrow> Reason_None
     | FinalizedStoppedNone \<Rightarrow> Reason_None)"

definition lifecycle_failure :: "lifecycle \<Rightarrow> bool" where
  "lifecycle_failure lc \<longleftrightarrow> lc_outcome lc = FatalPending \<or> lc_outcome lc = FinalizedFailed"

definition lifecycle_stop_requested :: "lifecycle \<Rightarrow> bool" where
  "lifecycle_stop_requested lc \<longleftrightarrow> lc_state lc = StopRequested \<or> lc_state lc = Stopping \<or> lc_state lc = Stopped \<or> lc_state lc = Failed"

definition active_state :: "run_state \<Rightarrow> bool" where
  "active_state current \<longleftrightarrow> current = Created \<or> current = Initializing \<or> current = Ready \<or> current = Running \<or>
     current = StopRequested"

subsection \<open>Calls as step machines\<close>

text \<open>Where a call stands. \<open>Returned\<close> keeps the operation and its result.\<close>

datatype operation = Begin_Initialization | Complete_Initialization | Begin_Running | Request_Stop | Mark_Failure
  | Begin_Stopping | Finish_Cleanup

datatype call =
    Entered operation
  | RS_loop run_state
  | RS_claim run_state terminal_outcome
  | RS_exchange run_state
  | MF_claim terminal_outcome
  | MF_claimed
  | MF_loop run_state
  | BS_loop run_state
  | FC_stopping
  | FC_loop terminal_outcome
  | FC_publish run_state
  | Returned operation bool

definition cas_state :: "run_state \<Rightarrow> run_state \<Rightarrow> lifecycle \<Rightarrow> bool \<times> lifecycle" where
  "cas_state expected desired lc =
     (if lc_state lc = expected then (True, lc\<lparr>lc_state := desired\<rparr>) else (False, lc))"

text \<open>The three operations that are a single strong exchange.\<close>

definition exchange_once :: "operation \<Rightarrow> run_state \<Rightarrow> run_state \<Rightarrow> lifecycle \<Rightarrow> lifecycle \<times> call" where
  "exchange_once op expected desired lc = (let (result, lc) = cas_state expected desired lc in (lc, Returned op result))"

definition begin_initialization :: "lifecycle \<Rightarrow> lifecycle \<times> call" where
  "begin_initialization = exchange_once Begin_Initialization Created Initializing"

definition complete_initialization :: "lifecycle \<Rightarrow> lifecycle \<times> call" where
  "complete_initialization = exchange_once Complete_Initialization Initializing Ready"

definition begin_running :: "lifecycle \<Rightarrow> lifecycle \<times> call" where
  "begin_running = exchange_once Begin_Running Ready Running"

text \<open>\<open>spurious\<close> makes a weak exchange fail although the word has the expected value.\<close>

definition request_stop_test :: "run_state \<Rightarrow> lifecycle \<Rightarrow> lifecycle \<times> call" where
  "request_stop_test current lc =
     (if current = Stopped \<or> current = Failed \<or> current = Stopping then (lc, Returned Request_Stop False)
      else if current = StopRequested then (lc, Returned Request_Stop True)
      else if \<not> active_state current then (lc, Returned Request_Stop False)
      else (lc, RS_claim current OpenNone))"

definition claim_external_stop_step :: "bool \<Rightarrow> run_state \<Rightarrow> terminal_outcome \<Rightarrow> lifecycle \<Rightarrow> lifecycle \<times> call" where
  "claim_external_stop_step spurious current expected lc =
     (if expected = OpenExternal then (lc, RS_exchange current)
      else if expected \<noteq> OpenNone then (lc, RS_exchange current)
      else if lc_outcome lc = expected \<and> \<not> spurious then (lc\<lparr>lc_outcome := OpenExternal\<rparr>, RS_exchange current)
      else (lc, RS_claim current (lc_outcome lc)))"

definition request_stop_exchange :: "bool \<Rightarrow> run_state \<Rightarrow> lifecycle \<Rightarrow> lifecycle \<times> call" where
  "request_stop_exchange spurious current lc =
     (if lc_state lc = current \<and> \<not> spurious then (lc\<lparr>lc_state := StopRequested\<rparr>, Returned Request_Stop True)
      else (lc, RS_loop (lc_state lc)))"

definition claim_fatal_step :: "bool \<Rightarrow> terminal_outcome \<Rightarrow> lifecycle \<Rightarrow> lifecycle \<times> call" where
  "claim_fatal_step spurious expected lc =
     (if expected = FatalPending then (lc, MF_claimed)
      else if expected \<noteq> OpenNone \<and> expected \<noteq> OpenExternal then (lc, Returned Mark_Failure False)
      else if lc_outcome lc = expected \<and> \<not> spurious then (lc\<lparr>lc_outcome := FatalPending\<rparr>, MF_claimed)
      else (lc, MF_claim (lc_outcome lc)))"

definition mark_failure_step :: "bool \<Rightarrow> run_state \<Rightarrow> lifecycle \<Rightarrow> lifecycle \<times> call" where
  "mark_failure_step spurious current lc =
     (if current = Stopped \<or> current = Failed then (lc, Returned Mark_Failure True)
      else if current = Stopping \<or> current = StopRequested then (lc, Returned Mark_Failure True)
      else if \<not> active_state current then (lc, Returned Mark_Failure False)
      else if lc_state lc = current \<and> \<not> spurious then (lc\<lparr>lc_state := StopRequested\<rparr>, Returned Mark_Failure True)
      else (lc, MF_loop (lc_state lc)))"

definition begin_stopping_step :: "bool \<Rightarrow> run_state \<Rightarrow> lifecycle \<Rightarrow> lifecycle \<times> call" where
  "begin_stopping_step spurious current lc =
     (if current = Stopping then (lc, Returned Begin_Stopping True)
      else if current = Stopped \<or> current = Failed \<or> \<not> active_state current then (lc, Returned Begin_Stopping False)
      else if lc_state lc = current \<and> \<not> spurious then (lc\<lparr>lc_state := Stopping\<rparr>, Returned Begin_Stopping True)
      else (lc, BS_loop (lc_state lc)))"

fun terminal_choice :: "terminal_outcome \<Rightarrow> (terminal_outcome \<times> run_state) option" where
  "terminal_choice OpenNone = Some (FinalizedStoppedNone, Stopped)"
| "terminal_choice OpenExternal = Some (FinalizedStoppedExternal, Stopped)"
| "terminal_choice FatalPending = Some (FinalizedFailed, Failed)"
| "terminal_choice FinalizedStoppedNone = None"
| "terminal_choice FinalizedStoppedExternal = None"
| "terminal_choice FinalizedFailed = None"

definition finish_cleanup_step :: "bool \<Rightarrow> terminal_outcome \<Rightarrow> lifecycle \<Rightarrow> lifecycle \<times> call" where
  "finish_cleanup_step spurious expected lc =
     (case terminal_choice expected of
        None \<Rightarrow> (lc, Returned Finish_Cleanup False)
      | Some (desired, final_state) \<Rightarrow>
          if lc_outcome lc = expected \<and> \<not> spurious then (lc\<lparr>lc_outcome := desired\<rparr>, FC_publish final_state)
          else (lc, FC_loop (lc_outcome lc)))"

fun call_step :: "bool \<Rightarrow> call \<Rightarrow> lifecycle \<Rightarrow> lifecycle \<times> call" where
  "call_step spurious (Entered Begin_Initialization) lc = begin_initialization lc"
| "call_step spurious (Entered Complete_Initialization) lc = complete_initialization lc"
| "call_step spurious (Entered Begin_Running) lc = begin_running lc"
| "call_step spurious (Entered Request_Stop) lc = (lc, RS_loop (lc_state lc))"
| "call_step spurious (RS_loop current) lc = request_stop_test current lc"
| "call_step spurious (RS_claim current expected) lc = claim_external_stop_step spurious current expected lc"
| "call_step spurious (RS_exchange current) lc = request_stop_exchange spurious current lc"
| "call_step spurious (Entered Mark_Failure) lc = (lc, MF_claim (lc_outcome lc))"
| "call_step spurious (MF_claim expected) lc = claim_fatal_step spurious expected lc"
| "call_step spurious MF_claimed lc = (lc, MF_loop (lc_state lc))"
| "call_step spurious (MF_loop current) lc = mark_failure_step spurious current lc"
| "call_step spurious (Entered Begin_Stopping) lc = (lc, BS_loop (lc_state lc))"
| "call_step spurious (BS_loop current) lc = begin_stopping_step spurious current lc"
| "call_step spurious (Entered Finish_Cleanup) lc =
     (if lc_state lc \<noteq> Stopping then (lc, Returned Finish_Cleanup False) else (lc, FC_stopping))"
| "call_step spurious FC_stopping lc = (lc, FC_loop (lc_outcome lc))"
| "call_step spurious (FC_loop expected) lc = finish_cleanup_step spurious expected lc"
| "call_step spurious (FC_publish final_state) lc =
     (let (result, lc) = cas_state Stopping final_state lc in (lc, Returned Finish_Cleanup result))"
| "call_step spurious (Returned op result) lc = (lc, Returned op result)"

subsection \<open>Schedules\<close>

datatype event = Start operation | Step nat bool

record runtime_world =
  lw_lifecycle :: lifecycle
  lw_calls :: "call list"

fun runtime_step :: "event \<Rightarrow> runtime_world \<Rightarrow> runtime_world" where
  "runtime_step (Start op) w = w\<lparr>lw_calls := lw_calls w @ [Entered op]\<rparr>"
| "runtime_step (Step i spurious) w =
     (if i < length (lw_calls w)
      then let (lc, call) = call_step spurious (lw_calls w ! i) (lw_lifecycle w)
           in w\<lparr>lw_lifecycle := lc, lw_calls := (lw_calls w)[i := call]\<rparr>
      else w)"

definition runtime_start :: runtime_world where
  "runtime_start = \<lparr>lw_lifecycle = lifecycle_new, lw_calls = []\<rparr>"

definition runtime_run :: "event list \<Rightarrow> runtime_world" where
  "runtime_run schedule = fold runtime_step schedule runtime_start"

subsection \<open>Invariant\<close>

definition past_stopping :: "run_state \<Rightarrow> bool" where
  "past_stopping s \<longleftrightarrow> s = Stopping \<or> s = Stopped \<or> s = Failed"

fun final_state_of :: "terminal_outcome \<Rightarrow> run_state option" where
  "final_state_of FinalizedStoppedNone = Some Stopped"
| "final_state_of FinalizedStoppedExternal = Some Stopped"
| "final_state_of FinalizedFailed = Some Failed"
| "final_state_of _ = None"

definition asked_to_stop :: "run_state \<Rightarrow> bool" where
  "asked_to_stop s \<longleftrightarrow> s = StopRequested \<or> past_stopping s"

text \<open>What holds of a call at each step, given the shared words. It stays true whatever other calls do.\<close>

definition result_ok :: "lifecycle \<Rightarrow> operation \<Rightarrow> bool" where
  "result_ok lc op = (case op of
       Mark_Failure \<Rightarrow> lifecycle_failure lc \<and> asked_to_stop (lc_state lc)
     | Request_Stop \<Rightarrow> asked_to_stop (lc_state lc)
     | Begin_Stopping \<Rightarrow> past_stopping (lc_state lc)
     | Finish_Cleanup \<Rightarrow> final_state_of (lc_outcome lc) = Some (lc_state lc)
     | _ \<Rightarrow> True)"

definition call_ok :: "lifecycle \<Rightarrow> call \<Rightarrow> bool" where
  "call_ok lc call = (case call of
       FC_stopping \<Rightarrow> past_stopping (lc_state lc)
     | FC_loop expected \<Rightarrow> past_stopping (lc_state lc)
     | FC_publish final_state \<Rightarrow> final_state_of (lc_outcome lc) = Some final_state
     | MF_claimed \<Rightarrow> lifecycle_failure lc
     | MF_claim expected \<Rightarrow> expected = FatalPending \<longrightarrow> lifecycle_failure lc
     | MF_loop current \<Rightarrow> lifecycle_failure lc \<and> (asked_to_stop current \<longrightarrow> asked_to_stop (lc_state lc))
     | RS_claim current expected \<Rightarrow> active_state current
     | RS_exchange current \<Rightarrow> active_state current
     | RS_loop current \<Rightarrow> asked_to_stop current \<longrightarrow> asked_to_stop (lc_state lc)
     | BS_loop current \<Rightarrow> past_stopping current \<longrightarrow> past_stopping (lc_state lc)
     | Returned op result \<Rightarrow> result \<longrightarrow> result_ok lc op
     | _ \<Rightarrow> True)"

definition is_publish :: "call \<Rightarrow> bool" where
  "is_publish call = (case call of FC_publish _ \<Rightarrow> True | _ \<Rightarrow> False)"

text \<open>Before the outcome is final nothing publishes; afterwards one call does, until the final state is there.\<close>

definition outcome_ok :: "lifecycle \<Rightarrow> call list \<Rightarrow> bool" where
  "outcome_ok lc calls = (case final_state_of (lc_outcome lc) of
       None \<Rightarrow> lc_state lc \<noteq> Stopped \<and> lc_state lc \<noteq> Failed \<and> filter is_publish calls = []
     | Some f \<Rightarrow> if lc_state lc = f then filter is_publish calls = []
                 else lc_state lc = Stopping \<and> filter is_publish calls = [FC_publish f])"

definition runtime_ok :: "runtime_world \<Rightarrow> bool" where
  "runtime_ok w \<longleftrightarrow> (\<forall>call\<in>set (lw_calls w). call_ok (lw_lifecycle w) call) \<and> outcome_ok (lw_lifecycle w) (lw_calls w)"

text \<open>How the shared words may move; the calls' claims survive each such move.\<close>

definition may_become :: "lifecycle \<Rightarrow> lifecycle \<Rightarrow> bool" where
  "may_become lc lc' \<longleftrightarrow>
     (past_stopping (lc_state lc) \<longrightarrow> past_stopping (lc_state lc')) \<and>
     (asked_to_stop (lc_state lc) \<longrightarrow> asked_to_stop (lc_state lc')) \<and>
     (lifecycle_failure lc \<longrightarrow> lifecycle_failure lc') \<and>
     (\<forall>f. final_state_of (lc_outcome lc) = Some f \<longrightarrow> lc_outcome lc' = lc_outcome lc \<and> (lc_state lc = f \<longrightarrow> lc_state lc' = f))"

lemma result_ok_survives: "result_ok lc op \<Longrightarrow> may_become lc lc' \<Longrightarrow> result_ok lc' op"
  by (cases op) (auto simp: result_ok_def may_become_def)

lemma call_ok_survives: "call_ok lc call \<Longrightarrow> may_become lc lc' \<Longrightarrow> call_ok lc' call"
  by (cases call) (auto simp: call_ok_def may_become_def result_ok_survives)

lemma may_become_refl: "may_become lc lc"
  by (simp add: may_become_def)

lemma may_become_state:
  assumes "final_state_of (lc_outcome lc) = None \<or> (\<exists>f. final_state_of (lc_outcome lc) = Some f \<and> lc_state lc \<noteq> f)"
    and "past_stopping (lc_state lc) \<Longrightarrow> past_stopping s" "asked_to_stop (lc_state lc) \<Longrightarrow> asked_to_stop s"
  shows "may_become lc (lc\<lparr>lc_state := s\<rparr>)"
  using assms by (auto simp: may_become_def lifecycle_failure_def)

lemma may_become_outcome:
  assumes "final_state_of (lc_outcome lc) = None" "lifecycle_failure lc \<Longrightarrow> lifecycle_failure (lc\<lparr>lc_outcome := x\<rparr>)"
  shows "may_become lc (lc\<lparr>lc_outcome := x\<rparr>)"
  using assms by (auto simp: may_become_def)

text \<open>While the state is active the outcome is open.\<close>

lemma active_open: "outcome_ok lc calls \<Longrightarrow> active_state (lc_state lc) \<Longrightarrow> final_state_of (lc_outcome lc) = None"
  by (cases "lc_outcome lc") (auto simp: outcome_ok_def active_state_def)

lemma active_cases: "active_state s \<or> past_stopping s"
  by (cases s) (auto simp: active_state_def past_stopping_def)

lemmas call_defs = begin_initialization_def complete_initialization_def begin_running_def exchange_once_def cas_state_def
  request_stop_test_def claim_external_stop_step_def request_stop_exchange_def claim_fatal_step_def mark_failure_step_def
  begin_stopping_step_def finish_cleanup_step_def

lemma outcome_ok_state:
  assumes "outcome_ok lc calls" "active_state (lc_state lc)" "s \<noteq> Stopped" "s \<noteq> Failed"
  shows "outcome_ok (lc\<lparr>lc_state := s\<rparr>) calls"
  using active_open [OF assms(1,2)] assms by (simp add: outcome_ok_def)

lemma outcome_ok_outcome:
  "outcome_ok lc calls \<Longrightarrow> final_state_of (lc_outcome lc) = None \<Longrightarrow> final_state_of x = None \<Longrightarrow>
   outcome_ok (lc\<lparr>lc_outcome := x\<rparr>) calls"
  by (simp add: outcome_ok_def)

text \<open>A step that moves the state on from an active one, or the outcome between open ones.\<close>

definition calm :: "call list \<Rightarrow> lifecycle \<Rightarrow> lifecycle \<times> call \<Rightarrow> bool" where
  "calm calls lc next = (case next of (lc', call') \<Rightarrow>
     may_become lc lc' \<and> call_ok lc' call' \<and> outcome_ok lc' calls \<and> \<not> is_publish call')"

lemma calm_unchanged: "outcome_ok lc calls \<Longrightarrow> call_ok lc call' \<Longrightarrow> \<not> is_publish call' \<Longrightarrow> calm calls lc (lc, call')"
  by (simp add: calm_def may_become_refl)

lemma calm_state:
  assumes "outcome_ok lc calls" "active_state (lc_state lc)" "s \<noteq> Stopped" "s \<noteq> Failed"
    and "asked_to_stop (lc_state lc) \<Longrightarrow> asked_to_stop s" "call_ok (lc\<lparr>lc_state := s\<rparr>) call'" "\<not> is_publish call'"
  shows "calm calls lc (lc\<lparr>lc_state := s\<rparr>, call')"
proof -
  have "\<not> past_stopping (lc_state lc)" using assms(2) by (auto simp: active_state_def past_stopping_def)
  then have "may_become lc (lc\<lparr>lc_state := s\<rparr>)" using active_open [OF assms(1,2)] assms(5) by (intro may_become_state) auto
  then show ?thesis using assms outcome_ok_state [OF assms(1-4)] by (simp add: calm_def)
qed

lemma calm_outcome:
  assumes "outcome_ok lc calls" "final_state_of (lc_outcome lc) = None" "final_state_of x = None"
    and "lifecycle_failure lc \<Longrightarrow> lifecycle_failure (lc\<lparr>lc_outcome := x\<rparr>)" "call_ok (lc\<lparr>lc_outcome := x\<rparr>) call'" "\<not> is_publish call'"
  shows "calm calls lc (lc\<lparr>lc_outcome := x\<rparr>, call')"
  using assms may_become_outcome [of lc x] outcome_ok_outcome [of lc calls x] by (simp add: calm_def)

lemma exchange_once_calm:
  assumes "outcome_ok lc calls" "expected \<noteq> StopRequested" "active_state expected" "active_state desired"
    "op \<in> {Begin_Initialization, Complete_Initialization, Begin_Running}"
  shows "calm calls lc (exchange_once op expected desired lc)"
proof (cases "lc_state lc = expected")
  case True
  have "calm calls lc (lc\<lparr>lc_state := desired\<rparr>, Returned op True)"
    using assms True
    by (intro calm_state) (auto simp: active_state_def asked_to_stop_def past_stopping_def call_ok_def result_ok_def is_publish_def)
  then show ?thesis using True by (simp add: exchange_once_def cas_state_def)
next
  case False
  then show ?thesis using assms(1) calm_unchanged [of lc calls "Returned op False"]
    by (simp add: exchange_once_def cas_state_def call_ok_def is_publish_def)
qed

lemma request_stop_calm:
  assumes "outcome_ok lc calls"
  shows "call_ok lc (RS_loop current) \<Longrightarrow> calm calls lc (request_stop_test current lc)"
    and "call_ok lc (RS_claim current expected) \<Longrightarrow> calm calls lc (claim_external_stop_step spurious current expected lc)"
    and "call_ok lc (RS_exchange current) \<Longrightarrow> calm calls lc (request_stop_exchange spurious current lc)"
proof -
  show "calm calls lc (request_stop_test current lc)" if "call_ok lc (RS_loop current)"
    using assms that by (cases current) (auto simp: request_stop_test_def intro!: calm_unchanged
        simp: call_ok_def result_ok_def is_publish_def asked_to_stop_def active_state_def)
  show "calm calls lc (claim_external_stop_step spurious current expected lc)" if "call_ok lc (RS_claim current expected)"
    using assms that by (auto simp: claim_external_stop_step_def intro!: calm_unchanged calm_outcome
        simp: call_ok_def is_publish_def lifecycle_failure_def)
  show "calm calls lc (request_stop_exchange spurious current lc)" if "call_ok lc (RS_exchange current)"
    using assms that by (auto simp: request_stop_exchange_def intro!: calm_unchanged calm_state
        simp: call_ok_def result_ok_def is_publish_def asked_to_stop_def)
qed

lemma claim_fatal_calm:
  assumes "outcome_ok lc calls" "call_ok lc (MF_claim expected)"
  shows "calm calls lc (claim_fatal_step spurious expected lc)"
  using assms by (auto simp: claim_fatal_step_def intro!: calm_unchanged calm_outcome
      simp: call_ok_def is_publish_def lifecycle_failure_def)

lemma stop_moves_calm:
  assumes "outcome_ok lc calls" "active_state (lc_state lc)" "s = StopRequested \<or> s = Stopping"
    and "call_ok (lc\<lparr>lc_state := s\<rparr>) call'" "\<not> is_publish call'"
  shows "calm calls lc (lc\<lparr>lc_state := s\<rparr>, call')"
  using assms by (intro calm_state) (auto simp: asked_to_stop_def past_stopping_def)

lemma mark_failure_calm:
  assumes "outcome_ok lc calls" "call_ok lc (MF_loop current)"
  shows "calm calls lc (mark_failure_step spurious current lc)"
proof (cases "asked_to_stop current")
  case True
  then have "mark_failure_step spurious current lc = (lc, Returned Mark_Failure True)"
    by (cases current) (simp_all add: mark_failure_step_def asked_to_stop_def past_stopping_def)
  then show ?thesis using assms True by (auto intro!: calm_unchanged simp: call_ok_def result_ok_def is_publish_def)
next
  case False
  then have "active_state current" using active_cases by (auto simp: asked_to_stop_def)
  then have step: "mark_failure_step spurious current lc =
      (if lc_state lc = current \<and> \<not> spurious then (lc\<lparr>lc_state := StopRequested\<rparr>, Returned Mark_Failure True)
       else (lc, MF_loop (lc_state lc)))"
    using False by (cases current) (simp_all add: mark_failure_step_def asked_to_stop_def past_stopping_def active_state_def)
  show ?thesis
  proof (cases "lc_state lc = current \<and> \<not> spurious")
    case True
    have "call_ok (lc\<lparr>lc_state := StopRequested\<rparr>) (Returned Mark_Failure True)"
      using assms(2) by (simp add: call_ok_def result_ok_def asked_to_stop_def lifecycle_failure_def)
    then show ?thesis unfolding step using True \<open>active_state current\<close>
      by (simp only: if_True simp_thms) (rule stop_moves_calm [OF assms(1)], simp_all add: is_publish_def)
  next
    case False
    have "calm calls lc (lc, MF_loop (lc_state lc))"
      using assms by (intro calm_unchanged) (simp_all add: call_ok_def is_publish_def)
    then show ?thesis unfolding step using False by (simp only: if_False)
  qed
qed

lemma begin_stopping_calm:
  assumes "outcome_ok lc calls" "call_ok lc (BS_loop current)"
  shows "calm calls lc (begin_stopping_step spurious current lc)"
proof (cases "active_state current")
  case False
  then have "past_stopping current" using active_cases by blast
  then have "begin_stopping_step spurious current lc = (lc, Returned Begin_Stopping (current = Stopping))"
    by (cases current) (simp_all add: begin_stopping_step_def past_stopping_def)
  then show ?thesis using assms \<open>past_stopping current\<close>
    by (auto intro!: calm_unchanged simp: call_ok_def result_ok_def is_publish_def)
next
  case True
  then have step: "begin_stopping_step spurious current lc =
      (if lc_state lc = current \<and> \<not> spurious then (lc\<lparr>lc_state := Stopping\<rparr>, Returned Begin_Stopping True)
       else (lc, BS_loop (lc_state lc)))"
    by (cases current) (simp_all add: begin_stopping_step_def active_state_def)
  show ?thesis
  proof (cases "lc_state lc = current \<and> \<not> spurious")
    case moved: True
    have "call_ok (lc\<lparr>lc_state := Stopping\<rparr>) (Returned Begin_Stopping True)"
      by (simp add: call_ok_def result_ok_def past_stopping_def)
    then show ?thesis unfolding step using moved True
      by (simp only: if_True simp_thms) (rule stop_moves_calm [OF assms(1)], simp_all add: is_publish_def)
  next
    case False
    have "calm calls lc (lc, BS_loop (lc_state lc))"
      using assms by (intro calm_unchanged) (simp_all add: call_ok_def is_publish_def)
    then show ?thesis unfolding step using False by (simp only: if_False)
  qed
qed

lemma finish_cleanup_calm:
  assumes "outcome_ok lc calls" "call_ok lc (FC_loop expected)" "\<not> (lc_outcome lc = expected \<and> \<not> spurious \<and> terminal_choice expected \<noteq> None)"
  shows "calm calls lc (finish_cleanup_step spurious expected lc)"
proof (cases "terminal_choice expected")
  case None
  then show ?thesis using assms(1)
    by (auto simp: finish_cleanup_step_def intro!: calm_unchanged simp: call_ok_def is_publish_def)
next
  case (Some choice)
  then have "finish_cleanup_step spurious expected lc = (lc, FC_loop (lc_outcome lc))"
    using assms(3) by (auto simp: finish_cleanup_step_def split: prod.splits)
  then show ?thesis using assms(1,2) by (auto intro!: calm_unchanged simp: call_ok_def is_publish_def)
qed

lemma call_step_calm:
  assumes "outcome_ok lc calls" "call_ok lc call" "\<not> is_publish call"
    and "\<And>expected. call = FC_loop expected \<Longrightarrow> \<not> (lc_outcome lc = expected \<and> \<not> spurious \<and> terminal_choice expected \<noteq> None)"
  shows "calm calls lc (call_step spurious call lc)"
proof (cases call)
  case (Entered op)
  show ?thesis
  proof (cases op)
    case Finish_Cleanup
    then show ?thesis using assms(1) Entered
      by (auto intro!: calm_unchanged simp: call_ok_def is_publish_def past_stopping_def)
  qed (use assms(1) Entered in \<open>auto simp: begin_initialization_def complete_initialization_def begin_running_def active_state_def
      call_ok_def is_publish_def lifecycle_failure_def intro!: exchange_once_calm calm_unchanged\<close>)
next
  case (Returned op result)
  then show ?thesis using assms by (auto intro!: calm_unchanged)
next
  case (FC_loop expected)
  then show ?thesis using finish_cleanup_calm assms by simp
next
  case MF_claimed
  then show ?thesis using assms by (auto intro!: calm_unchanged simp: call_ok_def is_publish_def)
next
  case FC_stopping
  then show ?thesis using assms by (auto intro!: calm_unchanged simp: call_ok_def is_publish_def)
next
  case (FC_publish f)
  then show ?thesis using assms(3) by (simp add: is_publish_def)
qed (use assms(1,2) in \<open>simp_all add: request_stop_calm claim_fatal_calm mark_failure_calm begin_stopping_calm\<close>)

lemma filter_update_same: "\<not> P (xs ! i) \<Longrightarrow> \<not> P y \<Longrightarrow> filter P (xs[i := y]) = filter P xs"
  by (induction xs arbitrary: i) (auto split: nat.splits)

lemma filter_update_first: "i < length xs \<Longrightarrow> filter P xs = [] \<Longrightarrow> P y \<Longrightarrow> filter P (xs[i := y]) = [y]"
  by (induction xs arbitrary: i) (auto split: nat.splits if_splits)

lemma filter_update_last:
  "i < length xs \<Longrightarrow> filter P xs = [x] \<Longrightarrow> P (xs ! i) \<Longrightarrow> \<not> P y \<Longrightarrow> filter P (xs[i := y]) = [] \<and> xs ! i = x"
proof (induction xs arbitrary: i)
  case (Cons z xs)
  show ?case
  proof (cases i)
    case 0
    then show ?thesis using Cons.prems by auto
  next
    case (Suc k)
    then have "P (xs ! k)" "k < length xs" using Cons.prems by simp_all
    then have "filter P xs \<noteq> []" by (auto simp: filter_empty_conv)
    then have "\<not> P z" "filter P xs = [x]" using Cons.prems(2) by (auto split: if_splits)
    then show ?thesis using Cons.IH [of k] Cons.prems Suc by simp
  qed
qed simp

text \<open>The three kinds of step, for the whole list of calls.\<close>

definition step_keeps :: "lifecycle \<Rightarrow> call list \<Rightarrow> nat \<Rightarrow> lifecycle \<times> call \<Rightarrow> bool" where
  "step_keeps lc calls i next = (case next of (lc', call') \<Rightarrow>
     may_become lc lc' \<and> call_ok lc' call' \<and> outcome_ok lc' (calls[i := call']))"

lemma calm_keeps:
  assumes "calm calls lc next" "\<not> is_publish (calls ! i)"
  shows "step_keeps lc calls i next"
  using assms by (auto simp: calm_def step_keeps_def outcome_ok_def filter_update_same split: option.splits)

lemma terminalize_keeps:
  assumes ok: "outcome_ok lc calls" "call_ok lc (FC_loop expected)" "i < length calls"
    and choice: "terminal_choice expected = Some (desired, f)" "lc_outcome lc = expected"
  shows "step_keeps lc calls i (lc\<lparr>lc_outcome := desired\<rparr>, FC_publish f)"
proof -
  have unset: "final_state_of (lc_outcome lc) = None" "final_state_of desired = Some f" "f = Stopped \<or> f = Failed"
    "lifecycle_failure lc \<longrightarrow> lifecycle_failure (lc\<lparr>lc_outcome := desired\<rparr>)"
    using choice by (cases expected; auto simp: lifecycle_failure_def)+
  then have "lc_state lc = Stopping" "filter is_publish calls = []"
    using ok(1,2) by (auto simp: outcome_ok_def call_ok_def past_stopping_def)
  then have "outcome_ok (lc\<lparr>lc_outcome := desired\<rparr>) (calls[i := FC_publish f])"
    using unset ok(3) filter_update_first [of i calls is_publish "FC_publish f"] by (auto simp: outcome_ok_def is_publish_def)
  moreover have "may_become lc (lc\<lparr>lc_outcome := desired\<rparr>)" using unset by (intro may_become_outcome) auto
  ultimately show ?thesis using unset(2) by (simp add: step_keeps_def call_ok_def)
qed

text \<open>The exchange that publishes the final state never fails.\<close>

lemma publish_finds_stopping:
  assumes "outcome_ok lc calls" "call_ok lc (FC_publish f)" "FC_publish f \<in> set calls"
  shows "lc_state lc = Stopping" "filter is_publish calls = [FC_publish f]" "final_state_of (lc_outcome lc) = Some f"
proof -
  show f: "final_state_of (lc_outcome lc) = Some f" using assms(2) by (simp add: call_ok_def)
  have "filter is_publish calls \<noteq> []" using assms(3) by (force simp: filter_empty_conv is_publish_def)
  then show "lc_state lc = Stopping" "filter is_publish calls = [FC_publish f]"
    using assms(1) f by (auto simp: outcome_ok_def split: if_splits)
qed

lemma terminal_publish_keeps:
  assumes ok: "outcome_ok lc calls" "call_ok lc (FC_publish f)" "i < length calls" "calls ! i = FC_publish f"
  shows "step_keeps lc calls i (call_step spurious (FC_publish f) lc)"
proof -
  have "FC_publish f \<in> set calls" using ok(3,4) by (metis nth_mem)
  note found = publish_finds_stopping [OF ok(1,2) this]
  have f: "f = Stopped \<or> f = Failed" using found(3) by (cases "lc_outcome lc") auto
  have "filter is_publish (calls[i := Returned Finish_Cleanup True]) = []"
    using filter_update_last [OF ok(3) found(2), of "Returned Finish_Cleanup True"] ok(4) by (simp add: is_publish_def)
  then have "outcome_ok (lc\<lparr>lc_state := f\<rparr>) (calls[i := Returned Finish_Cleanup True])"
    using found(3) by (simp add: outcome_ok_def)
  moreover have "may_become lc (lc\<lparr>lc_state := f\<rparr>)"
    using found f by (intro may_become_state) (auto simp: past_stopping_def asked_to_stop_def)
  moreover have "call_ok (lc\<lparr>lc_state := f\<rparr>) (Returned Finish_Cleanup True)" using found(3) by (simp add: call_ok_def result_ok_def)
  ultimately show ?thesis using found(1) by (simp add: step_keeps_def cas_state_def)
qed

lemma call_step_keeps:
  assumes "outcome_ok lc calls" "call_ok lc (calls ! i)" "i < length calls"
  shows "step_keeps lc calls i (call_step spurious (calls ! i) lc)"
proof (cases "is_publish (calls ! i)")
  case True
  then obtain f where "calls ! i = FC_publish f" by (auto simp: is_publish_def split: call.splits)
  then show ?thesis using terminal_publish_keeps assms by metis
next
  case False
  show ?thesis
  proof (cases "\<exists>expected. calls ! i = FC_loop expected \<and> lc_outcome lc = expected \<and> \<not> spurious \<and> terminal_choice expected \<noteq> None")
    case True
    then obtain desired f where c: "calls ! i = FC_loop (lc_outcome lc)" "\<not> spurious"
      "terminal_choice (lc_outcome lc) = Some (desired, f)" by auto
    have "call_ok lc (FC_loop (lc_outcome lc))" using assms(2) c(1) by simp
    from terminalize_keeps [OF assms(1) this assms(3) c(3) refl] show ?thesis using c by (simp add: finish_cleanup_step_def)
  next
    case none: False
    have "calm calls lc (call_step spurious (calls ! i) lc)"
      using none by (intro call_step_calm [OF assms(1,2) False]) blast
    then show ?thesis using False by (rule calm_keeps)
  qed
qed

lemma runtime_step_ok:
  assumes "runtime_ok w"
  shows "runtime_ok (runtime_step event w)"
proof (cases event)
  case (Start op)
  then show ?thesis using assms
    by (auto simp: runtime_ok_def outcome_ok_def call_ok_def is_publish_def split: option.splits)
next
  case (Step i spurious)
  let ?lc = "lw_lifecycle w" and ?calls = "lw_calls w"
  show ?thesis
  proof (cases "i < length ?calls")
    case True
    obtain lc' call' where step: "call_step spurious (?calls ! i) ?lc = (lc', call')" by (metis surj_pair)
    have keep: "may_become ?lc lc'" "call_ok lc' call'" "outcome_ok lc' (?calls[i := call'])"
      using call_step_keeps [of ?lc ?calls i spurious] assms True step by (auto simp: runtime_ok_def step_keeps_def)
    have "call_ok lc' call" if "call \<in> set (?calls[i := call'])" for call
      using that keep(1,2) assms call_ok_survives by (auto simp: runtime_ok_def dest!: set_update_subset_insert [THEN subsetD])
    then show ?thesis using Step True step keep(3) by (simp add: runtime_ok_def)
  qed (use assms Step in simp)
qed

lemma runtime_run_ok: "runtime_ok (runtime_run schedule)"
proof (induction schedule rule: rev_induct)
  case Nil
  show ?case by (simp add: runtime_run_def runtime_start_def runtime_ok_def outcome_ok_def lifecycle_new_def)
qed (simp add: runtime_run_def runtime_step_ok)

text \<open>
  (C3) A failure is never lost, and the terminal state matches the outcome. Any number of tasks call the lifecycle in any
  interleaving of their atomic accesses, weak exchanges failing at will. At every point: once a call of mark_failure has returned
  true, the lifecycle reports a failure, a stop is under way, and the state is not and never becomes Stopped; a state
  of Stopped or Failed goes with exactly the matching final outcome; a stop request that returned true has put the
  runtime on its way to stop; and the last exchange of finish_cleanup, whose failure the code does not handle, cannot fail:
  a call that is about to make it is the only one, and the state is Stopping.
\<close>

theorem lifecycle_terminates_consistently:
  assumes "w = runtime_run schedule" "lc = lw_lifecycle w"
  shows "(Returned Mark_Failure True \<in> set (lw_calls w) \<longrightarrow>
        lifecycle_failure lc \<and> lifecycle_stop_requested lc \<and> lc_state lc \<noteq> Stopped) \<and>
    (lc_state lc = Stopped \<longrightarrow> lc_outcome lc \<in> {FinalizedStoppedNone, FinalizedStoppedExternal}) \<and>
    (lc_state lc = Failed \<longrightarrow> lc_outcome lc = FinalizedFailed) \<and>
    (Returned Request_Stop True \<in> set (lw_calls w) \<longrightarrow> lifecycle_stop_requested lc) \<and>
    (Returned Finish_Cleanup True \<in> set (lw_calls w) \<longrightarrow> lc_state lc = (if lifecycle_failure lc then Failed else Stopped)) \<and>
    (\<forall>f. FC_publish f \<in> set (lw_calls w) \<longrightarrow> lc_state lc = Stopping \<and> filter is_publish (lw_calls w) = [FC_publish f])"
proof -
  have ok: "runtime_ok w" unfolding assms(1) by (rule runtime_run_ok)
  then have calls: "call_ok lc call" if "call \<in> set (lw_calls w)" for call using that assms(2) by (simp add: runtime_ok_def)
  have out: "outcome_ok lc (lw_calls w)" using ok assms(2) by (simp add: runtime_ok_def)
  have stopped: "lc_state lc = Stopped \<longrightarrow> lc_outcome lc \<in> {FinalizedStoppedNone, FinalizedStoppedExternal}"
    and failed: "lc_state lc = Failed \<longrightarrow> lc_outcome lc = FinalizedFailed"
    using out by (cases "lc_outcome lc"; auto simp: outcome_ok_def split: if_splits)+
  have asked: "lifecycle_stop_requested lc" if "asked_to_stop (lc_state lc)"
    using that by (auto simp: lifecycle_stop_requested_def asked_to_stop_def past_stopping_def)
  have failure: "Returned Mark_Failure True \<in> set (lw_calls w) \<longrightarrow>
      lifecycle_failure lc \<and> lifecycle_stop_requested lc \<and> lc_state lc \<noteq> Stopped"
  proof
    assume "Returned Mark_Failure True \<in> set (lw_calls w)"
    from calls [OF this] have f: "lifecycle_failure lc" "asked_to_stop (lc_state lc)" by (simp_all add: call_ok_def result_ok_def)
    then show "lifecycle_failure lc \<and> lifecycle_stop_requested lc \<and> lc_state lc \<noteq> Stopped"
      using asked stopped by (auto simp: lifecycle_failure_def)
  qed
  have request: "Returned Request_Stop True \<in> set (lw_calls w) \<longrightarrow> lifecycle_stop_requested lc"
    using calls [of "Returned Request_Stop True"] asked by (simp add: call_ok_def result_ok_def)
  have finished: "Returned Finish_Cleanup True \<in> set (lw_calls w) \<longrightarrow> lc_state lc = (if lifecycle_failure lc then Failed else Stopped)"
    using calls [of "Returned Finish_Cleanup True"]
    by (cases "lc_outcome lc") (auto simp: call_ok_def result_ok_def lifecycle_failure_def)
  have publish: "\<forall>f. FC_publish f \<in> set (lw_calls w) \<longrightarrow> lc_state lc = Stopping \<and> filter is_publish (lw_calls w) = [FC_publish f]"
    using publish_finds_stopping [OF out calls] by blast
  show ?thesis by (intro conjI) (fact failure, fact stopped, fact failed, fact request, fact finished, fact publish)
qed

lemma lifecycle_terminates_consistently_witness:
  "\<exists>schedule w. w = runtime_run schedule \<and> Returned Mark_Failure True \<in> set (lw_calls w) \<and>
     Returned Finish_Cleanup True \<in> set (lw_calls w) \<and> lc_state (lw_lifecycle w) = Failed"
proof -
  let ?schedule = "[Start Begin_Stopping, Step 0 False, Step 0 True, Step 0 False, Start Finish_Cleanup, Step 1 False, Step 1 False,
    Start Mark_Failure, Step 2 False, Step 2 False, Step 1 False, Step 1 False, Step 1 False, Step 2 False, Step 2 False]"
  let ?w = "runtime_run ?schedule"
  have run: "lw_calls ?w = [Returned Begin_Stopping True, Returned Finish_Cleanup True, Returned Mark_Failure True]"
    by (simp add: runtime_run_def runtime_start_def lifecycle_new_def call_defs active_state_def Let_def)
  then have "lc_state (lw_lifecycle ?w) = Failed"
    using lifecycle_terminates_consistently [OF refl refl, of ?schedule] by (simp split: if_splits)
  with run show ?thesis by (intro exI [of _ ?schedule] exI [of _ ?w]) simp
qed

end
