(* ===== verification/Runtime.thy ===== *)
theory Runtime
  imports Runtime_Lifecycle
begin

section \<open>The emulator runtime (np2runtime/np2runtime.cpp)\<close>

text \<open>
  The owner task initialises the emulator core, runs it and tears it down, guided by the lifecycle. The core itself is not
  under this model: its entry points are recorded in a trace. Other tasks may request a stop or report a failure at any
  time; before each access of the owner to the lifecycle, the next entry of \<open>rt_script\<close> lists what they did. The answers
  of the observer, of the screen manager and of the task manager come from \<open>rt_answers\<close>; an answer that is not listed is no.
  Here the operations of the lifecycle run uninterrupted; their interleavings are the subject of the lifecycle's own theory.
\<close>

subsection \<open>Lifecycle operations run alone\<close>

fun run_alone :: "nat \<Rightarrow> call \<Rightarrow> lifecycle \<Rightarrow> lifecycle \<times> call" where
  "run_alone 0 call lc = (lc, call)"
| "run_alone (Suc n) call lc = (let (lc, call) = call_step False call lc in run_alone n call lc)"

definition lifecycle_call :: "operation \<Rightarrow> lifecycle \<Rightarrow> bool \<times> lifecycle" where
  "lifecycle_call op lc = (case run_alone 5 (Entered op) lc of (lc', call) \<Rightarrow> (call = Returned op True, lc'))"

text \<open>Five steps are enough for every operation.\<close>

lemma run_alone_returned: "run_alone n (Returned op r) lc = (lc, Returned op r)"
  by (induction n) simp_all

lemma run_alone_5: "run_alone 5 call lc = (let (lc, call) = call_step False call lc in run_alone 4 call lc)"
  and run_alone_4: "run_alone 4 call lc = (let (lc, call) = call_step False call lc in run_alone 3 call lc)"
  and run_alone_3: "run_alone 3 call lc = (let (lc, call) = call_step False call lc in run_alone 2 call lc)"
  and run_alone_2: "run_alone 2 call lc = (let (lc, call) = call_step False call lc in run_alone 1 call lc)"
  and run_alone_1: "run_alone 1 call lc = call_step False call lc"
  by (simp_all add: eval_nat_numeral split: prod.splits)

lemmas run_alone_simps = run_alone_5 run_alone_4 run_alone_3 run_alone_2 run_alone_1 run_alone_returned

lemma run_alone_once: "run_alone 5 (Entered op) lc = (fst (call_step False (Entered op) lc), snd (call_step False (Entered op) lc))"
  if "op \<in> {Begin_Initialization, Complete_Initialization, Begin_Running}"
  using that by (auto simp: run_alone_5 call_defs run_alone_returned)

lemma run_alone_begin_stopping:
  "run_alone 5 (Entered Begin_Stopping) lc =
     (if active_state (lc_state lc) then (lc\<lparr>lc_state := Stopping\<rparr>, Returned Begin_Stopping True)
      else (lc, Returned Begin_Stopping (lc_state lc = Stopping)))"
  by (cases "lc_state lc") (simp_all add: run_alone_simps call_defs active_state_def)

lemma run_alone_finish_cleanup:
  "run_alone 5 (Entered Finish_Cleanup) lc =
     (case terminal_choice (lc_outcome lc) of
        Some (desired, f) \<Rightarrow> if lc_state lc = Stopping then (lc\<lparr>lc_outcome := desired, lc_state := f\<rparr>, Returned Finish_Cleanup True)
          else (lc, Returned Finish_Cleanup False)
      | None \<Rightarrow> (lc, Returned Finish_Cleanup False))"
  by (cases "lc_outcome lc") (simp_all add: run_alone_simps call_defs)

lemma run_alone_request_stop:
  "run_alone 5 (Entered Request_Stop) lc =
     (if active_state (lc_state lc) \<and> lc_state lc \<noteq> StopRequested
      then (lc\<lparr>lc_outcome := (if lc_outcome lc = OpenNone then OpenExternal else lc_outcome lc), lc_state := StopRequested\<rparr>,
            Returned Request_Stop True)
      else (lc, Returned Request_Stop (lc_state lc = StopRequested)))"
  by (cases "lc_state lc"; cases "lc_outcome lc = OpenNone"; cases "lc_outcome lc = OpenExternal")
    (simp_all add: run_alone_simps call_defs active_state_def)

lemma run_alone_mark_failure:
  "run_alone 5 (Entered Mark_Failure) lc =
     (if final_state_of (lc_outcome lc) = None
      then (let lc = lc\<lparr>lc_outcome := FatalPending\<rparr>
            in if active_state (lc_state lc) then lc\<lparr>lc_state := StopRequested\<rparr> else lc, Returned Mark_Failure True)
      else (lc, Returned Mark_Failure False))"
  by (cases "lc_outcome lc"; cases "lc_state lc") (simp_all add: run_alone_simps call_defs active_state_def)

lemmas run_alone_all = run_alone_begin_stopping run_alone_finish_cleanup run_alone_request_stop run_alone_mark_failure

subsection \<open>The runtime\<close>

datatype runtime_result = Result_Ok | Result_Stopped | Result_InvalidState | Result_InitializationFailed | Result_RuntimeFailed

text \<open>The calls that leave the component, in the order they are made.\<close>

datatype core_call = Apply_Config | Taskmng_Reset | Pccore_Init | Pccore_Reset | Owner_Observer | Pccore_Exec
  | Taskmng_Cooperate | Pccore_Term

record runtime =
  rt_lifecycle :: lifecycle
  rt_core_initialized :: bool
  rt_owner_observer :: bool
  rt_trace :: "core_call list"
  rt_script :: "operation list list"
  rt_answers :: "bool list"

definition runtime_new :: "operation list list \<Rightarrow> bool list \<Rightarrow> runtime" where
  "runtime_new script answers = \<lparr>rt_lifecycle = lifecycle_new, rt_core_initialized = False, rt_owner_observer = False,
     rt_trace = [], rt_script = script, rt_answers = answers\<rparr>"

definition interfere :: "runtime \<Rightarrow> runtime" where
  "interfere rt = (case rt_script rt of
       [] \<Rightarrow> rt
     | ops # script \<Rightarrow> rt\<lparr>rt_lifecycle := fold (\<lambda>op lc. snd (lifecycle_call op lc)) ops (rt_lifecycle rt), rt_script := script\<rparr>)"

definition rt_call :: "operation \<Rightarrow> runtime \<Rightarrow> bool \<times> runtime" where
  "rt_call op rt = (let rt = interfere rt; (result, lc) = lifecycle_call op (rt_lifecycle rt) in (result, rt\<lparr>rt_lifecycle := lc\<rparr>))"

definition rt_query :: "(lifecycle \<Rightarrow> 'a) \<Rightarrow> runtime \<Rightarrow> 'a \<times> runtime" where
  "rt_query f rt = (let rt = interfere rt in (f (rt_lifecycle rt), rt))"

definition rt_emit :: "core_call \<Rightarrow> runtime \<Rightarrow> runtime" where
  "rt_emit c rt = rt\<lparr>rt_trace := rt_trace rt @ [c]\<rparr>"

definition rt_ask :: "runtime \<Rightarrow> bool \<times> runtime" where
  "rt_ask rt = (case rt_answers rt of [] \<Rightarrow> (False, rt) | a # answers \<Rightarrow> (a, rt\<lparr>rt_answers := answers\<rparr>))"

definition runtime_cleanup :: "bool \<Rightarrow> runtime \<Rightarrow> runtime_result \<times> runtime" where
  "runtime_cleanup observer rt =
     (let (begun, rt) = rt_call Begin_Stopping rt in
      if \<not> begun then
        let (state, rt) = rt_query lc_state rt in
        if state = Stopped then (Result_Stopped, rt)
        else
          let (state, rt) = rt_query lc_state rt in
          if state = Failed then (Result_RuntimeFailed, rt)
          else (Result_InvalidState, rt)
      else
        let cleanup_observer = observer \<or> rt_owner_observer rt;
            rt = (if rt_core_initialized rt
                  then (rt_emit Pccore_Term (if cleanup_observer then rt_emit Owner_Observer rt else rt))\<lparr>rt_core_initialized := False\<rparr>
                  else rt);
            rt = rt\<lparr>rt_owner_observer := False\<rparr>;
            (finished, rt) = rt_call Finish_Cleanup rt;
            (failure, rt) = rt_query lifecycle_failure rt
        in (if failure then Result_RuntimeFailed else Result_Stopped, rt))"

definition runtime_initialize :: "runtime \<Rightarrow> runtime_result \<times> runtime" where
  "runtime_initialize rt =
     (let (state, rt) = rt_query lc_state rt in
      if state = StopRequested \<and> \<not> rt_core_initialized rt then runtime_cleanup False rt
      else
        let (begun, rt) = rt_call Begin_Initialization rt in
        if \<not> begun then (Result_InvalidState, rt)
        else
          let (requested, rt) = rt_query lifecycle_stop_requested rt in
          if requested then runtime_cleanup False rt
          else
            let rt = rt_emit Pccore_Init (rt_emit Taskmng_Reset (rt_emit Apply_Config rt));
                rt = rt\<lparr>rt_core_initialized := True\<rparr>;
                rt = rt_emit Pccore_Reset rt;
                (completed, rt) = rt_call Complete_Initialization rt
            in if \<not> completed then
                 let (result, rt) = runtime_cleanup False rt;
                     (failure, rt) = rt_query lifecycle_failure rt
                 in (if failure then Result_RuntimeFailed else Result_Stopped, rt)
               else (Result_Ok, rt))"

text \<open>The loop runs until a stop; \<open>None\<close> means that it still runs after \<open>fuel\<close> rounds.\<close>

fun run_loop :: "nat \<Rightarrow> bool \<Rightarrow> runtime \<Rightarrow> runtime option" where
  "run_loop 0 observer rt = None"
| "run_loop (Suc fuel) observer rt =
     (let (requested, rt) = rt_query lifecycle_stop_requested rt in
      if requested then Some rt
      else
        let (leave, rt) = (if observer then rt_ask (rt_emit Owner_Observer rt) else (False, rt)) in
        if leave then Some (snd (rt_call Request_Stop rt))
        else
          let rt = rt_emit Taskmng_Cooperate (rt_emit Pccore_Exec rt);
              (haserror, rt) = rt_ask rt
          in if haserror then Some (snd (rt_call Mark_Failure rt))
             else
               let (exit, rt) = rt_ask rt in
               if exit then Some (snd (rt_call Request_Stop rt))
               else run_loop fuel observer rt)"

definition runtime_run_task :: "nat \<Rightarrow> bool \<Rightarrow> runtime \<Rightarrow> (runtime_result \<times> runtime) option" where
  "runtime_run_task fuel observer rt =
     (let rt = rt\<lparr>rt_owner_observer := observer\<rparr>;
          (begun, rt) = rt_call Begin_Running rt
      in if \<not> begun then
           let (state, rt) = rt_query lc_state rt in
           Some (if state = StopRequested then runtime_cleanup observer rt else (Result_InvalidState, rt))
         else map_option (runtime_cleanup observer) (run_loop fuel observer rt))"

definition runtime_destroy :: "runtime \<Rightarrow> runtime" where
  "runtime_destroy rt =
     (if rt_core_initialized rt then snd (runtime_cleanup False (snd (rt_call Request_Stop rt)))
      else
        let (state1, rt) = rt_query lc_state rt in
        if state1 = Created then rt
        else
          let (state2, rt) = rt_query lc_state rt in
          if state2 = Stopped then rt
          else
            let (state3, rt) = rt_query lc_state rt in
            if state3 = Failed then rt
            else snd (runtime_cleanup False (snd (rt_call Request_Stop rt))))"

subsection \<open>The protocol of the core\<close>

text \<open>The core is configured and initialised once, then reset and executed, then terminated once, and left alone afterwards.\<close>

datatype core_phase = Core_Fresh | Core_Up | Core_Down

fun core_next :: "core_call \<Rightarrow> core_phase option \<Rightarrow> core_phase option" where
  "core_next Apply_Config (Some Core_Fresh) = Some Core_Fresh"
| "core_next Taskmng_Reset (Some Core_Fresh) = Some Core_Fresh"
| "core_next Pccore_Init (Some Core_Fresh) = Some Core_Up"
| "core_next Pccore_Reset (Some Core_Up) = Some Core_Up"
| "core_next Owner_Observer (Some Core_Up) = Some Core_Up"
| "core_next Pccore_Exec (Some Core_Up) = Some Core_Up"
| "core_next Taskmng_Cooperate (Some Core_Up) = Some Core_Up"
| "core_next Pccore_Term (Some Core_Up) = Some Core_Down"
| "core_next _ _ = None"

definition core_phase_of :: "core_call list \<Rightarrow> core_phase option" where
  "core_phase_of trace = fold core_next trace (Some Core_Fresh)"

lemma core_phase_append [simp]: "core_phase_of (trace @ cs) = fold core_next cs (core_phase_of trace)"
  by (simp add: core_phase_of_def)

definition phase_ok :: "run_state \<Rightarrow> bool \<Rightarrow> core_phase option \<Rightarrow> bool" where
  "phase_ok s initialized phase = (case phase of
       None \<Rightarrow> False
     | Some Core_Fresh \<Rightarrow> \<not> initialized \<and> s \<noteq> Ready \<and> s \<noteq> Running
     | Some Core_Up \<Rightarrow> initialized \<and> s \<noteq> Created \<and> s \<noteq> Stopped \<and> s \<noteq> Failed
     | Some Core_Down \<Rightarrow> \<not> initialized \<and> past_stopping s)"

definition settled :: "lifecycle \<Rightarrow> bool" where
  "settled lc \<longleftrightarrow> outcome_ok lc []"

definition external :: "operation \<Rightarrow> bool" where
  "external op \<longleftrightarrow> op = Request_Stop \<or> op = Mark_Failure"

definition rt_ok :: "runtime \<Rightarrow> bool" where
  "rt_ok rt \<longleftrightarrow> (\<forall>ops\<in>set (rt_script rt). \<forall>op\<in>set ops. external op) \<and> settled (rt_lifecycle rt) \<and>
     phase_ok (lc_state (rt_lifecycle rt)) (rt_core_initialized rt) (core_phase_of (rt_trace rt))"

text \<open>What other tasks can do to the lifecycle.\<close>

definition nudged :: "lifecycle \<Rightarrow> lifecycle \<Rightarrow> bool" where
  "nudged lc lc' \<longleftrightarrow> settled lc' \<and>
     (lc_state lc' = lc_state lc \<or> active_state (lc_state lc) \<and> lc_state lc' = StopRequested) \<and>
     (final_state_of (lc_outcome lc) \<noteq> None \<longrightarrow> lc' = lc)"

lemma settled_cases: "settled lc \<longleftrightarrow> (case final_state_of (lc_outcome lc) of
    None \<Rightarrow> lc_state lc \<noteq> Stopped \<and> lc_state lc \<noteq> Failed | Some f \<Rightarrow> lc_state lc = f)"
  by (auto simp: settled_def outcome_ok_def split: option.splits)

lemma final_not_active: "settled lc \<Longrightarrow> final_state_of (lc_outcome lc) = Some f \<Longrightarrow> \<not> active_state (lc_state lc)"
  by (cases "lc_outcome lc") (auto simp: settled_cases active_state_def)

lemma external_nudges:
  assumes "settled lc" "external op"
  shows "nudged lc (snd (lifecycle_call op lc))"
proof (cases "final_state_of (lc_outcome lc)")
  case (Some f)
  then have "snd (lifecycle_call op lc) = lc"
    using assms final_not_active [OF assms(1) Some]
    by (auto simp: external_def lifecycle_call_def run_alone_all)
  then show ?thesis using assms(1) by (simp add: nudged_def)
next
  case None
  then have "lc_state lc \<noteq> Stopped" "lc_state lc \<noteq> Failed" using assms(1) by (simp_all add: settled_cases)
  then show ?thesis using None assms(2)
    by (auto simp: external_def lifecycle_call_def run_alone_all nudged_def settled_cases Let_def split: if_splits)
qed

lemma nudged_trans:
  assumes "nudged lc lc1" "nudged lc1 lc2"
  shows "nudged lc lc2"
proof -
  have "active_state StopRequested" by (simp add: active_state_def)
  with assms show ?thesis by (auto simp: nudged_def)
qed

lemma nudged_refl: "settled lc \<Longrightarrow> nudged lc lc"
  by (simp add: nudged_def)

lemma externals_nudge:
  "settled lc \<Longrightarrow> \<forall>op\<in>set ops. external op \<Longrightarrow> nudged lc (fold (\<lambda>op lc. snd (lifecycle_call op lc)) ops lc)"
proof (induction ops arbitrary: lc)
  case (Cons op ops)
  have n: "nudged lc (snd (lifecycle_call op lc))" using external_nudges Cons.prems by simp
  then have "settled (snd (lifecycle_call op lc))" by (simp add: nudged_def)
  from nudged_trans [OF n Cons.IH [OF this]] Cons.prems(2) show ?case by simp
qed (simp add: nudged_refl)

lemma phase_ok_nudged:
  "phase_ok (lc_state lc) initialized phase \<Longrightarrow> nudged lc lc' \<Longrightarrow> phase_ok (lc_state lc') initialized phase"
  by (auto simp: phase_ok_def nudged_def active_state_def past_stopping_def split: option.splits core_phase.splits)

text \<open>The effect of interference on the runtime.\<close>

lemma interfere_ok:
  assumes "rt_ok rt" "rt' = interfere rt"
  shows "rt_ok rt'" "nudged (rt_lifecycle rt) (rt_lifecycle rt')" "rt_core_initialized rt' = rt_core_initialized rt"
    "rt_trace rt' = rt_trace rt" "rt_owner_observer rt' = rt_owner_observer rt"
proof -
  show n: "nudged (rt_lifecycle rt) (rt_lifecycle rt')"
    using assms by (auto simp: interfere_def rt_ok_def nudged_refl externals_nudge split: list.splits)
  then have s: "settled (rt_lifecycle rt')" by (simp add: nudged_def)
  show same: "rt_core_initialized rt' = rt_core_initialized rt" "rt_trace rt' = rt_trace rt" "rt_owner_observer rt' = rt_owner_observer rt"
    using assms(2) by (simp_all add: interfere_def split: list.splits)
  have "set (rt_script rt') \<subseteq> set (rt_script rt)" using assms(2) by (auto simp: interfere_def split: list.splits)
  then show "rt_ok rt'" using assms(1) s phase_ok_nudged [OF _ n] same by (auto simp: rt_ok_def)
qed

lemma rt_query_ok:
  assumes "rt_ok rt" "rt_query f rt = (x, rt')"
  shows "rt_ok rt'" "nudged (rt_lifecycle rt) (rt_lifecycle rt')" "rt_core_initialized rt' = rt_core_initialized rt"
    "rt_trace rt' = rt_trace rt" "rt_owner_observer rt' = rt_owner_observer rt" "x = f (rt_lifecycle rt')"
  using interfere_ok [OF assms(1), of rt'] assms(2) by (auto simp: rt_query_def Let_def)

text \<open>A call of the owner: interference first, then the operation.\<close>

lemma rt_call_split:
  assumes "rt_ok rt" "rt_call op rt = (r, rt')"
  obtains rt1 where "rt_ok rt1" "nudged (rt_lifecycle rt) (rt_lifecycle rt1)" "rt_core_initialized rt1 = rt_core_initialized rt"
    "rt_trace rt1 = rt_trace rt" "rt_owner_observer rt1 = rt_owner_observer rt"
    "lifecycle_call op (rt_lifecycle rt1) = (r, rt_lifecycle rt')" "rt' = rt1\<lparr>rt_lifecycle := rt_lifecycle rt'\<rparr>"
proof
  show "rt_ok (interfere rt)" "nudged (rt_lifecycle rt) (rt_lifecycle (interfere rt))"
    "rt_core_initialized (interfere rt) = rt_core_initialized rt" "rt_trace (interfere rt) = rt_trace rt"
    "rt_owner_observer (interfere rt) = rt_owner_observer rt"
    using interfere_ok [OF assms(1) refl] by simp_all
  show "lifecycle_call op (rt_lifecycle (interfere rt)) = (r, rt_lifecycle rt')"
    "rt' = (interfere rt)\<lparr>rt_lifecycle := rt_lifecycle rt'\<rparr>"
    using assms(2) by (auto simp: rt_call_def Let_def split: prod.splits)
qed

subsection \<open>The owner's functions keep the protocol\<close>

definition terminal :: "runtime \<Rightarrow> bool" where
  "terminal rt \<longleftrightarrow> (lc_state (rt_lifecycle rt) = Stopped \<or> lc_state (rt_lifecycle rt) = Failed) \<and> \<not> rt_core_initialized rt"

definition verdict :: "runtime \<Rightarrow> runtime_result" where
  "verdict rt = (if lifecycle_failure (rt_lifecycle rt) then Result_RuntimeFailed else Result_Stopped)"

lemma settled_failure:
  "settled lc \<Longrightarrow> lc_state lc = Stopped \<Longrightarrow> \<not> lifecycle_failure lc" "settled lc \<Longrightarrow> lc_state lc = Failed \<Longrightarrow> lifecycle_failure lc"
  by (cases "lc_outcome lc"; auto simp: settled_cases lifecycle_failure_def)+

lemma terminal_stays:
  assumes "nudged lc lc'" "settled lc" "lc_state lc = Stopped \<or> lc_state lc = Failed"
  shows "lc' = lc"
  using assms by (cases "lc_outcome lc") (auto simp: nudged_def settled_cases)

lemma terminal_uninitialized: "rt_ok rt \<Longrightarrow> lc_state (rt_lifecycle rt) = Stopped \<or> lc_state (rt_lifecycle rt) = Failed \<Longrightarrow> terminal rt"
  by (auto simp: rt_ok_def phase_ok_def terminal_def split: option.splits core_phase.splits)

lemma phase_ok_stopping: "phase_ok s initialized phase \<Longrightarrow> s \<noteq> Stopped \<Longrightarrow> s \<noteq> Failed \<Longrightarrow> phase_ok Stopping initialized phase"
  by (auto simp: phase_ok_def past_stopping_def split: option.splits core_phase.splits)

lemma begin_stopping_effect:
  assumes "rt_ok rt" "rt_call Begin_Stopping rt = (r, rt')"
  shows "rt_ok rt'" "r \<longleftrightarrow> lc_state (rt_lifecycle rt') = Stopping" "\<not> r \<Longrightarrow> terminal rt'"
    "rt_core_initialized rt' = rt_core_initialized rt" "rt_trace rt' = rt_trace rt" "rt_owner_observer rt' = rt_owner_observer rt"
proof -
  obtain rt1 where s: "rt_ok rt1" "rt_core_initialized rt1 = rt_core_initialized rt" "rt_trace rt1 = rt_trace rt"
      "rt_owner_observer rt1 = rt_owner_observer rt"
      "lifecycle_call Begin_Stopping (rt_lifecycle rt1) = (r, rt_lifecycle rt')" "rt' = rt1\<lparr>rt_lifecycle := rt_lifecycle rt'\<rparr>"
    using rt_call_split [OF assms] by metis
  let ?lc = "rt_lifecycle rt1"
  have keep: "rt_core_initialized rt' = rt_core_initialized rt1" "rt_trace rt' = rt_trace rt1" "rt_script rt' = rt_script rt1"
    "rt_owner_observer rt' = rt_owner_observer rt1" by (subst s(6), simp)+
  then show "rt_core_initialized rt' = rt_core_initialized rt" "rt_trace rt' = rt_trace rt" "rt_owner_observer rt' = rt_owner_observer rt"
    using s(2-4) by simp_all
  show ok: "rt_ok rt'" and r: "r \<longleftrightarrow> lc_state (rt_lifecycle rt') = Stopping"
  proof -
    show "rt_ok rt'"
    proof (cases "active_state (lc_state ?lc)")
      case True
      then have lc: "rt_lifecycle rt' = ?lc\<lparr>lc_state := Stopping\<rparr>" using s(5) by (simp add: lifecycle_call_def run_alone_all)
      have "final_state_of (lc_outcome ?lc) = None"
        using final_not_active [of ?lc] True s(1) by (cases "final_state_of (lc_outcome ?lc)") (auto simp: rt_ok_def)
      moreover have "phase_ok Stopping (rt_core_initialized rt1) (core_phase_of (rt_trace rt1))"
        using s(1) True by (intro phase_ok_stopping) (auto simp: rt_ok_def active_state_def)
      ultimately show ?thesis using s(1) lc keep by (simp add: rt_ok_def settled_cases)
    next
      case False
      then have "rt_lifecycle rt' = ?lc" using s(5) by (simp add: lifecycle_call_def run_alone_all)
      then show ?thesis using s(1) keep by (simp add: rt_ok_def)
    qed
    show "r \<longleftrightarrow> lc_state (rt_lifecycle rt') = Stopping"
      using arg_cong [OF s(5), of fst] arg_cong [OF s(5), of "lc_state \<circ> snd"]
      by (auto simp: lifecycle_call_def run_alone_all active_state_def split: if_splits)
  qed
  show "terminal rt'" if "\<not> r"
  proof -
    have "lc_state (rt_lifecycle rt') = lc_state ?lc" "\<not> active_state (lc_state ?lc)" "lc_state ?lc \<noteq> Stopping"
      using s(5) that by (auto simp: lifecycle_call_def run_alone_all split: if_splits)
    then show ?thesis using ok active_cases by (intro terminal_uninitialized) (auto simp: past_stopping_def)
  qed
qed

lemma finish_cleanup_effect:
  assumes "rt_ok rt" "lc_state (rt_lifecycle rt) = Stopping" "\<not> rt_core_initialized rt" "rt_call Finish_Cleanup rt = (r, rt')"
  shows "rt_ok rt' \<and> terminal rt'"
proof -
  obtain rt1 where s: "rt_ok rt1" "nudged (rt_lifecycle rt) (rt_lifecycle rt1)" "rt_core_initialized rt1 = rt_core_initialized rt"
      "lifecycle_call Finish_Cleanup (rt_lifecycle rt1) = (r, rt_lifecycle rt')" "rt' = rt1\<lparr>rt_lifecycle := rt_lifecycle rt'\<rparr>"
    using rt_call_split [OF assms(1,4)] by metis
  let ?lc = "rt_lifecycle rt1"
  have keep: "rt_core_initialized rt' = rt_core_initialized rt1" "rt_trace rt' = rt_trace rt1" "rt_script rt' = rt_script rt1"
    by (subst s(5), simp)+
  have st: "lc_state ?lc = Stopping" using s(2) assms(2) by (auto simp: nudged_def active_state_def)
  then have "final_state_of (lc_outcome ?lc) = None" using s(1) by (cases "lc_outcome ?lc") (auto simp: rt_ok_def settled_cases)
  then obtain desired f where c: "terminal_choice (lc_outcome ?lc) = Some (desired, f)" "final_state_of desired = Some f"
      "f = Stopped \<or> f = Failed"
    by (cases "lc_outcome ?lc") auto
  then have lc: "rt_lifecycle rt' = ?lc\<lparr>lc_outcome := desired, lc_state := f\<rparr>" using s(4) st by (simp add: lifecycle_call_def run_alone_all)
  have "phase_ok f (rt_core_initialized rt1) (core_phase_of (rt_trace rt1))"
    using s(1,3) assms(3) c(3) by (auto simp: rt_ok_def phase_ok_def past_stopping_def split: option.splits core_phase.splits)
  then have "rt_ok rt'" using s(1) keep lc c(2) by (simp add: rt_ok_def settled_cases)
  then show ?thesis using lc c(3) by (simp add: terminal_uninitialized)
qed

lemma terminal_query:
  assumes "rt_ok rt" "terminal rt" "rt_query f rt = (x, rt')"
  shows "rt_ok rt' \<and> terminal rt' \<and> rt_lifecycle rt' = rt_lifecycle rt \<and> x = f (rt_lifecycle rt)"
proof -
  note q = rt_query_ok [OF assms(1,3)]
  have "rt_lifecycle rt' = rt_lifecycle rt"
    using terminal_stays [OF q(2)] assms(1,2) by (simp add: rt_ok_def terminal_def)
  then show ?thesis using q assms(2) by (simp add: terminal_def)
qed

text \<open>Cleaning up always ends in a terminal state with the core down, and returns the matching result.\<close>

lemma runtime_cleanup_ok:
  assumes "rt_ok rt" "runtime_cleanup observer rt = (result, rt')"
  shows "rt_ok rt' \<and> terminal rt' \<and> result = verdict rt'"
proof -
  obtain begun rt1 where b: "rt_call Begin_Stopping rt = (begun, rt1)" by (metis surj_pair)
  note e = begin_stopping_effect [OF assms(1) b]
  show ?thesis
  proof (cases begun)
    case False
    obtain s2 rt2 where q2: "rt_query lc_state rt1 = (s2, rt2)" by (metis surj_pair)
    note t2 = terminal_query [OF e(1) e(3) [OF False] q2]
    obtain s3 rt3 where q3: "rt_query lc_state rt2 = (s3, rt3)" by (metis surj_pair)
    have t3: "rt_ok rt3 \<and> terminal rt3 \<and> rt_lifecycle rt3 = rt_lifecycle rt2 \<and> s3 = lc_state (rt_lifecycle rt2)"
      using terminal_query [OF _ _ q3] t2 by blast
    have "s2 = Stopped \<and> rt' = rt2 \<and> result = Result_Stopped \<or> s2 \<noteq> Stopped \<and> rt' = rt3 \<and>
        result = (if s3 = Failed then Result_RuntimeFailed else Result_InvalidState)"
      using assms(2) b False q2 q3 by (auto simp: runtime_cleanup_def split: if_splits)
    then show ?thesis using t2 t3 settled_failure by (auto simp: terminal_def verdict_def rt_ok_def)
  next
    case True
    define rt2 where "rt2 = (if rt_core_initialized rt1
      then (rt_emit Pccore_Term (if observer \<or> rt_owner_observer rt1 then rt_emit Owner_Observer rt1 else rt1))\<lparr>rt_core_initialized := False\<rparr>
      else rt1)\<lparr>rt_owner_observer := False\<rparr>"
    obtain r3 rt3 where f: "rt_call Finish_Cleanup rt2 = (r3, rt3)" by (metis surj_pair)
    obtain failure rt4 where q: "rt_query lifecycle_failure rt3 = (failure, rt4)" by (metis surj_pair)
    have run: "rt' = rt4" "result = (if failure then Result_RuntimeFailed else Result_Stopped)"
      using assms(2) b True f q by (simp_all add: runtime_cleanup_def rt2_def Let_def)
    have st: "lc_state (rt_lifecycle rt1) = Stopping" using e(2) True by simp
    then have "rt_ok rt2 \<and> lc_state (rt_lifecycle rt2) = Stopping \<and> \<not> rt_core_initialized rt2"
      using e(1) by (auto simp: rt2_def rt_emit_def rt_ok_def phase_ok_def past_stopping_def split: option.splits core_phase.splits)
    then have "rt_ok rt3 \<and> terminal rt3" using finish_cleanup_effect [OF _ _ _ f] by blast
    then show ?thesis using terminal_query [OF _ _ q] run by (auto simp: verdict_def)
  qed
qed

lemma exchange_effect:
  assumes "rt_ok rt" "rt_call op rt = (r, rt')"
    and op: "\<And>lc. lifecycle_call op lc = (if lc_state lc = s1 then (True, lc\<lparr>lc_state := s2\<rparr>) else (False, lc))"
    and active: "active_state s1" "active_state s2"
    and phase: "\<And>phase. phase_ok s1 (rt_core_initialized rt) phase \<Longrightarrow> phase_ok s2 (rt_core_initialized rt) phase"
  shows "rt_ok rt' \<and> rt_core_initialized rt' = rt_core_initialized rt \<and> rt_trace rt' = rt_trace rt \<and>
    rt_owner_observer rt' = rt_owner_observer rt \<and> (r \<longrightarrow> lc_state (rt_lifecycle rt') = s2) \<and>
    (\<not> r \<longrightarrow> lc_state (rt_lifecycle rt') \<noteq> s1) \<and>
    (r \<longrightarrow> phase_ok s1 (rt_core_initialized rt) (core_phase_of (rt_trace rt)))"
proof -
  obtain rt1 where s: "rt_ok rt1" "rt_core_initialized rt1 = rt_core_initialized rt" "rt_trace rt1 = rt_trace rt"
      "rt_owner_observer rt1 = rt_owner_observer rt"
      "lifecycle_call op (rt_lifecycle rt1) = (r, rt_lifecycle rt')" "rt' = rt1\<lparr>rt_lifecycle := rt_lifecycle rt'\<rparr>"
    using rt_call_split [OF assms(1,2)] by metis
  let ?lc = "rt_lifecycle rt1"
  have keep: "rt_core_initialized rt' = rt_core_initialized rt1" "rt_trace rt' = rt_trace rt1" "rt_script rt' = rt_script rt1"
    "rt_owner_observer rt' = rt_owner_observer rt1" by (subst s(6), simp)+
  have "rt_ok rt'"
  proof (cases "lc_state ?lc = s1")
    case True
    then have lc: "rt_lifecycle rt' = ?lc\<lparr>lc_state := s2\<rparr>" using s(5) by (simp add: op)
    have "final_state_of (lc_outcome ?lc) = None"
      using final_not_active [of ?lc] True s(1) active(1) by (cases "final_state_of (lc_outcome ?lc)") (auto simp: rt_ok_def)
    moreover have "s2 \<noteq> Stopped" "s2 \<noteq> Failed" using active(2) by (auto simp: active_state_def)
    ultimately show ?thesis using s(1,2) True lc keep phase by (simp add: rt_ok_def settled_cases)
  next
    case False
    then have "rt_lifecycle rt' = ?lc" using s(5) by (simp add: op)
    then show ?thesis using s(1) keep by (simp add: rt_ok_def)
  qed
  moreover have "(r \<longrightarrow> lc_state (rt_lifecycle rt') = s2) \<and> (\<not> r \<longrightarrow> lc_state (rt_lifecycle rt') \<noteq> s1)"
    using arg_cong [OF s(5), of fst] arg_cong [OF s(5), of "lc_state \<circ> snd"] by (simp add: op split: if_splits)
  moreover have "phase_ok s1 (rt_core_initialized rt) (core_phase_of (rt_trace rt))" if r
    using arg_cong [OF s(5), of fst] that s(1-3) by (auto simp: op rt_ok_def split: if_splits)
  ultimately show ?thesis using keep s(2-4) by simp
qed

lemma phase_created: "phase_ok Created initialized phase \<Longrightarrow> \<not> initialized"
  by (auto simp: phase_ok_def split: option.splits core_phase.splits)

lemma phase_moves:
  "phase_ok Created initialized phase \<Longrightarrow> phase_ok Initializing initialized phase"
  "initialized \<Longrightarrow> phase_ok Initializing initialized phase \<Longrightarrow> phase_ok Ready initialized phase"
  "phase_ok Ready initialized phase \<Longrightarrow> phase_ok Running initialized phase"
  by (auto simp: phase_ok_def past_stopping_def split: option.splits core_phase.splits)

lemma exchange_calls:
  "lifecycle_call Begin_Initialization lc = (if lc_state lc = Created then (True, lc\<lparr>lc_state := Initializing\<rparr>) else (False, lc))"
  "lifecycle_call Complete_Initialization lc = (if lc_state lc = Initializing then (True, lc\<lparr>lc_state := Ready\<rparr>) else (False, lc))"
  "lifecycle_call Begin_Running lc = (if lc_state lc = Ready then (True, lc\<lparr>lc_state := Running\<rparr>) else (False, lc))"
  by (simp_all add: lifecycle_call_def run_alone_once call_defs)

lemma owner_stops:
  assumes "rt_ok rt" "external op"
  shows "rt_ok (snd (rt_call op rt))"
proof -
  obtain r rt' where c: "rt_call op rt = (r, rt')" by (metis surj_pair)
  obtain rt1 where s: "rt_ok rt1"
      "lifecycle_call op (rt_lifecycle rt1) = (r, rt_lifecycle rt')" "rt' = rt1\<lparr>rt_lifecycle := rt_lifecycle rt'\<rparr>"
    using rt_call_split [OF assms(1) c] by metis
  have n: "nudged (rt_lifecycle rt1) (rt_lifecycle rt')" using external_nudges [of "rt_lifecycle rt1" op] s(1,2) assms(2) by (simp add: rt_ok_def)
  have keep: "rt_core_initialized rt' = rt_core_initialized rt1" "rt_trace rt' = rt_trace rt1" "rt_script rt' = rt_script rt1"
    by (subst s(3), simp)+
  show ?thesis using s(1) n keep phase_ok_nudged [OF _ n] c by (simp add: rt_ok_def nudged_def)
qed

text \<open>The core goes up exactly once, while the state is Initializing.\<close>

lemma initialized_core:
  assumes "rt_ok rt" "lc_state (rt_lifecycle rt) = Initializing" "\<not> rt_core_initialized rt"
    and "rt_query lifecycle_stop_requested rt = (requested, rt1)" "\<not> requested"
    and "rt_call Complete_Initialization (rt_emit Pccore_Reset ((rt_emit Pccore_Init (rt_emit Taskmng_Reset (rt_emit Apply_Config rt1)))
        \<lparr>rt_core_initialized := True\<rparr>)) = (completed, rt')"
  shows "rt_ok rt'"
proof -
  note q = rt_query_ok [OF assms(1,4)]
  let ?up = "rt_emit Pccore_Reset ((rt_emit Pccore_Init (rt_emit Taskmng_Reset (rt_emit Apply_Config rt1)))\<lparr>rt_core_initialized := True\<rparr>)"
  have "lc_state (rt_lifecycle rt1) = Initializing"
    using q(2,6) assms(2,5) by (auto simp: nudged_def lifecycle_stop_requested_def)
  moreover have "core_phase_of (rt_trace rt1) = Some Core_Fresh"
    using q(1,3) assms(3) calculation
    by (auto simp: rt_ok_def phase_ok_def past_stopping_def split: option.splits core_phase.splits)
  ultimately have "rt_ok ?up" using q(1) by (simp add: rt_ok_def rt_emit_def phase_ok_def)
  moreover have "rt_core_initialized ?up" by (simp add: rt_emit_def)
  ultimately show ?thesis
    using exchange_effect [OF _ assms(6) exchange_calls(2)] phase_moves(2) by (simp add: active_state_def)
qed

lemma runtime_initialize_ok:
  assumes "rt_ok rt" "runtime_initialize rt = (result, rt')"
  shows "rt_ok rt' \<and> (result \<in> {Result_Stopped, Result_RuntimeFailed} \<longrightarrow> terminal rt' \<and> result = verdict rt')"
proof -
  obtain s1 rt1 where q1: "rt_query lc_state rt = (s1, rt1)" by (metis surj_pair)
  note r1 = rt_query_ok [OF assms(1) q1]
  obtain begun rt2 where c2: "rt_call Begin_Initialization rt1 = (begun, rt2)" by (metis surj_pair)
  have r2: "rt_ok rt2" "rt_core_initialized rt2 = rt_core_initialized rt1" "begun \<Longrightarrow> lc_state (rt_lifecycle rt2) = Initializing"
      "begun \<Longrightarrow> \<not> rt_core_initialized rt2"
    using exchange_effect [OF r1(1) c2 exchange_calls(1) _ _ phase_moves(1)] phase_created
    by (auto simp: active_state_def)
  obtain requested rt3 where q3: "rt_query lifecycle_stop_requested rt2 = (requested, rt3)" by (metis surj_pair)
  note r3 = rt_query_ok [OF r2(1) q3]
  define rt4 where "rt4 = rt_emit Pccore_Reset ((rt_emit Pccore_Init (rt_emit Taskmng_Reset (rt_emit Apply_Config rt3)))\<lparr>rt_core_initialized := True\<rparr>)"
  obtain completed rt5 where c5: "rt_call Complete_Initialization rt4 = (completed, rt5)" by (metis surj_pair)
  obtain result6 rt6 where c6: "runtime_cleanup False rt5 = (result6, rt6)" by (metis surj_pair)
  obtain failure rt7 where q7: "rt_query lifecycle_failure rt6 = (failure, rt7)" by (metis surj_pair)
  consider "s1 = StopRequested \<and> \<not> rt_core_initialized rt1" "runtime_cleanup False rt1 = (result, rt')"
    | "\<not> begun" "result = Result_InvalidState" "rt' = rt2"
    | "requested" "runtime_cleanup False rt3 = (result, rt')"
    | "begun" "\<not> requested" "completed" "result = Result_Ok" "rt' = rt5"
    | "begun" "\<not> requested" "\<not> completed" "result = (if failure then Result_RuntimeFailed else Result_Stopped)" "rt' = rt7"
    using assms(2) q1 c2 q3 c5 c6 q7 by (auto simp: runtime_initialize_def rt4_def [symmetric] Let_def split: if_splits)
  then show ?thesis
  proof cases
    case 1
    then show ?thesis using runtime_cleanup_ok [OF r1(1)] by auto
  next
    case 2
    then show ?thesis using r2 by simp
  next
    case 3
    then show ?thesis using runtime_cleanup_ok [OF r3(1)] by auto
  next
    case up: 4
    then have ok5: "rt_ok rt5" using initialized_core [OF r2(1) r2(3,4) q3 _ c5 [unfolded rt4_def]] by simp
    then show ?thesis using up by simp
  next
    case failed: 5
    then have "rt_ok rt5" using initialized_core [OF r2(1) r2(3,4) q3 _ c5 [unfolded rt4_def]] by simp
    then have "rt_ok rt6" "terminal rt6" using runtime_cleanup_ok [OF _ c6] by auto
    then show ?thesis using terminal_query [OF _ _ q7] failed by (auto simp: verdict_def)
  qed
qed

lemma emit_up:
  assumes "rt_ok rt" "rt_core_initialized rt" "c \<in> {Owner_Observer, Pccore_Exec, Taskmng_Cooperate}"
  shows "rt_ok (rt_emit c rt)" "rt_core_initialized (rt_emit c rt)"
  using assms by (auto simp: rt_ok_def rt_emit_def phase_ok_def split: option.splits core_phase.splits)

lemma ask_ok:
  assumes "rt_ok rt" "rt_core_initialized rt" "rt_ask rt = (a, rt')"
  shows "rt_ok rt'" "rt_core_initialized rt'"
  using assms by (auto simp: rt_ask_def rt_ok_def split: list.splits)

text \<open>The part of a round before the loop decides whether to go on, with the core up.\<close>

lemma observer_asked:
  assumes "rt_ok rt" "rt_core_initialized rt" "(if observer then rt_ask (rt_emit Owner_Observer rt) else (False, rt)) = (leave, rt')"
  shows "rt_ok rt'" "rt_core_initialized rt'"
  using assms ask_ok [OF emit_up [of rt Owner_Observer]] by (auto split: if_splits)

lemma run_loop_ok:
  "rt_ok rt \<Longrightarrow> rt_core_initialized rt \<Longrightarrow> run_loop fuel observer rt = Some rt' \<Longrightarrow> rt_ok rt'"
proof (induction fuel arbitrary: rt)
  case (Suc fuel)
  obtain requested rt1 where q: "rt_query lifecycle_stop_requested rt = (requested, rt1)" by (metis surj_pair)
  note r1 = rt_query_ok [OF Suc.prems(1) q]
  obtain leave rt2 where o: "(if observer then rt_ask (rt_emit Owner_Observer rt1) else (False, rt1)) = (leave, rt2)" by (metis surj_pair)
  have r2: "rt_ok rt2" "rt_core_initialized rt2" using observer_asked [OF r1(1) _ o] r1(3) Suc.prems(2) by simp_all
  define rt3 where "rt3 = rt_emit Taskmng_Cooperate (rt_emit Pccore_Exec rt2)"
  have r3: "rt_ok rt3" "rt_core_initialized rt3" using r2 by (simp_all add: rt3_def emit_up)
  obtain haserror rt4 where a4: "rt_ask rt3 = (haserror, rt4)" by (metis surj_pair)
  note r4 = ask_ok [OF r3 a4]
  obtain exit rt5 where a5: "rt_ask rt4 = (exit, rt5)" by (metis surj_pair)
  note r5 = ask_ok [OF r4 a5]
  have "rt' = rt1 \<or> rt' = snd (rt_call Request_Stop rt2) \<or> rt' = snd (rt_call Mark_Failure rt4) \<or> rt' = snd (rt_call Request_Stop rt5) \<or>
      run_loop fuel observer rt5 = Some rt'"
    using Suc.prems(3) q o a4 a5 by (simp add: rt3_def [symmetric] Let_def split: if_splits)
  then show ?case using Suc.IH [OF r5] r1(1) owner_stops r2 r4 r5 by (auto simp: external_def)
qed simp

lemma runtime_run_task_ok:
  assumes "rt_ok rt" "runtime_run_task fuel observer rt = Some (result, rt')"
  shows "rt_ok rt' \<and> (result \<in> {Result_Stopped, Result_RuntimeFailed} \<longrightarrow> terminal rt' \<and> result = verdict rt')"
proof -
  let ?rt = "rt\<lparr>rt_owner_observer := observer\<rparr>"
  have r0: "rt_ok ?rt" using assms(1) by (simp add: rt_ok_def)
  obtain begun rt1 where c: "rt_call Begin_Running ?rt = (begun, rt1)" by (metis surj_pair)
  have r1: "rt_ok rt1" "begun \<Longrightarrow> lc_state (rt_lifecycle rt1) = Running"
    using exchange_effect [OF r0 c exchange_calls(3) _ _ phase_moves(3)] by (auto simp: active_state_def)
  obtain s2 rt2 where q: "rt_query lc_state rt1 = (s2, rt2)" by (metis surj_pair)
  note r2 = rt_query_ok [OF r1(1) q]
  show ?thesis
  proof (cases begun)
    case False
    then show ?thesis using assms(2) c q runtime_cleanup_ok [OF r2(1)] r2(1)
      by (auto simp: runtime_run_task_def Let_def split: if_splits)
  next
    case True
    then obtain rt3 where l: "run_loop fuel observer rt1 = Some rt3" "runtime_cleanup observer rt3 = (result, rt')"
      using assms(2) c by (auto simp: runtime_run_task_def Let_def)
    have "rt_core_initialized rt1"
      using r1 True by (auto simp: rt_ok_def phase_ok_def past_stopping_def split: option.splits core_phase.splits)
    then have "rt_ok rt3" using run_loop_ok [OF r1(1) _ l(1)] by simp
    then show ?thesis using runtime_cleanup_ok [OF _ l(2)] by simp
  qed
qed

subsection \<open>The life of a runtime\<close>

datatype owner_call = Initialize | Run nat bool

fun owner_calls :: "owner_call list \<Rightarrow> runtime \<Rightarrow> (runtime_result list \<times> runtime) option" where
  "owner_calls [] rt = Some ([], rt)"
| "owner_calls (Initialize # calls) rt =
     (let (result, rt) = runtime_initialize rt in map_option (apfst ((#) result)) (owner_calls calls rt))"
| "owner_calls (Run fuel observer # calls) rt =
     (case runtime_run_task fuel observer rt of
        None \<Rightarrow> None
      | Some (result, rt) \<Rightarrow> map_option (apfst ((#) result)) (owner_calls calls rt))"

definition closing :: "runtime_result list \<Rightarrow> runtime \<Rightarrow> bool" where
  "closing results rt \<longleftrightarrow> (results \<noteq> [] \<and> last results \<in> {Result_Stopped, Result_RuntimeFailed} \<longrightarrow> terminal rt \<and> last results = verdict rt)"

lemma closing_Cons: "closing results rt \<Longrightarrow> results \<noteq> [] \<Longrightarrow> closing (r # results) rt"
  by (simp add: closing_def)

lemma owner_calls_ok:
  "rt_ok rt \<Longrightarrow> owner_calls calls rt = Some (results, rt') \<Longrightarrow> rt_ok rt' \<and> closing results rt' \<and> (results = [] \<longrightarrow> rt' = rt)"
proof (induction calls arbitrary: rt results)
  case (Cons call calls)
  obtain result rt1 results1 where step: "rt_ok rt1"
      "result \<in> {Result_Stopped, Result_RuntimeFailed} \<longrightarrow> terminal rt1 \<and> result = verdict rt1"
      "owner_calls calls rt1 = Some (results1, rt')" "results = result # results1"
  proof (cases call)
    case Initialize
    obtain result rt1 where i: "runtime_initialize rt = (result, rt1)" by (metis surj_pair)
    show ?thesis using that runtime_initialize_ok [OF Cons.prems(1) i] Cons.prems(2) Initialize i by auto
  next
    case (Run fuel observer)
    then obtain result rt1 where i: "runtime_run_task fuel observer rt = Some (result, rt1)"
      using Cons.prems(2) by (auto split: option.splits)
    show ?thesis using that runtime_run_task_ok [OF Cons.prems(1) i] Cons.prems(2) Run i by auto
  qed
  show ?case
  proof (cases "results1 = []")
    case True
    then show ?thesis using Cons.IH [OF step(1,3)] step by (auto simp: closing_def)
  next
    case False
    then show ?thesis using Cons.IH [OF step(1,3)] step(4) closing_Cons by auto
  qed
qed (simp add: closing_def)

lemma runtime_new_ok: "\<forall>ops\<in>set script. \<forall>op\<in>set ops. external op \<Longrightarrow> rt_ok (runtime_new script answers)"
  by (simp add: rt_ok_def runtime_new_def settled_cases lifecycle_new_def phase_ok_def core_phase_of_def)

lemma runtime_destroy_ok:
  assumes "rt_ok rt"
  shows "rt_ok (runtime_destroy rt) \<and> \<not> rt_core_initialized (runtime_destroy rt)"
proof -
  have clean: "rt_ok rt2 \<and> \<not> rt_core_initialized rt2" if "rt_ok rt1" "rt2 = snd (runtime_cleanup False (snd (rt_call Request_Stop rt1)))" for rt1 rt2
  proof -
    have "rt_ok (snd (rt_call Request_Stop rt1))" using owner_stops that(1) by (simp add: external_def)
    from runtime_cleanup_ok [OF this, of False "fst (runtime_cleanup False (snd (rt_call Request_Stop rt1)))" rt2]
    show ?thesis using that(2) by (simp add: terminal_def)
  qed
  obtain s1 rt1 where q1: "rt_query lc_state rt = (s1, rt1)" by (metis surj_pair)
  note r1 = rt_query_ok [OF assms q1]
  obtain s2 rt2 where q2: "rt_query lc_state rt1 = (s2, rt2)" by (metis surj_pair)
  note r2 = rt_query_ok [OF r1(1) q2]
  obtain s3 rt3 where q3: "rt_query lc_state rt2 = (s3, rt3)" by (metis surj_pair)
  note r3 = rt_query_ok [OF r2(1) q3]
  show ?thesis
    using clean [OF assms] clean [OF r3(1)] q1 q2 q3 r1(1,3) r2(1,3) r3(1,3) by (auto simp: runtime_destroy_def)
qed

text \<open>
  (C4) The emulator core is brought up and taken down exactly once, and never touched outside. For every sequence of
  initialize and run calls of the owner, with stop requests and failure reports of other tasks at any point and any
  answers of the observer, the screen and the task manager: the calls into the core form a prefix of configure, reset
  the task manager, init, then reset, execute and observe any number of times, then one term. A call that returns Stopped or
  RuntimeFailed leaves the lifecycle in a terminal state with the core down, and returns RuntimeFailed exactly
  if a failure was reported. Destroying the runtime afterwards always leaves the core down.
\<close>

theorem core_protocol:
  assumes "\<forall>ops\<in>set script. \<forall>op\<in>set ops. external op" "owner_calls calls (runtime_new script answers) = Some (results, rt)"
  shows "core_phase_of (rt_trace rt) \<noteq> None \<and>
    (results \<noteq> [] \<and> last results \<in> {Result_Stopped, Result_RuntimeFailed} \<longrightarrow>
       terminal rt \<and> (last results = Result_RuntimeFailed \<longleftrightarrow> lifecycle_failure (rt_lifecycle rt))) \<and>
    core_phase_of (rt_trace (runtime_destroy rt)) \<in> {Some Core_Fresh, Some Core_Down}"
proof -
  have ok: "rt_ok rt" "closing results rt" using owner_calls_ok [OF runtime_new_ok [OF assms(1)] assms(2)] by simp_all
  then have "rt_ok (runtime_destroy rt) \<and> \<not> rt_core_initialized (runtime_destroy rt)" by (simp add: runtime_destroy_ok)
  then show ?thesis using ok
    by (auto simp: rt_ok_def phase_ok_def closing_def verdict_def split: option.splits core_phase.splits if_splits)
qed

lemma core_protocol_witness:
  "\<exists>rt. owner_calls [Initialize, Run 3 True] (runtime_new [[], [], [], [], [], [Mark_Failure]] []) = Some ([Result_Ok, Result_RuntimeFailed], rt) \<and>
     core_phase_of (rt_trace (runtime_destroy rt)) \<in> {Some Core_Fresh, Some Core_Down}"
proof -
  let ?script = "[[], [], [], [], [], [Mark_Failure]]"
  have e: "\<forall>ops\<in>set ?script. \<forall>op\<in>set ops. external op" by (simp add: external_def)
  have "map_option fst (owner_calls [Initialize, Run 3 True] (runtime_new ?script [])) = Some [Result_Ok, Result_RuntimeFailed]"
    by code_simp
  then obtain rt where rt: "owner_calls [Initialize, Run 3 True] (runtime_new ?script []) = Some ([Result_Ok, Result_RuntimeFailed], rt)"
    by auto
  show ?thesis using core_protocol [OF e rt] rt by blast
qed

subsection \<open>A stop is honoured\<close>

lemma asked_requested: "lifecycle_stop_requested lc \<longleftrightarrow> asked_to_stop (lc_state lc)"
  by (auto simp: lifecycle_stop_requested_def asked_to_stop_def past_stopping_def)

lemma nudged_asked: "nudged lc lc' \<Longrightarrow> asked_to_stop (lc_state lc) \<Longrightarrow> asked_to_stop (lc_state lc')"
  by (auto simp: nudged_def asked_to_stop_def)

lemma external_asks: "external op \<Longrightarrow> settled lc \<Longrightarrow> asked_to_stop (lc_state (snd (lifecycle_call op lc)))"
  using active_cases [of "lc_state lc"]
  by (cases "lc_outcome lc")
    (auto simp: external_def lifecycle_call_def run_alone_all asked_to_stop_def past_stopping_def active_state_def settled_cases
      split: if_splits)

lemma externals_ask:
  assumes "settled lc" "\<forall>op\<in>set ops. external op" "ops \<noteq> []"
  shows "asked_to_stop (lc_state (fold (\<lambda>op lc. snd (lifecycle_call op lc)) ops lc))"
proof -
  obtain op rest where ops: "ops = op # rest" using assms(3) by (cases ops) auto
  let ?lc = "snd (lifecycle_call op lc)"
  have "settled ?lc" using external_nudges [of lc op] assms ops by (simp add: nudged_def)
  then have "nudged ?lc (fold (\<lambda>op lc. snd (lifecycle_call op lc)) rest ?lc)" using assms(2) ops by (intro externals_nudge) simp_all
  then show ?thesis using nudged_asked external_asks assms ops by simp
qed

lemma ask_script: "rt_ask rt = (a, rt') \<Longrightarrow> rt_script rt' = rt_script rt"
  by (auto simp: rt_ask_def split: list.splits)

text \<open>The loop returns in the round in which a stop or a failure arrives, at the latest.\<close>

lemma run_loop_returns:
  "rt_ok rt \<Longrightarrow> rt_core_initialized rt \<Longrightarrow> k < length (rt_script rt) \<Longrightarrow> rt_script rt ! k \<noteq> [] \<Longrightarrow> k < fuel \<Longrightarrow>
   \<exists>rt'. run_loop fuel observer rt = Some rt'"
proof (induction fuel arbitrary: rt k)
  case (Suc fuel)
  obtain requested rt1 where q: "rt_query lifecycle_stop_requested rt = (requested, rt1)" by (metis surj_pair)
  note r1 = rt_query_ok [OF Suc.prems(1) q]
  obtain ops script where sc: "rt_script rt = ops # script" using Suc.prems(3) by (cases "rt_script rt") auto
  have s1: "rt_script rt1 = script" "rt_lifecycle rt1 = fold (\<lambda>op lc. snd (lifecycle_call op lc)) ops (rt_lifecycle rt)"
    using q sc by (auto simp: rt_query_def interfere_def Let_def)
  show ?case
  proof (cases "requested \<or> ops \<noteq> []")
    case True
    then have "requested"
      using r1(6) externals_ask [of "rt_lifecycle rt" ops] Suc.prems(1) sc s1(2) by (auto simp: asked_requested rt_ok_def)
    then show ?thesis using q by simp
  next
    case False
    then obtain k1 where k: "k = Suc k1" "k1 < fuel" "k1 < length script" "script ! k1 \<noteq> []"
      using Suc.prems(3-5) sc by (cases k) auto
    obtain leave rt2 where o: "(if observer then rt_ask (rt_emit Owner_Observer rt1) else (False, rt1)) = (leave, rt2)" by (metis surj_pair)
    have r2: "rt_ok rt2" "rt_core_initialized rt2" using observer_asked [OF r1(1) _ o] r1(3) Suc.prems(2) by simp_all
    have s2: "rt_script rt2 = script" using o s1(1) ask_script by (fastforce simp: rt_emit_def split: if_splits)
    define rt3 where "rt3 = rt_emit Taskmng_Cooperate (rt_emit Pccore_Exec rt2)"
    have r3: "rt_ok rt3" "rt_core_initialized rt3" "rt_script rt3 = script" using r2 s2 by (simp_all add: rt3_def emit_up) (simp add: rt_emit_def)
    obtain haserror rt4 where a4: "rt_ask rt3 = (haserror, rt4)" by (metis surj_pair)
    note r4 = ask_ok [OF r3(1,2) a4]
    obtain exit rt5 where a5: "rt_ask rt4 = (exit, rt5)" by (metis surj_pair)
    note r5 = ask_ok [OF r4 a5]
    have s5: "rt_script rt5 = script" using ask_script [OF a4] ask_script [OF a5] r3(3) by simp
    have "\<exists>rt'. run_loop fuel observer rt5 = Some rt'" using Suc.IH [OF r5, of k1] s5 k by simp
    then show ?thesis using q o a4 a5 by (auto simp: rt3_def [symmetric] Let_def)
  qed
qed simp

lemma initialize_ready:
  assumes "rt_ok rt" "runtime_initialize rt = (Result_Ok, rt')"
  shows "lc_state (rt_lifecycle rt') = Ready"
proof -
  have no: "runtime_cleanup b r \<noteq> (Result_Ok, r')" for b r r'
    by (auto simp: runtime_cleanup_def Let_def split: prod.splits if_splits)
  obtain r where c: "rt_call Complete_Initialization r = (True, rt')"
    using assms(2) no by (auto simp: runtime_initialize_def Let_def split: prod.splits if_splits)
  then have "lifecycle_call Complete_Initialization (rt_lifecycle (interfere r)) = (True, rt_lifecycle rt')"
    by (auto simp: rt_call_def Let_def split: prod.splits)
  from arg_cong [OF this, of "lc_state \<circ> snd"] arg_cong [OF this, of fst] show ?thesis
    by (simp add: exchange_calls split: if_splits)
qed

lemma run_task_returns:
  assumes "rt_ok rt" "lc_state (rt_lifecycle rt) = Ready" "k < length (rt_script rt)" "rt_script rt ! k \<noteq> []" "k < fuel"
  shows "\<exists>result rt'. runtime_run_task fuel observer rt = Some (result, rt') \<and> terminal rt' \<and> result = verdict rt'"
proof -
  let ?rt = "rt\<lparr>rt_owner_observer := observer\<rparr>"
  have r0: "rt_ok ?rt" using assms(1) by (simp add: rt_ok_def)
  obtain ops script where sc: "rt_script rt = ops # script" using assms(3) by (cases "rt_script rt") auto
  obtain begun rt1 where c: "rt_call Begin_Running ?rt = (begun, rt1)" by (metis surj_pair)
  have r1: "rt_ok rt1" "begun \<Longrightarrow> lc_state (rt_lifecycle rt1) = Running"
    using exchange_effect [OF r0 c exchange_calls(3) _ _ phase_moves(3)] by (auto simp: active_state_def)
  let ?lc = "rt_lifecycle (interfere ?rt)"
  have i: "nudged (rt_lifecycle rt) ?lc" using interfere_ok(2) [OF r0 refl] by simp
  have lc1: "begun = (lc_state ?lc = Ready)" "\<not> begun \<Longrightarrow> rt_lifecycle rt1 = ?lc" "rt_script rt1 = script"
    using c sc by (auto simp: rt_call_def exchange_calls interfere_def Let_def split: if_splits)
  show ?thesis
  proof (cases begun)
    case True
    then have "ops = []"
      using externals_ask [of "rt_lifecycle rt" ops] assms(1) sc lc1(1)
      by (auto simp: rt_ok_def interfere_def asked_to_stop_def past_stopping_def)
    then obtain k1 where k: "k = Suc k1" using assms(4) sc by (cases k) auto
    have "rt_core_initialized rt1"
      using r1 True by (auto simp: rt_ok_def phase_ok_def past_stopping_def split: option.splits core_phase.splits)
    then obtain rt2 where l: "run_loop fuel observer rt1 = Some rt2"
      using run_loop_returns [OF r1(1), of k1 fuel observer] assms(3-5) sc lc1(3) k by auto
    have "rt_ok rt2" using run_loop_ok [OF r1(1) \<open>rt_core_initialized rt1\<close> l] .
    then show ?thesis using runtime_cleanup_ok [of rt2 observer] True c l
      by (cases "runtime_cleanup observer rt2") (auto simp: runtime_run_task_def Let_def)
  next
    case False
    then have st: "lc_state (rt_lifecycle rt1) = StopRequested" using i lc1(1,2) assms(2) by (auto simp: nudged_def)
    obtain s2 rt2 where q: "rt_query lc_state rt1 = (s2, rt2)" by (metis surj_pair)
    note r2 = rt_query_ok [OF r1(1) q]
    have "s2 = StopRequested" using r2(2,6) st by (auto simp: nudged_def)
    then show ?thesis using runtime_cleanup_ok [OF r2(1), of observer] False c q
      by (cases "runtime_cleanup observer rt2") (auto simp: runtime_run_task_def Let_def)
  qed
qed

text \<open>
  (C39) A stop ends the run. After a successful initialisation, if another task requests a stop or reports a failure at any
  time, the run loop leaves in the round that observes it, whatever the observer and the managers answer: with as many rounds as
  there are entries of the script up to the request, the run returns, the lifecycle is terminal and the core is down.
\<close>

theorem stop_ends_run:
  assumes "\<forall>ops\<in>set script. \<forall>op\<in>set ops. external op"
    and "runtime_initialize (runtime_new script answers) = (Result_Ok, rt)"
    and "k < length (rt_script rt)" "rt_script rt ! k \<noteq> []" "k < fuel"
  shows "\<exists>result rt'. runtime_run_task fuel observer rt = Some (result, rt') \<and> terminal rt' \<and> result = verdict rt'"
proof -
  note new = runtime_new_ok [OF assms(1)]
  have "rt_ok rt" using runtime_initialize_ok [OF new assms(2)] by simp
  then show ?thesis using initialize_ready [OF new assms(2)] assms(3-5) by (rule run_task_returns)
qed

lemma stop_ends_run_witness:
  "\<exists>rt result rt'. runtime_initialize (runtime_new [[], [], [], [], [], [], [Request_Stop]] []) = (Result_Ok, rt) \<and>
     runtime_run_task 3 False rt = Some (result, rt') \<and> terminal rt' \<and> result = verdict rt'"
proof -
  let ?script = "[[], [], [], [], [], [], [Request_Stop]]"
  have e: "\<forall>ops\<in>set ?script. \<forall>op\<in>set ops. external op" by (simp add: external_def)
  have init: "fst (runtime_initialize (runtime_new ?script [])) = Result_Ok"
    "rt_script (snd (runtime_initialize (runtime_new ?script []))) = [[], [], [Request_Stop]]" by code_simp+
  then obtain rt where rt: "runtime_initialize (runtime_new ?script []) = (Result_Ok, rt)" "rt_script rt = [[], [], [Request_Stop]]"
    by (metis prod.collapse)
  have "\<exists>result rt'. runtime_run_task 3 False rt = Some (result, rt') \<and> terminal rt' \<and> result = verdict rt'"
    using stop_ends_run [OF e rt(1), of 2 3 False] rt(2) by simp
  then show ?thesis using rt(1) by blast
qed

end
