(* ===== verification/Spec2Isabelle.thy ===== *)
theory Spec2Isabelle
  imports Control_Stream File_Digest Keyboard_Bridge Hid_Adapter Spsc_Queue Audio_Transport Audio_Horizon Pcm_Output Runtime
begin

text \<open>
  \<^bold>\<open>Verification of the firmware of an ESP32-P4 port of the NP2kai PC-98 emulator.\<close> All sources are below
  \<^verbatim>\<open>src/firmware/components\<close>; the directory of each part is named below.

  \<^bold>\<open>The program.\<close> A host talks to the board over one serial line that carries text commands and binary frames
  (\<^verbatim>\<open>control_stream\<close>, \<^verbatim>\<open>control_plane\<close>). Frames are COBS-coded and protected by a CRC-32; a stop-and-wait transfer manager
  moves files over them (\<^verbatim>\<open>binary_data_plane\<close>), a file service answers the file commands and, as an endpoint of the manager,
  stores uploads and reads downloads (\<^verbatim>\<open>file_transfer\<close>) through a storage interface (\<^verbatim>\<open>storage\<close>) whose RAM implementation
  keeps files in an arena (\<^verbatim>\<open>storage_ram\<close>). Keys come from a USB keyboard (\<^verbatim>\<open>hid_boot_keyboard\<close>, \<^verbatim>\<open>usb_hid_keyboard_adapter\<close>) or from
  other sources; an ownership engine merges them (\<^verbatim>\<open>np2_keyboard_input\<close>) and a bridge hands them to the emulator's owner task
  (\<^verbatim>\<open>np2_keyboard_input_bridge\<close>). That task runs the emulator core under a lifecycle (\<^verbatim>\<open>np2runtime\<close>). Sound leaves the core as timed events and
  sample bytes through rings and a mailbox between two cores (\<^verbatim>\<open>np2audio86_core\<close>, \<^verbatim>\<open>np2opngen_fixture\<close>), and the rendered samples
  reach the audio device through a ring and an output controller (\<^verbatim>\<open>np2pcm_output\<close>).

  \<^bold>\<open>Theories.\<close> \<open>Prelude\<close> has the machine types, the buffer primitives and shared lemmas.

  \<^item> Frames: \<open>Crc32\<close> (crc32.cpp; linearity, detection of short bursts), \<open>Cobs\<close> (cobs.cpp; every array access is checked in the
    model, and the round trip and memory safety are proved), \<open>Binary_Codec\<close> (binary_codec.cpp; frame round trip, the parser
    accepts canonical images only, corrupted frames are rejected).
  \<^item> Transfers: \<open>Transfer_Manager\<close> (transfer_manager.cpp, the record \<open>TransferManager\<close> and one definition per member function),
    \<open>Transfer_Steps\<close> (every public operation is a sequence of atomic steps), \<open>Transfer_Invariant\<close> (\<open>manager_ok\<close>),
    \<open>Transfer_Receiver\<close> (locale \<open>receiving_endpoint\<close>: what the manager promises to an endpoint, exactly-once delivery), \<open>Transfer_Sender\<close>
    (replies, timeouts, bounded retransmission), \<open>Test_Endpoint\<close> (test_endpoint.cpp).
  \<^item> Serial line: \<open>Control_Framing\<close> (control_framing.cpp; lines in any pieces), \<open>Control_Stream\<close> (control_stream.cpp;
    demultiplexing, resynchronisation, bounds).
  \<^item> Storage: \<open>Storage\<close> (storage.hpp), \<open>Storage_Blocks\<close>, \<open>Storage_Ram\<close> (storage_ram.cpp), \<open>Storage_Invariant\<close> (\<open>storage_ok\<close>),
    \<open>Storage_Spec\<close> (the abstract file system and the refinement).
  \<^item> Files: \<open>File_Path\<close> (path.cpp), \<open>Zero_Rle\<close> (zero_rle_v1.cpp; locale \<open>rle_target\<close> for the receiver of decoded bytes),
    \<open>File_Transfer\<close> (file_transfer.cpp), \<open>File_Upload\<close> (locales \<open>storage_backend\<close> and \<open>file_upload\<close>: an upload through manager, service,
    decoder and storage is atomic), \<open>File_Digest\<close> (the digest command; the functions of mbedTLS are a parameter).
  \<^item> Keyboard: \<open>Keyboard_Input\<close> (keyboard_input.cpp), \<open>Key_Ownership\<close> (ownership.cpp), \<open>Keyboard_Bridge\<close>
    (keyboard_input_bridge.cpp; the FreeRTOS queue is a parameter), \<open>Hid_Boot\<close> (hid_boot_keyboard.c), \<open>Hid_Adapter\<close> (adapter.cpp).
  \<^item> Sound: \<open>Ring\<close> (locale \<open>ring_geometry\<close>: rings with free-running 32-bit indices, interpreted at the capacities 8, 128 and 65536),
    \<open>Bounded_Fifo\<close> (locale \<open>bounded_fifo\<close>: a ring answers like a bounded list), \<open>Spsc_Queue\<close> (np2opngen_spsc.c; producer and consumer
    interleaved at their atomic accesses), \<open>Audio_Transport\<close> (np2audio86_transport.c), \<open>Audio_Horizon\<close> (np2audio86_runtime_transport.c;
    publish and observe interleaved at every shared access), \<open>Pcm_Ring\<close> (np2opngen_pcm_ring.c), \<open>Pcm_Output\<close> (np2pcm_output.c; the
    sink is a parameter of which nothing is assumed).
  \<^item> Emulator task: \<open>Runtime_Lifecycle\<close> (np2runtime_lifecycle.cpp; any number of calls interleaved at their atomic
    accesses, weak exchanges failing at will), \<open>Runtime\<close> (np2runtime.cpp; the calls into the core are a trace).

  \<^bold>\<open>Conventions.\<close> Fixed-width integers are words and wrap; \<^verbatim>\<open>size_t\<close> values are naturals. A pointer that may be null is an option; a structure that is
  embedded in its owner is never null. Callbacks are functions on a world of a type parameter, so that an endpoint or a
  sink may be any object. Error codes are datatypes with the constructors of the source. Loads and stores of atomics are
  interleaved as written (sequential consistency); the code orders them with acquire and release, and the theorems on the queue and
  the mailbox include that no plain access races with another, so that the orderings used are enough.

  \<^bold>\<open>Fuel and termination.\<close> Loops over data are total functions. The append loop of the sample ring terminates by a
  lexicographic measure, since a full slot can cost one round without progress. \<open>Runtime.run_loop\<close> counts rounds; the
  theorem \<open>stop_ends_run\<close> shows that it returns within the rounds up to a stop request. \<open>Runtime.run_alone\<close> gives every
  lifecycle operation five steps, and the lemmas \<open>run_alone_begin_stopping\<close> to \<open>run_alone_mark_failure\<close> show that five are
  enough. \<open>horizon_observe\<close> is a busy wait and may not return.

  \<^bold>\<open>Interfaces.\<close> Each locale states what one part relies on in another and is interpreted on the model:
  \<open>receiving_endpoint\<close> and \<open>rle_target\<close> by the upload of \<open>File_Upload\<close>, \<open>storage_backend\<close> by the RAM storage, \<open>ring_geometry\<close> and
  \<open>bounded_fifo\<close> by the audio rings.

  \<^bold>\<open>Not modelled.\<close> The vendored emulator and its generators; the JSON protocol and the command dispatcher, which are written
  against the cJSON library; FAT and SD storage, UART, USB host, display, board and I2S code, which are calls into drivers;
  task creation and wiring; benchmarks, probes, fixtures and their evidence records; branches that only test builds
  compile; host tools in other languages.
\<close>

end
